(* ===== verification/Prelude.thy ===== *)
theory Prelude
  imports Main "HOL-Library.Word"
begin

unbundle bit_operations_syntax

text \<open>
  Shared vocabulary of the development.

  The types every component uses (bytes, buffers, masking keys, results and
  polls), the byte order conversions of the Rust standard library
  (\<open>to_be_bytes\<close>, \<open>from_ne_bytes\<close> and friends) with their round-trip laws, and
  the list lemmas that several components share.  Nothing in this theory models
  a file of the crate: it models what the crate uses of the language.
\<close>

section \<open>Collections\<close>

named_theorems frame_simps \<open>projections of the frame constructors\<close>
named_theorems wire_simps \<open>evaluation of the wire format\<close>
named_theorems guard_simps \<open>evaluation of the guards of the state machines\<close>

section \<open>Types\<close>

type_synonym byte = "8 word"
type_synonym bytes = "byte list"
type_synonym u16 = "16 word"
type_synonym u32 = "32 word"
type_synonym u64 = "64 word"

text \<open>Rust's \<open>[u8; 4]\<close>, the masking key.\<close>

type_synonym mask4 = "byte \<times> byte \<times> byte \<times> byte"

text \<open>\<open>Result<T, E>\<close>: a sum, with the names of the source.\<close>

abbreviation Ok :: "'a \<Rightarrow> 'e + 'a" where "Ok \<equiv> Inr"
abbreviation Err :: "'e \<Rightarrow> 'e + 'a" where "Err \<equiv> Inl"

text \<open>\<open>std::task::Poll\<close>.\<close>

datatype 'a poll = Pending | Ready 'a

definition is_err :: "'e + 'a \<Rightarrow> bool" where
  "is_err r = (case r of Err _ \<Rightarrow> True | Ok _ \<Rightarrow> False)"

definition is_ok :: "'e + 'a \<Rightarrow> bool" where
  "is_ok r = (case r of Err _ \<Rightarrow> False | Ok _ \<Rightarrow> True)"

lemma is_err_simps [simp]: "is_err (Err e)" "\<not> is_err (Ok a)"
  by (simp_all add: is_err_def)

lemma is_ok_simps [simp]: "is_ok (Ok a)" "\<not> is_ok (Err e)"
  by (simp_all add: is_ok_def)

section \<open>Lists\<close>

lemma nth_eq_drop_hd: "i < length xs \<Longrightarrow> xs ! i = hd (drop i xs)"
  by (simp add: hd_drop_conv_nth)

lemma take_drop_append_eq:
  "n \<le> length xs \<Longrightarrow> take n (xs @ ys) = take n xs \<and> drop n (xs @ ys) = drop n xs @ ys"
  by simp

lemma two_byte_list: "2 \<le> length xs \<Longrightarrow> xs = xs ! 0 # xs ! 1 # drop 2 xs"
  by (cases xs; cases "tl xs") auto

lemma length4_conv: "length xs = 4 \<Longrightarrow> \<exists>a b c d. xs = [a, b, c, d]"
  by (auto simp: length_Suc_conv eval_nat_numeral)

lemma concat_replicate_nth:
  "xs \<noteq> [] \<Longrightarrow> i < n * length xs \<Longrightarrow> concat (replicate n xs) ! i = xs ! (i mod length xs)"
proof (induction n arbitrary: i)
  case (Suc n)
  show ?case
  proof (cases "i < length xs")
    case True
    then show ?thesis by (simp add: nth_append)
  next
    case False
    then have "i - length xs < n * length xs" "i mod length xs = (i - length xs) mod length xs"
      using Suc.prems by (auto simp: le_mod_geq)
    then show ?thesis using Suc False by (simp add: nth_append)
  qed
qed simp

lemma length_concat_replicate [simp]: "length (concat (replicate n xs)) = n * length xs"
  by (induction n) auto

section \<open>Byte order\<close>

text \<open>
  A word as a sequence of bytes, least significant first.  The conversions of
  the standard library are instances: \<open>to_be_bytes\<close> of a \<open>u16\<close>, \<open>u32\<close> and \<open>u64\<close> is
  \<open>be_bytes\<close> at 2, 4 and 8 bytes, \<open>from_ne_bytes\<close> is \<open>ne_word\<close> at the byte order
  of the target.
\<close>

definition le_bytes :: "nat \<Rightarrow> 'a::len word \<Rightarrow> bytes" where
  "le_bytes n w = map (\<lambda>k. ucast (drop_bit (8 * k) w)) [0..<n]"

primrec le_word :: "bytes \<Rightarrow> 'a::len word" where
  "le_word [] = 0"
| "le_word (b # bs) = ucast b OR push_bit 8 (le_word bs)"

definition be_bytes :: "nat \<Rightarrow> 'a::len word \<Rightarrow> bytes" where
  "be_bytes n w = rev (le_bytes n w)"

definition be_word :: "bytes \<Rightarrow> 'a::len word" where
  "be_word bs = le_word (rev bs)"

definition ne_bytes :: "bool \<Rightarrow> nat \<Rightarrow> 'a::len word \<Rightarrow> bytes" where
  "ne_bytes big n w = (if big then be_bytes n w else le_bytes n w)"

definition ne_word :: "bool \<Rightarrow> bytes \<Rightarrow> 'a::len word" where
  "ne_word big bs = (if big then be_word bs else le_word bs)"

lemma length_le_bytes [simp]: "length (le_bytes n w) = n"
  by (simp add: le_bytes_def)

lemma length_be_bytes [simp]: "length (be_bytes n w) = n"
  by (simp add: be_bytes_def)

lemma length_ne_bytes [simp]: "length (ne_bytes big n w) = n"
  by (simp add: ne_bytes_def)

lemma bit_le_bytes_nth:
  "k < n \<Longrightarrow> bit (le_bytes n w ! k) i \<longleftrightarrow> i < 8 \<and> bit (w :: 'a::len word) (8 * k + i)"
  by (simp add: le_bytes_def bit_simps)

lemma bit_le_word:
  "bit (le_word bs :: 'a::len word) i \<longleftrightarrow>
     i < LENGTH('a) \<and> i div 8 < length bs \<and> bit (bs ! (i div 8)) (i mod 8)"
proof (induction bs arbitrary: i)
  case (Cons b bs)
  show ?case
  proof (cases "i < 8")
    case True
    then show ?thesis by (auto simp: bit_simps)
  next
    case False
    then have div: "i div 8 = Suc ((i - 8) div 8)" and mod: "i mod 8 = (i - 8) mod 8"
      by (simp_all add: le_div_geq le_mod_geq)
    have "\<not> bit b i" using False by (auto dest: bit_imp_le_length)
    then show ?thesis using Cons.IH [of "i - 8"] False unfolding div mod
      by (auto simp: bit_simps)
  qed
qed simp

lemma le_word_le_bytes:
  "LENGTH('a::len) = 8 * n \<Longrightarrow> le_word (le_bytes n w) = (w :: 'a word)"
  by (rule bit_word_eqI) (auto simp: bit_le_word bit_le_bytes_nth)

lemma le_bytes_le_word:
  assumes "length bs = n" "8 * n \<le> LENGTH('a::len)"
  shows "le_bytes n (le_word bs :: 'a word) = bs"
proof (rule nth_equalityI)
  fix k assume "k < length (le_bytes n (le_word bs :: 'a word))"
  then have k: "k < n" by simp
  show "le_bytes n (le_word bs :: 'a word) ! k = bs ! k"
    by (rule bit_word_eqI)
      (use assms k in \<open>auto simp: bit_le_bytes_nth bit_le_word\<close>)
qed (simp add: assms)

lemma be_word_be_bytes:
  "LENGTH('a::len) = 8 * n \<Longrightarrow> be_word (be_bytes n w) = (w :: 'a word)"
  by (simp add: be_word_def be_bytes_def le_word_le_bytes)

lemma be_bytes_be_word:
  "length bs = n \<Longrightarrow> 8 * n \<le> LENGTH('a::len) \<Longrightarrow> be_bytes n (be_word bs :: 'a word) = bs"
  by (simp add: be_word_def be_bytes_def le_bytes_le_word)

lemma ne_word_ne_bytes:
  "LENGTH('a::len) = 8 * n \<Longrightarrow> ne_word big (ne_bytes big n w) = (w :: 'a word)"
  by (simp add: ne_word_def ne_bytes_def le_word_le_bytes be_word_be_bytes)

lemma ne_bytes_ne_word:
  "length bs = n \<Longrightarrow> 8 * n \<le> LENGTH('a::len) \<Longrightarrow> ne_bytes big n (ne_word big bs :: 'a word) = bs"
  by (simp add: ne_word_def ne_bytes_def le_bytes_le_word be_bytes_be_word)

lemma le_bytes_xor:
  "le_bytes n (v XOR w) = map2 (XOR) (le_bytes n v) (le_bytes n (w :: 'a::len word))"
proof (rule nth_equalityI)
  fix k assume "k < length (le_bytes n (v XOR w))"
  then have k: "k < n" by simp
  show "le_bytes n (v XOR w) ! k = map2 (XOR) (le_bytes n v) (le_bytes n w) ! k"
    by (rule bit_word_eqI) (use k in \<open>auto simp: bit_le_bytes_nth bit_simps\<close>)
qed simp

lemma ne_bytes_xor:
  "ne_bytes big n (v XOR w) = map2 (XOR) (ne_bytes big n v) (ne_bytes big n (w :: 'a::len word))"
  by (simp add: ne_bytes_def be_bytes_def le_bytes_xor zip_rev rev_map)

lemma ne_bytes_nth:
  "k < n \<Longrightarrow> ne_bytes big n w ! k = le_bytes n w ! (if big then n - 1 - k else k)"
  by (simp add: ne_bytes_def be_bytes_def rev_nth)

end
