(* ===== verification/Ws_Error.thy ===== *)
theory Ws_Error
  imports Prelude
begin

text \<open>
  The error type of the crate (\<open>src/lib.rs\<close>), with the SOCKS5 errors it embeds
  (\<open>src/native/socks5.rs\<close>), their messages, and the classification predicates.

  Errors of foreign libraries are carried by their message: \<open>url::ParseError\<close>,
  \<open>hyper::Error\<close> and \<open>reqwest::Error\<close> as a string, a \<open>JsValue\<close> as its debug
  output, \<open>std::io::Error\<close> as its kind and message.  The messages matter because the connection sends them to the peer
  as the reason of its Close frame.
\<close>

section \<open>Data\<close>

datatype io_kind = InvalidInput | NotFound | AddrNotAvailable | UnexpectedEof | OtherKind

datatype io_error = Io_Error (io_kind_of: io_kind) (io_message: string)

datatype reply_code =
    GeneralFailure | NotAllowed | NetworkUnreachable | HostUnreachable | ConnectionRefused
  | TtlExpired | CommandNotSupported | AddressTypeNotSupported | Unassigned byte

datatype socks5_error =
    UnsupportedScheme string
  | MissingHost
  | InvalidCredentials
  | CredentialsTooLong
  | HostnameTooLong
  | UnsupportedVersion byte
  | NoAcceptableAuth
  | UnsupportedMethod byte
  | AuthFailed byte
  | Rejected reply_code
  | InvalidAddressType byte

datatype ws_error =
    InvalidFragment
  | FragmentTimeout
  | InvalidUTF8
  | InvalidContinuationFrame
  | InvalidStatusCode u16
  | Redirected u16 string
  | InvalidUpgradeHeader
  | InvalidConnectionHeader
  | ConnectionClosed
  | InvalidCloseFrame
  | InvalidCloseCode
  | ReservedBitsNotZero
  | ControlFrameFragmented
  | PingFrameTooLarge
  | FrameTooLarge
  | InvalidSecWebsocketVersion
  | InvalidOpCode byte
  | MissingSecWebSocketKey
  | InvalidHttpScheme
  | TlsDisabled
  | MissingTlsConnector
  | ExtendedConnectNotSupported
  | CompressionNotSupported
  | Socks5 socks5_error
  | UrlParseError string
  | IoError io_error
  | HTTPError string
  | Js string
  | Reqwest string

section \<open>Messages\<close>

text \<open>Decimal printing of an unsigned integer, as \<open>Display\<close> for \<open>u8\<close> and \<open>u16\<close>.\<close>

fun dec :: "nat \<Rightarrow> string" where
  "dec n = (if n < 10 then [char_of (48 + n)] else dec (n div 10) @ [char_of (48 + n mod 10)])"

declare dec.simps [simp del]

fun reply_code_text :: "reply_code \<Rightarrow> string" where
  "reply_code_text GeneralFailure = ''general failure''"
| "reply_code_text NotAllowed = ''connection not allowed by ruleset''"
| "reply_code_text NetworkUnreachable = ''network unreachable''"
| "reply_code_text HostUnreachable = ''host unreachable''"
| "reply_code_text ConnectionRefused = ''connection refused''"
| "reply_code_text TtlExpired = ''ttl expired''"
| "reply_code_text CommandNotSupported = ''command not supported''"
| "reply_code_text AddressTypeNotSupported = ''address type not supported''"
| "reply_code_text (Unassigned code) = ''unassigned reply code '' @ dec (unat code)"

fun socks5_error_text :: "socks5_error \<Rightarrow> string" where
  "socks5_error_text (UnsupportedScheme s) = ''unsupported proxy scheme: '' @ s"
| "socks5_error_text MissingHost = ''proxy url has no host''"
| "socks5_error_text InvalidCredentials = ''proxy credentials are not valid UTF-8''"
| "socks5_error_text CredentialsTooLong = ''proxy credentials are longer than 255 bytes''"
| "socks5_error_text HostnameTooLong = ''target hostname is longer than 255 bytes''"
| "socks5_error_text (UnsupportedVersion v) =
     ''proxy replied with unsupported version '' @ dec (unat v)"
| "socks5_error_text NoAcceptableAuth =
     ''proxy accepts none of the offered authentication methods''"
| "socks5_error_text (UnsupportedMethod m) =
     ''proxy selected unsupported authentication method '' @ dec (unat m)"
| "socks5_error_text (AuthFailed s) =
     ''proxy rejected the credentials with status '' @ dec (unat s)"
| "socks5_error_text (Rejected c) = ''proxy refused the connection: '' @ reply_code_text c"
| "socks5_error_text (InvalidAddressType t) =
     ''proxy replied with unsupported address type '' @ dec (unat t)"

fun ws_error_text :: "ws_error \<Rightarrow> string" where
  "ws_error_text InvalidFragment = ''Invalid fragment''"
| "ws_error_text FragmentTimeout = ''Fragmented message timed out''"
| "ws_error_text InvalidUTF8 = ''Invalid UTF-8''"
| "ws_error_text InvalidContinuationFrame = ''Invalid continuation frame''"
| "ws_error_text (InvalidStatusCode c) = ''Invalid status code: '' @ dec (unat c)"
| "ws_error_text (Redirected c loc) =
     ''Redirected with status code '' @ dec (unat c) @ '' to '' @ loc"
| "ws_error_text InvalidUpgradeHeader = ''Invalid upgrade header''"
| "ws_error_text InvalidConnectionHeader = ''Invalid connection header''"
| "ws_error_text ConnectionClosed = ''Connection is closed''"
| "ws_error_text InvalidCloseFrame = ''Invalid close frame''"
| "ws_error_text InvalidCloseCode = ''Invalid close code''"
| "ws_error_text ReservedBitsNotZero = ''Reserved bits are not zero''"
| "ws_error_text ControlFrameFragmented = ''Control frame must not be fragmented''"
| "ws_error_text PingFrameTooLarge = ''Ping frame too large''"
| "ws_error_text FrameTooLarge = ''Frame too large''"
| "ws_error_text InvalidSecWebsocketVersion = ''Sec-Websocket-Version must be 13''"
| "ws_error_text (InvalidOpCode b) = ''Invalid opcode (byte='' @ dec (unat b) @ '')''"
| "ws_error_text MissingSecWebSocketKey = ''Sec-WebSocket-Key header is missing''"
| "ws_error_text InvalidHttpScheme = ''Invalid http scheme''"
| "ws_error_text TlsDisabled =
     ''TLS is disabled; enable the tls feature to connect to wss:// URLs''"
| "ws_error_text MissingTlsConnector =
     ''TLS requires a custom connector or the rustls-ring or rustls-aws-lc-rs feature''"
| "ws_error_text ExtendedConnectNotSupported =
     ''Peer does not support extended CONNECT (RFC 8441)''"
| "ws_error_text CompressionNotSupported =
     ''Received compressed frame on stream that doesn'' @ [CHR 0x27] @ ''t support compression''"
| "ws_error_text (Socks5 e) = socks5_error_text e"
| "ws_error_text (UrlParseError m) = m"
| "ws_error_text (IoError e) = io_message e"
| "ws_error_text (HTTPError m) = m"
| "ws_error_text (Js v) = ''js value: '' @ v"
| "ws_error_text (Reqwest m) = m"

section \<open>Classification\<close>

fun is_protocol_error :: "ws_error \<Rightarrow> bool" where
  "is_protocol_error InvalidFragment = True"
| "is_protocol_error FragmentTimeout = True"
| "is_protocol_error InvalidContinuationFrame = True"
| "is_protocol_error InvalidCloseFrame = True"
| "is_protocol_error InvalidCloseCode = True"
| "is_protocol_error ReservedBitsNotZero = True"
| "is_protocol_error ControlFrameFragmented = True"
| "is_protocol_error PingFrameTooLarge = True"
| "is_protocol_error (InvalidOpCode _) = True"
| "is_protocol_error CompressionNotSupported = True"
| "is_protocol_error _ = False"

fun is_handshake_error :: "ws_error \<Rightarrow> bool" where
  "is_handshake_error ExtendedConnectNotSupported = True"
| "is_handshake_error (InvalidStatusCode _) = True"
| "is_handshake_error (Redirected _ _) = True"
| "is_handshake_error InvalidUpgradeHeader = True"
| "is_handshake_error InvalidConnectionHeader = True"
| "is_handshake_error InvalidSecWebsocketVersion = True"
| "is_handshake_error MissingSecWebSocketKey = True"
| "is_handshake_error InvalidHttpScheme = True"
| "is_handshake_error _ = False"

fun is_closed_error :: "ws_error \<Rightarrow> bool" where
  "is_closed_error ConnectionClosed = True"
| "is_closed_error _ = False"

fun is_data_error :: "ws_error \<Rightarrow> bool" where
  "is_data_error InvalidUTF8 = True"
| "is_data_error FrameTooLarge = True"
| "is_data_error _ = False"

fun is_io_error :: "ws_error \<Rightarrow> bool" where
  "is_io_error (IoError _) = True"
| "is_io_error _ = False"

fun as_io_error :: "ws_error \<Rightarrow> io_error option" where
  "as_io_error (IoError e) = Some e"
| "as_io_error _ = None"

lemma is_io_error_iff: "is_io_error e \<longleftrightarrow> as_io_error e \<noteq> None"
  by (cases e) simp_all

text \<open>The number of classes an error is in.\<close>

definition error_classes :: "ws_error \<Rightarrow> nat" where
  "error_classes e =
     length (filter (\<lambda>p. p e)
       [is_protocol_error, is_handshake_error, is_closed_error, is_data_error, is_io_error])"

text \<open>The classes of errors exclude each other.\<close>

lemma error_classes_le_one: "error_classes e \<le> 1"
  by (cases e) (simp_all add: error_classes_def)

end
