(* ===== verification/Close_Code.thy ===== *)
theory Close_Code
  imports Prelude
begin

text \<open>
  Close codes (\<open>src/close.rs\<close>): the enum, its conversions from and to the
  16-bit number on the wire, and which codes an endpoint may send.
\<close>

datatype close_code =
    Normal | Away | Protocol | Unsupported | Status | Abnormal | Invalid | Policy | Size
  | Extension | Error | Restart | Again | Tls
  | Reserved u16 | Iana u16 | Library u16 | Bad u16

fun is_allowed :: "close_code \<Rightarrow> bool" where
  "is_allowed (Bad _) = False"
| "is_allowed (Reserved _) = False"
| "is_allowed Status = False"
| "is_allowed Abnormal = False"
| "is_allowed Tls = False"
| "is_allowed _ = True"

text \<open>\<open>From<u16>\<close>: the arms of the match in the order of the source.\<close>

definition close_code_from :: "u16 \<Rightarrow> close_code" where
  "close_code_from code =
    (if code = 1000 then Normal
     else if code = 1001 then Away
     else if code = 1002 then Protocol
     else if code = 1003 then Unsupported
     else if code = 1005 then Status
     else if code = 1006 then Abnormal
     else if code = 1007 then Invalid
     else if code = 1008 then Policy
     else if code = 1009 then Size
     else if code = 1010 then Extension
     else if code = 1011 then Error
     else if code = 1012 then Restart
     else if code = 1013 then Again
     else if code = 1015 then Tls
     else if 1 \<le> code \<and> code \<le> 999 then Bad code
     else if 1016 \<le> code \<and> code \<le> 2999 then Reserved code
     else if 3000 \<le> code \<and> code \<le> 3999 then Iana code
     else if 4000 \<le> code \<and> code \<le> 4999 then Library code
     else Bad code)"

fun close_code_to :: "close_code \<Rightarrow> u16" where
  "close_code_to Normal = 1000"
| "close_code_to Away = 1001"
| "close_code_to Protocol = 1002"
| "close_code_to Unsupported = 1003"
| "close_code_to Status = 1005"
| "close_code_to Abnormal = 1006"
| "close_code_to Invalid = 1007"
| "close_code_to Policy = 1008"
| "close_code_to Size = 1009"
| "close_code_to Extension = 1010"
| "close_code_to Error = 1011"
| "close_code_to Restart = 1012"
| "close_code_to Again = 1013"
| "close_code_to Tls = 1015"
| "close_code_to (Reserved code) = code"
| "close_code_to (Iana code) = code"
| "close_code_to (Library code) = code"
| "close_code_to (Bad code) = code"

text \<open>The conversion of a number to a code loses nothing.\<close>

lemma close_code_to_from [simp]: "close_code_to (close_code_from c) = c"
  by (simp add: close_code_from_def)

text \<open>
  The codes that \<open>From<u16>\<close> produces: the canonical ones.  A value such as
  \<open>Library 1000\<close> can be written in the program but never comes from the wire.
\<close>

definition canonical_code :: "close_code \<Rightarrow> bool" where
  "canonical_code c \<longleftrightarrow> close_code_from (close_code_to c) = c"

lemma canonical_close_code_from [simp]: "canonical_code (close_code_from c)"
  by (simp add: canonical_code_def)

text \<open>
  The codes an endpoint may put in a Close frame, as RFC 6455, section 7.4
  lists them by number.
\<close>

definition sendable_code :: "u16 \<Rightarrow> bool" where
  "sendable_code c \<longleftrightarrow>
     c \<in> {1000, 1001, 1002, 1003} \<or> 1007 \<le> c \<and> c \<le> 1013 \<or> 3000 \<le> c \<and> c \<le> 4999"

lemma is_allowed_close_code_from: "is_allowed (close_code_from c) \<longleftrightarrow> sendable_code c"
  unfolding close_code_from_def sendable_code_def
  by (auto simp: word_le_nat_alt word_unat_eq_iff)

text \<open>
  The wire number of a close code survives the conversion to the enum and
  back, and \<open>is_allowed\<close> holds of exactly the codes that RFC 6455 lets an endpoint
  send.
\<close>

lemma close_code_roundtrip_allowed:
  "close_code_to (close_code_from c) = c \<and> (is_allowed (close_code_from c) \<longleftrightarrow> sendable_code c)"
  by (simp add: is_allowed_close_code_from)

end
