(* ===== verification/Utf8.thy ===== *)
theory Utf8
  imports Prelude
begin

text \<open>
  What the crate uses of Rust strings: validation of a byte slice by
  \<open>std::str::from_utf8\<close>, and the bytes of an ASCII literal.

  \<open>utf8_valid\<close> is the table of well-formed byte sequences (Unicode, table 3-7)
  that the standard library implements.  A \<open>&str\<close> is modelled by its bytes.
\<close>

section \<open>Validation\<close>

definition in_range :: "nat \<Rightarrow> nat \<Rightarrow> byte \<Rightarrow> bool" where
  "in_range lo hi b \<longleftrightarrow> lo \<le> unat b \<and> unat b \<le> hi"

text \<open>The length of the sequence a lead byte opens, and the range of its second byte.\<close>

definition lead_len :: "byte \<Rightarrow> nat" where
  "lead_len b =
    (if in_range 0 0x7F b then 1
     else if in_range 0xC2 0xDF b then 2
     else if in_range 0xE0 0xEF b then 3
     else if in_range 0xF0 0xF4 b then 4
     else 0)"

definition second_ok :: "byte \<Rightarrow> byte \<Rightarrow> bool" where
  "second_ok b c =
    (if b = 0xE0 then in_range 0xA0 0xBF c
     else if b = 0xED then in_range 0x80 0x9F c
     else if b = 0xF0 then in_range 0x90 0xBF c
     else if b = 0xF4 then in_range 0x80 0x8F c
     else in_range 0x80 0xBF c)"

definition tail_ok :: "byte \<Rightarrow> bool" where
  "tail_ok c = in_range 0x80 0xBF c"

text \<open>One well-formed sequence, as a list of its bytes.\<close>

fun utf8_char :: "bytes \<Rightarrow> bool" where
  "utf8_char [b] = (lead_len b = 1)"
| "utf8_char [b, c] = (lead_len b = 2 \<and> second_ok b c)"
| "utf8_char [b, c, d] = (lead_len b = 3 \<and> second_ok b c \<and> tail_ok d)"
| "utf8_char [b, c, d, e] = (lead_len b = 4 \<and> second_ok b c \<and> tail_ok d \<and> tail_ok e)"
| "utf8_char _ = False"

fun utf8_valid :: "bytes \<Rightarrow> bool" where
  "utf8_valid [] = True"
| "utf8_valid (b # bs) =
    (lead_len b \<noteq> 0 \<and> lead_len b \<le> Suc (length bs) \<and>
     utf8_char (take (lead_len b) (b # bs)) \<and>
     utf8_valid (drop (lead_len b - 1) bs))"

text \<open>\<open>from_utf8\<close>: the bytes as a string, or nothing.\<close>

definition from_utf8 :: "bytes \<Rightarrow> bytes option" where
  "from_utf8 bs = (if utf8_valid bs then Some bs else None)"

lemma utf8_char_lead: "utf8_char bs \<Longrightarrow> bs \<noteq> [] \<and> length bs = lead_len (hd bs)"
  by (cases bs rule: utf8_char.cases) auto

lemma utf8_valid_char_append:
  assumes "utf8_char cs"
  shows "utf8_valid (cs @ bs) \<longleftrightarrow> utf8_valid bs"
proof -
  obtain b ds where cs: "cs = b # ds" and len: "lead_len b = Suc (length ds)"
    using utf8_char_lead [OF assms] by (cases cs) auto
  then show ?thesis using assms by simp
qed

text \<open>A string is a concatenation of well-formed sequences, and nothing else is.\<close>

lemma utf8_valid_concat: "list_all utf8_char css \<Longrightarrow> utf8_valid (concat css)"
  by (induction css) (simp_all add: utf8_valid_char_append)

lemma utf8_valid_obtain:
  assumes "utf8_valid bs"
  obtains css where "bs = concat css" "list_all utf8_char css"
proof -
  have "\<exists>css. bs = concat css \<and> list_all utf8_char css"
    using assms
  proof (induction bs rule: utf8_valid.induct)
    case 1
    show ?case by (rule exI [of _ "[]"]) simp
  next
    case (2 b bs)
    let ?n = "lead_len b"
    obtain css where css: "drop (?n - 1) bs = concat css" "list_all utf8_char css"
      using 2 by auto
    have "b # bs = concat (take ?n (b # bs) # css)"
      using 2(2) css(1) by (cases ?n) (simp_all flip: css(1))
    then show ?case using 2(2) css(2)
      by (intro exI [of _ "take ?n (b # bs) # css"]) simp
  qed
  then show ?thesis using that by auto
qed

lemma utf8_valid_append:
  assumes "utf8_valid xs"
  shows "utf8_valid (xs @ ys) \<longleftrightarrow> utf8_valid ys"
proof -
  obtain css where "xs = concat css" "list_all utf8_char css"
    using assms by (rule utf8_valid_obtain)
  moreover have "list_all utf8_char css \<Longrightarrow> utf8_valid (concat css @ ys) \<longleftrightarrow> utf8_valid ys"
    by (induction css) (simp_all add: utf8_valid_char_append)
  ultimately show ?thesis by simp
qed

section \<open>ASCII literals\<close>

definition str_bytes :: "string \<Rightarrow> bytes" where
  "str_bytes s = map (\<lambda>c. word_of_nat (of_char c)) s"

lemma length_str_bytes [simp]: "length (str_bytes s) = length s"
  by (simp add: str_bytes_def)

definition ascii :: "string \<Rightarrow> bool" where
  "ascii s \<longleftrightarrow> list_all (\<lambda>c. of_char c < (128 :: nat)) s"

lemma utf8_valid_ascii: "list_all (\<lambda>b. unat b < 128) bs \<Longrightarrow> utf8_valid bs"
  by (induction bs) (simp_all add: lead_len_def in_range_def)

lemma utf8_valid_str_bytes: "ascii s \<Longrightarrow> utf8_valid (str_bytes s)"
  by (rule utf8_valid_ascii)
    (auto simp: ascii_def str_bytes_def list_all_iff unat_of_nat)

end
