(* ===== verification/Frame.thy ===== *)
theory Frame
  imports Ws_Error Close_Code Utf8
begin

text \<open>
  Frames (\<open>src/frame.rs\<close>): opcodes and their wire values, the frame type with its
  constructors and accessors, the Close payload, the frame header writer, and
  the iterator that splits a frame into fragments.
\<close>

section \<open>Opcodes\<close>

datatype opcode = Continuation | Text | Binary | Close | Ping | Pong

fun is_control :: "opcode \<Rightarrow> bool" where
  "is_control Close = True"
| "is_control Ping = True"
| "is_control Pong = True"
| "is_control _ = False"

definition opcode_try_from :: "byte \<Rightarrow> ws_error + opcode" where
  "opcode_try_from v =
    (if v = 0x0 then Ok Continuation
     else if v = 0x1 then Ok Text
     else if v = 0x2 then Ok Binary
     else if v = 0x8 then Ok Close
     else if v = 0x9 then Ok Ping
     else if v = 0xA then Ok Pong
     else Err (InvalidOpCode v))"

fun opcode_byte :: "opcode \<Rightarrow> byte" where
  "opcode_byte Continuation = 0x0"
| "opcode_byte Text = 0x1"
| "opcode_byte Binary = 0x2"
| "opcode_byte Close = 0x8"
| "opcode_byte Ping = 0x9"
| "opcode_byte Pong = 0xA"

lemma opcode_try_from_byte [simp]: "opcode_try_from (opcode_byte c) = Ok c"
  by (cases c) (simp_all add: opcode_try_from_def)

lemma opcode_try_from_Ok_iff: "opcode_try_from v = Ok c \<longleftrightarrow> v = opcode_byte c"
  by (cases c) (auto simp: opcode_try_from_def)

lemma opcode_byte_cases: "opcode_byte c \<in> {0, 1, 2, 8, 9, 10}"
  by (cases c) simp_all

section \<open>The frame\<close>

record frame =
  fin :: bool
  opcode :: opcode
  is_compressed :: bool
  mask_key :: "mask4 option"
  payload :: bytes

definition MAX_HEAD_SIZE :: nat where "MAX_HEAD_SIZE = 16"

definition frame_new :: "bool \<Rightarrow> opcode \<Rightarrow> mask4 option \<Rightarrow> bytes \<Rightarrow> frame" where
  "frame_new f c m p =
    \<lparr>fin = f, opcode = c, is_compressed = False, mask_key = m, payload = p\<rparr>"

definition frame_of_pair :: "opcode \<times> bytes \<Rightarrow> frame" where
  "frame_of_pair = (\<lambda>(c, p).
    \<lparr>fin = True, opcode = c, is_compressed = False, mask_key = None, payload = p\<rparr>)"

definition pair_of_frame :: "frame \<Rightarrow> opcode \<times> bytes" where
  "pair_of_frame f = (opcode f, payload f)"

definition text_frame :: "bytes \<Rightarrow> frame" where
  "text_frame p =
    \<lparr>fin = True, opcode = Text, is_compressed = False, mask_key = None, payload = p\<rparr>"

definition binary_frame :: "bytes \<Rightarrow> frame" where
  "binary_frame p =
    \<lparr>fin = True, opcode = Binary, is_compressed = False, mask_key = None, payload = p\<rparr>"

definition ping_frame :: "bytes \<Rightarrow> frame" where
  "ping_frame p =
    \<lparr>fin = True, opcode = Ping, is_compressed = False, mask_key = None, payload = p\<rparr>"

definition pong_frame :: "bytes \<Rightarrow> frame" where
  "pong_frame p =
    \<lparr>fin = True, opcode = Pong, is_compressed = False, mask_key = None, payload = p\<rparr>"

definition continuation_frame :: "bytes \<Rightarrow> frame" where
  "continuation_frame p =
    \<lparr>fin = True, opcode = Continuation, is_compressed = False, mask_key = None, payload = p\<rparr>"

definition with_fin :: "bool \<Rightarrow> frame \<Rightarrow> frame" where
  "with_fin b f = f\<lparr>fin := b\<rparr>"

definition close_frame :: "close_code \<Rightarrow> bytes \<Rightarrow> frame" where
  "close_frame code reason =
    \<lparr>fin = True, opcode = Close, is_compressed = False, mask_key = None,
     payload = be_bytes 2 (close_code_to code) @ reason\<rparr>"

definition close_raw :: "bytes \<Rightarrow> frame" where
  "close_raw p =
    \<lparr>fin = True, opcode = Close, is_compressed = False, mask_key = None, payload = p\<rparr>"

definition into_parts :: "frame \<Rightarrow> opcode \<times> bool \<times> bytes" where
  "into_parts f = (opcode f, fin f, payload f)"

definition into_parts_str :: "frame \<Rightarrow> (opcode \<times> bytes) option" where
  "into_parts_str f = (case from_utf8 (payload f) of None \<Rightarrow> None | Some s \<Rightarrow> Some (opcode f, s))"

definition set_fin :: "bool \<Rightarrow> frame \<Rightarrow> frame" where
  "set_fin b f = f\<lparr>fin := b\<rparr>"

definition set_mask :: "mask4 option \<Rightarrow> frame \<Rightarrow> frame" where
  "set_mask m f = f\<lparr>mask_key := m\<rparr>"

definition with_mask :: "mask4 \<Rightarrow> frame \<Rightarrow> frame" where
  "with_mask m f = f\<lparr>mask_key := Some m\<rparr>"

text \<open>
  The random masks: \<open>rand::random\<close> is the argument \<open>r\<close>, already converted to its
  four bytes.
\<close>

definition set_random_mask :: "mask4 \<Rightarrow> frame \<Rightarrow> frame" where
  "set_random_mask r f = f\<lparr>mask_key := Some r\<rparr>"

definition with_random_mask :: "mask4 \<Rightarrow> frame \<Rightarrow> frame" where
  "with_random_mask r f = f\<lparr>mask_key := Some r\<rparr>"

definition set_random_mask_if_not_set :: "mask4 \<Rightarrow> frame \<Rightarrow> frame" where
  "set_random_mask_if_not_set r f =
    (if mask_key f = None then f\<lparr>mask_key := Some r\<rparr> else f)"

text \<open>\<open>as_str\<close> panics on invalid UTF-8: the panic is \<open>None\<close>.\<close>

definition as_str :: "frame \<Rightarrow> bytes option" where
  "as_str f = from_utf8 (payload f)"

definition is_utf8 :: "frame \<Rightarrow> bool" where
  "is_utf8 f = utf8_valid (payload f)"

definition frame_close_code :: "frame \<Rightarrow> close_code option" where
  "frame_close_code f =
    (if length (payload f) < 2 then None
     else Some (close_code_from (be_word (take 2 (payload f)))))"

definition close_reason :: "frame \<Rightarrow> ws_error + bytes option" where
  "close_reason f =
    (if payload f = [] then Ok None
     else if length (payload f) < 2 then Err InvalidUTF8
     else (case from_utf8 (drop 2 (payload f)) of
             None \<Rightarrow> Err InvalidUTF8
           | Some s \<Rightarrow> Ok (Some s)))"

lemmas [frame_simps] =
  frame_new_def frame_of_pair_def pair_of_frame_def text_frame_def binary_frame_def
  ping_frame_def pong_frame_def continuation_frame_def with_fin_def close_frame_def
  close_raw_def into_parts_def set_fin_def set_mask_def with_mask_def set_random_mask_def
  with_random_mask_def set_random_mask_if_not_set_def

text \<open>The data and the control frames of a sequence.\<close>

abbreviation data_frames :: "frame list \<Rightarrow> frame list" where
  "data_frames \<equiv> filter (\<lambda>f. \<not> is_control (opcode f))"

abbreviation control_frames :: "frame list \<Rightarrow> frame list" where
  "control_frames \<equiv> filter (\<lambda>f. is_control (opcode f))"

section \<open>The header writer\<close>

fun mask_list :: "mask4 \<Rightarrow> bytes" where
  "mask_list (a, b, c, d) = [a, b, c, d]"

definition mask_flag :: "frame \<Rightarrow> byte" where
  "mask_flag f = (if mask_key f = None then 0 else 0x80)"

definition first_byte :: "frame \<Rightarrow> byte" where
  "first_byte f =
    push_bit 7 (of_bool (fin f)) OR push_bit 6 (of_bool (is_compressed f)) OR opcode_byte (opcode f)"

definition write_head :: "frame \<Rightarrow> bytes \<Rightarrow> bytes" where
  "write_head f dst =
    (let len = length (payload f);
         dst = (if len < 126 then
                  dst @ [first_byte f] @ [word_of_nat len OR mask_flag f]
                else if len < 65536 then
                  dst @ [first_byte f] @ [126 OR mask_flag f] @ be_bytes 2 (word_of_nat len :: u16)
                else
                  dst @ [first_byte f] @ [127 OR mask_flag f] @ be_bytes 8 (word_of_nat len :: u64))
     in case mask_key f of None \<Rightarrow> dst | Some m \<Rightarrow> dst @ mask_list m)"

lemma length_mask_list [simp]: "length (mask_list m) = 4"
  by (cases m) simp

lemma length_write_head_le: "length (write_head f dst) \<le> length dst + 14"
  by (simp add: write_head_def Let_def split: option.split)

section \<open>Splitting a frame into fragments\<close>

text \<open>
  The iterator \<open>Split\<close> of \<open>into_fragments\<close>.  \<open>split_next\<close> is one call of \<open>next\<close>:
  it takes the frame out, and puts the rest back unless the rest is the last
  fragment.
\<close>

record split =
  split_index :: nat
  max_size :: nat
  split_frame :: "frame option"

definition split_next :: "split \<Rightarrow> frame option \<times> split" where
  "split_next s =
    (case split_frame s of
       None \<Rightarrow> (None, s)
     | Some f \<Rightarrow>
         let s = s\<lparr>split_frame := None\<rparr> in
         if length (payload f) \<le> max_size s then
           (Some (if split_index s \<noteq> 0 then (set_fin True f)\<lparr>opcode := Continuation\<rparr> else f), s)
         else
           let is_first = (split_index s = 0);
               s = s\<lparr>split_index := split_index s + 1\<rparr>;
               chunk = take (max_size s) (payload f);
               f = f\<lparr>payload := drop (max_size s) (payload f)\<rparr>;
               c = (if is_first then opcode f else Continuation)
           in (Some (frame_new False c (mask_key f) chunk), s\<lparr>split_frame := Some f\<rparr>))"

text \<open>
  Draining the iterator.  The fuel bounds the calls of \<open>next\<close>; \<open>None\<close> is an
  iterator that has not ended within it.
\<close>

fun split_collect :: "nat \<Rightarrow> split \<Rightarrow> frame list option" where
  "split_collect 0 s = None"
| "split_collect (Suc k) s =
    (case split_next s of
       (None, _) \<Rightarrow> Some []
     | (Some f, s') \<Rightarrow> map_option ((#) f) (split_collect k s'))"

definition split_start :: "frame \<Rightarrow> nat \<Rightarrow> split" where
  "split_start f part = \<lparr>split_index = 0, max_size = part, split_frame = Some f\<rparr>"

text \<open>
  \<open>into_fragments\<close> drained: a payload of \<open>n\<close> bytes gives at most \<open>n + 1\<close> fragments,
  and one more call ends the iterator, so \<open>n + 2\<close> calls are enough.
\<close>

definition into_fragments :: "frame \<Rightarrow> nat \<Rightarrow> frame list option" where
  "into_fragments f part =
    split_collect (length (payload f) + 2) (split_start f part)"

text \<open>The fragments after the first one, as a reference definition on the payload.\<close>

function rest_fragments :: "nat \<Rightarrow> frame \<Rightarrow> frame list" where
  "rest_fragments n f =
    (if n = 0 \<or> length (payload f) \<le> n then [f\<lparr>fin := True, opcode := Continuation\<rparr>]
     else frame_new False Continuation (mask_key f) (take n (payload f))
            # rest_fragments n (f\<lparr>payload := drop n (payload f)\<rparr>))"
  by auto
termination by (relation "measure (\<lambda>(n, f). length (payload f))") auto

declare rest_fragments.simps [simp del]

lemma split_collect_rest:
  assumes "0 < n" "i \<noteq> 0" "length (payload f) + 2 \<le> k"
  shows "split_collect k \<lparr>split_index = i, max_size = n, split_frame = Some f\<rparr>
         = Some (rest_fragments n f)"
  using assms
proof (induction "length (payload f)" arbitrary: f i k rule: less_induct)
  case less
  then obtain j where k: "k = Suc j" by (cases k) auto
  show ?case
  proof (cases "length (payload f) \<le> n")
    case True
    then obtain j' where "j = Suc j'" using less.prems k by (cases j) auto
    then show ?thesis using True less.prems k
      by (simp add: split_next_def rest_fragments.simps [of n f] set_fin_def)
  next
    case False
    let ?f = "f\<lparr>payload := drop n (payload f)\<rparr>"
    have "split_collect j \<lparr>split_index = Suc i, max_size = n, split_frame = Some ?f\<rparr>
          = Some (rest_fragments n ?f)"
      by (rule less.hyps) (use False less.prems k in auto)
    then show ?thesis using False less.prems k
      by (simp add: split_next_def rest_fragments.simps [of n f])
  qed
qed

lemma into_fragments_eq:
  assumes "0 < n"
  shows "into_fragments f n = Some
    (if length (payload f) \<le> n then [f]
     else frame_new False (opcode f) (mask_key f) (take n (payload f))
            # rest_fragments n (f\<lparr>payload := drop n (payload f)\<rparr>))"
proof (cases "length (payload f) \<le> n")
  case True
  then show ?thesis by (simp add: into_fragments_def split_start_def split_next_def eval_nat_numeral)
next
  case False
  let ?f = "f\<lparr>payload := drop n (payload f)\<rparr>"
  have "split_collect (Suc (length (payload f)))
          \<lparr>split_index = Suc 0, max_size = n, split_frame = Some ?f\<rparr> = Some (rest_fragments n ?f)"
    by (rule split_collect_rest) (use assms False in auto)
  then show ?thesis using False
    by (simp add: into_fragments_def split_start_def split_next_def)
qed

lemma concat_rest_fragments:
  "concat (map payload (rest_fragments n f)) = payload f"
  by (induction n f rule: rest_fragments.induct)
    (subst rest_fragments.simps, simp add: frame_new_def)

lemma rest_fragments_shape:
  assumes "0 < n"
  shows "\<forall>g \<in> set (rest_fragments n f).
           opcode g = Continuation \<and> mask_key g = mask_key f \<and> length (payload g) \<le> n"
  using assms
  by (induction n f rule: rest_fragments.induct)
    (subst rest_fragments.simps, auto simp: frame_new_def)

lemma rest_fragments_not_Nil [simp]: "rest_fragments n f \<noteq> []"
  by (subst rest_fragments.simps) simp

lemma rest_fragments_fin:
  "map fin (rest_fragments n f) = replicate (length (rest_fragments n f) - 1) False @ [True]"
proof (induction n f rule: rest_fragments.induct)
  case (1 n f)
  show ?case
  proof (cases "n = 0 \<or> length (payload f) \<le> n")
    case True
    then show ?thesis by (simp add: rest_fragments.simps [of n f])
  next
    case False
    let ?r = "rest_fragments n (f\<lparr>payload := drop n (payload f)\<rparr>)"
    have "length ?r = Suc (length ?r - 1)" by (cases ?r) simp_all
    then have "replicate (length ?r) False = False # replicate (length ?r - 1) False"
      by (metis replicate_Suc)
    then show ?thesis using False 1 by (simp add: rest_fragments.simps [of n f] frame_new_def)
  qed
qed

section \<open>Properties\<close>

text \<open>
  A Close frame gives back the code and the reason it was built from; a
  reason that is not UTF-8 is reported as such.
\<close>

lemma close_frame_roundtrip:
  "frame_close_code (close_frame code reason) = Some (close_code_from (close_code_to code)) \<and>
   close_reason (close_frame code reason) =
     (if utf8_valid reason then Ok (Some reason) else Err InvalidUTF8)"
proof -
  have ne: "be_bytes 2 (close_code_to code) \<noteq> []"
    by (metis length_be_bytes list.size(3) zero_neq_numeral)
  have "take 2 (be_bytes 2 (close_code_to code) @ reason) = be_bytes 2 (close_code_to code)"
    "drop 2 (be_bytes 2 (close_code_to code) @ reason) = reason"
    by simp_all
  then show ?thesis using ne
    by (simp add: frame_close_code_def close_reason_def close_frame_def from_utf8_def
        be_word_be_bytes)
qed

text \<open>
  Fragmentation: with a positive size the iterator ends, its fragments have at
  most that many bytes each and carry the payload in order, the first keeps the
  opcode and the others are continuations, all keep the mask, and only the last is
  final (a frame that fits is passed through unchanged).
\<close>

lemma into_fragments_correct:
  assumes "0 < n"
  shows "\<exists>g gs. into_fragments f n = Some (g # gs) \<and>
    concat (map payload (g # gs)) = payload f \<and>
    list_all (\<lambda>h. length (payload h) \<le> n \<and> mask_key h = mask_key f) (g # gs) \<and>
    opcode g = opcode f \<and> list_all (\<lambda>h. opcode h = Continuation) gs \<and>
    (if gs = [] then g = f else map fin (g # gs) = replicate (length gs) False @ [True])"
proof (cases "length (payload f) \<le> n")
  case True
  then show ?thesis using assms by (simp add: into_fragments_eq)
next
  case False
  let ?r = "rest_fragments n (f\<lparr>payload := drop n (payload f)\<rparr>)"
  have rep: "replicate (length ?r) False = False # replicate (length ?r - 1) False"
    by (cases ?r) simp_all
  show ?thesis
    using assms False rest_fragments_shape [OF assms, of "f\<lparr>payload := drop n (payload f)\<rparr>"] rep
    by (auto simp: into_fragments_eq concat_rest_fragments rest_fragments_fin frame_new_def
        list_all_iff)
qed

text \<open>
  C38. With a fragment size of zero the iterator of a non-empty payload never ends:
  no number of calls drains it.
\<close>

theorem into_fragments_zero_diverges:
  assumes "payload f \<noteq> []"
  shows "split_collect fuel (split_start f 0) = None"
proof -
  have "split_collect fuel \<lparr>split_index = i, max_size = 0, split_frame = Some g\<rparr> = None"
    if "payload g \<noteq> []" for i g
    using that by (induction fuel arbitrary: i g) (simp_all add: split_next_def Let_def)
  then show ?thesis using assms by (simp add: split_start_def)
qed

theorem into_fragments_zero_diverges_witness:
  "split_collect 50 (split_start (text_frame [1]) 0) = None"
  by (rule into_fragments_zero_diverges) (simp add: text_frame_def)

end
