(* ===== verification/Mask.thy ===== *)
theory Mask
  imports Frame
begin

text \<open>
  Payload masking (\<open>src/mask.rs\<close>).  The file has one reference routine
  (\<open>apply_mask_fallback\<close>) and optimised ones for 4-byte blocks, aligned 8-byte
  words, AVX2 and NEON vectors, chosen by length and by the processor.

  The processor is an argument: its architecture and features and its byte
  order, which \<open>from_ne_bytes\<close> and \<open>to_ne_bytes\<close> depend on.  The address of the
  buffer is an argument of the routine that splits it at 8-byte boundaries.
  Routines that take raw pointers work on an explicit memory, so that masking in
  place and masking into a second buffer are the same code on two aliasings.
\<close>

section \<open>The processor\<close>

datatype arch = X86 bool | Aarch64 bool bool | Other_Arch bool

text \<open>\<open>X86 avx2\<close>, \<open>Aarch64 neon big_endian\<close>, \<open>Other_Arch big_endian\<close>.\<close>

fun big_endian :: "arch \<Rightarrow> bool" where
  "big_endian (X86 _) = False"
| "big_endian (Aarch64 _ be) = be"
| "big_endian (Other_Arch be) = be"

fun has_avx2 :: "arch \<Rightarrow> bool" where
  "has_avx2 (X86 avx2) = avx2"
| "has_avx2 _ = False"

fun has_neon :: "arch \<Rightarrow> bool" where
  "has_neon (Aarch64 neon _) = neon"
| "has_neon _ = False"

record hardware =
  hw_arch :: arch
  hw_addr :: nat

abbreviation hw_be :: "hardware \<Rightarrow> bool" where "hw_be hw \<equiv> big_endian (hw_arch hw)"

section \<open>The reference routine\<close>

text \<open>\<open>mask[i & 3]\<close>.\<close>

definition mask_at :: "mask4 \<Rightarrow> nat \<Rightarrow> byte" where
  "mask_at m i = mask_list m ! (i AND 3)"

definition apply_mask_fallback :: "mask4 \<Rightarrow> bytes \<Rightarrow> bytes" where
  "apply_mask_fallback m buf = map (\<lambda>(i, b). b XOR mask_at m i) (enumerate 0 buf)"

section \<open>Blocks of four bytes\<close>

fun fast32_chunks :: "bool \<Rightarrow> u32 \<Rightarrow> mask4 \<Rightarrow> bytes \<Rightarrow> bytes" where
  "fast32_chunks be mask_word m (a # b # c # d # rest) =
     ne_bytes be 4 (ne_word be [a, b, c, d] XOR mask_word) @ fast32_chunks be mask_word m rest"
| "fast32_chunks be mask_word m remainder = map2 (XOR) remainder (mask_list m)"

definition apply_mask_fast32 :: "hardware \<Rightarrow> mask4 \<Rightarrow> bytes \<Rightarrow> bytes" where
  "apply_mask_fast32 hw m buf =
     fast32_chunks (hw_be hw) (ne_word (hw_be hw) (mask_list m)) m buf"

section \<open>Aligned words of eight bytes\<close>

text \<open>
  \<open>align_to_mut::<u64>\<close>: the prefix up to the next address that is a multiple of
  8, then as many words as fit.
\<close>

definition align_to_u64 :: "nat \<Rightarrow> nat \<Rightarrow> nat \<times> nat" where
  "align_to_u64 addr len =
     (let p = (8 - addr mod 8) mod 8 in if len < p then (len, 0) else (p, (len - p) div 8))"

fun fast64_words :: "bool \<Rightarrow> u64 \<Rightarrow> nat \<Rightarrow> bytes \<Rightarrow> bytes" where
  "fast64_words be mask_u64 0 buf = []"
| "fast64_words be mask_u64 (Suc n) buf =
     ne_bytes be 8 (ne_word be (take 8 buf) XOR mask_u64) @ fast64_words be mask_u64 n (drop 8 buf)"

definition list_mask4 :: "bytes \<Rightarrow> mask4" where
  "list_mask4 bs = (bs ! 0, bs ! 1, bs ! 2, bs ! 3)"

definition fast64_mask :: "bool \<Rightarrow> mask4 \<Rightarrow> nat \<Rightarrow> u64" where
  "fast64_mask be m p =
     (let mask_u32 = (ne_word be (mask_list m) :: u32);
          mask_u64 = push_bit 32 (ucast mask_u32 :: u64) OR ucast mask_u32;
          head = p AND 3
      in if head > 0 then
           if be then word_rotl (8 * head) mask_u64 else word_rotr (8 * head) mask_u64
         else mask_u64)"

definition fast64_split :: "bool \<Rightarrow> mask4 \<Rightarrow> nat \<Rightarrow> nat \<Rightarrow> bytes \<Rightarrow> bytes" where
  "fast64_split be m p w buf =
     (let mask_u64 = fast64_mask be m p in
      apply_mask_fallback m (take p buf)
      @ fast64_words be mask_u64 w (drop p buf)
      @ apply_mask_fallback (list_mask4 (ne_bytes be 4 (ucast mask_u64 :: u32)))
          (drop (p + 8 * w) buf))"

definition apply_mask_fast64 :: "hardware \<Rightarrow> mask4 \<Rightarrow> bytes \<Rightarrow> bytes" where
  "apply_mask_fast64 hw m buf =
     (case align_to_u64 (hw_addr hw) (length buf) of
        (p, w) \<Rightarrow> fast64_split (hw_be hw) m p w buf)"

section \<open>Raw memory\<close>

definition load :: "bytes \<Rightarrow> nat \<Rightarrow> nat \<Rightarrow> bytes" where
  "load mem a n = take n (drop a mem)"

definition store :: "bytes \<Rightarrow> nat \<Rightarrow> bytes \<Rightarrow> bytes" where
  "store mem a bs = take a mem @ bs @ drop (a + length bs) mem"

section \<open>AVX2\<close>

text \<open>The three intrinsics, on a little-endian machine.\<close>

definition mm256_loadu :: "bytes \<Rightarrow> nat \<Rightarrow> 256 word" where
  "mm256_loadu mem a = le_word (load mem a 32)"

definition mm256_storeu :: "bytes \<Rightarrow> nat \<Rightarrow> 256 word \<Rightarrow> bytes" where
  "mm256_storeu mem a v = store mem a (le_bytes 32 v)"

definition mm256_set1_epi32 :: "u32 \<Rightarrow> 256 word" where
  "mm256_set1_epi32 x = le_word (concat (replicate 8 (le_bytes 4 x)))"

text \<open>The two vector loops and the scalar tail of \<open>xor_avx2\<close>; each returns the offset it reached.\<close>

function avx2_loop128 :: "256 word \<Rightarrow> nat \<Rightarrow> nat \<Rightarrow> nat \<Rightarrow> nat \<Rightarrow> bytes \<Rightarrow> nat \<times> bytes" where
  "avx2_loop128 mask256 src dst len offset mem =
    (if len - offset \<ge> 128 then
       let a = mm256_loadu mem (src + offset);
           b = mm256_loadu mem (src + (offset + 32));
           c = mm256_loadu mem (src + (offset + 64));
           d = mm256_loadu mem (src + (offset + 96));
           mem = mm256_storeu mem (dst + offset) (a XOR mask256);
           mem = mm256_storeu mem (dst + (offset + 32)) (b XOR mask256);
           mem = mm256_storeu mem (dst + (offset + 64)) (c XOR mask256);
           mem = mm256_storeu mem (dst + (offset + 96)) (d XOR mask256)
       in avx2_loop128 mask256 src dst len (offset + 128) mem
     else (offset, mem))"
  by auto
termination by (relation "measure (\<lambda>(mask256, src, dst, len, offset, mem). len - offset)") auto

function avx2_loop32 :: "256 word \<Rightarrow> nat \<Rightarrow> nat \<Rightarrow> nat \<Rightarrow> nat \<Rightarrow> bytes \<Rightarrow> nat \<times> bytes" where
  "avx2_loop32 mask256 src dst len offset mem =
    (if len - offset \<ge> 32 then
       let word = mm256_loadu mem (src + offset);
           mem = mm256_storeu mem (dst + offset) (word XOR mask256)
       in avx2_loop32 mask256 src dst len (offset + 32) mem
     else (offset, mem))"
  by auto
termination by (relation "measure (\<lambda>(mask256, src, dst, len, offset, mem). len - offset)") auto

declare avx2_loop128.simps [simp del] avx2_loop32.simps [simp del]

definition avx2_tail :: "mask4 \<Rightarrow> nat \<Rightarrow> nat \<Rightarrow> nat \<Rightarrow> nat \<Rightarrow> bytes \<Rightarrow> bytes" where
  "avx2_tail m src dst len offset mem =
     foldl (\<lambda>mem i. mem[dst + i := mem ! (src + i) XOR mask_at m i]) mem [offset..<len]"

definition xor_avx2 :: "bytes \<Rightarrow> nat \<Rightarrow> nat \<Rightarrow> nat \<Rightarrow> mask4 \<Rightarrow> bytes" where
  "xor_avx2 mem src dst len m =
    (let mask256 = mm256_set1_epi32 (ne_word False (mask_list m));
         (offset, mem) = avx2_loop128 mask256 src dst len 0 mem;
         (offset, mem) = avx2_loop32 mask256 src dst len offset mem
     in avx2_tail m src dst len offset mem)"

definition apply_mask_avx2 :: "mask4 \<Rightarrow> bytes \<Rightarrow> bytes" where
  "apply_mask_avx2 m buf = xor_avx2 buf 0 0 (length buf) m"

section \<open>NEON\<close>

text \<open>A 128-bit vector as its sixteen lanes in memory order.\<close>

definition vdupq_n_u32_bytes :: "bool \<Rightarrow> u32 \<Rightarrow> bytes" where
  "vdupq_n_u32_bytes be x = concat (replicate 4 (ne_bytes be 4 x))"

function neon_loop :: "bytes \<Rightarrow> nat \<Rightarrow> nat \<Rightarrow> bytes \<Rightarrow> nat \<times> bytes" where
  "neon_loop mask_128 ptr aligned_end mem =
    (if ptr < aligned_end then
       let data = load mem ptr 16;
           masked = map2 (XOR) data mask_128;
           mem = store mem ptr masked
       in neon_loop mask_128 (ptr + 16) aligned_end mem
     else (ptr, mem))"
  by auto
termination by (relation "measure (\<lambda>(mask_128, ptr, aligned_end, mem). aligned_end - ptr)") auto

declare neon_loop.simps [simp del]

definition apply_mask_neon :: "hardware \<Rightarrow> mask4 \<Rightarrow> bytes \<Rightarrow> bytes" where
  "apply_mask_neon hw m buf =
    (let len = length buf in
     if len < 16 then apply_mask_fast32 hw m buf
     else
       let mask_u32 = ne_word (hw_be hw) (mask_list m);
           mask_128 = vdupq_n_u32_bytes (hw_be hw) mask_u32;
           (ptr, buf) = neon_loop mask_128 0 (len - len mod 16) buf;
           remaining = len - ptr
       in if remaining > 0 then store buf ptr (apply_mask_fast32 hw m (load buf ptr remaining))
          else buf)"

section \<open>Dispatch\<close>

definition apply_mask :: "hardware \<Rightarrow> mask4 \<Rightarrow> bytes \<Rightarrow> bytes" where
  "apply_mask hw m buf =
    (if has_neon (hw_arch hw) \<and> length buf \<ge> 16 then apply_mask_neon hw m buf
     else if length buf \<le> 128 then apply_mask_fast32 hw m buf
     else if length buf \<ge> 256 \<and> has_avx2 (hw_arch hw) then apply_mask_avx2 m buf
     else apply_mask_fast64 hw m buf)"

text \<open>
  \<open>copy_mask\<close> fills the uninitialised slice \<open>dst\<close>; the assertion on the lengths
  is \<open>None\<close> when it fails.  The vector path runs on a memory that holds the two
  slices one after the other.
\<close>

fun copy_chunks :: "bool \<Rightarrow> mask4 \<Rightarrow> bytes \<Rightarrow> bytes" where
  "copy_chunks be m (a # b # c # d # rest) =
     ne_bytes be 4 ((ne_word be [a, b, c, d] :: u32) XOR ne_word be (mask_list m))
     @ copy_chunks be m rest"
| "copy_chunks be m remainder = map2 (XOR) remainder (mask_list m)"

definition copy_mask :: "hardware \<Rightarrow> bytes \<Rightarrow> bytes \<Rightarrow> mask4 \<Rightarrow> bytes option" where
  "copy_mask hw src dst m =
    (if length src \<noteq> length dst then None
     else if length src \<ge> 256 \<and> has_avx2 (hw_arch hw) then
       Some (drop (length src) (xor_avx2 (src @ dst) 0 (length src) (length src) m))
     else Some (copy_chunks (hw_be hw) m src))"

section \<open>The contract of a masking routine\<close>

lemma nat_and_3: "(i :: nat) AND 3 = i mod 4"
  using take_bit_eq_mask [of 2 i] by (simp add: take_bit_eq_mod mask_eq_exp_minus_1)

lemma mask_at_mod: "mask_at m i = mask_list m ! (i mod 4)"
  by (simp add: mask_at_def nat_and_3)

lemma mask_at_cong: "i mod 4 = j mod 4 \<Longrightarrow> mask_at m i = mask_at m j"
  by (simp add: mask_at_mod)

lemma mask_at_add_mult [simp]: "n mod 4 = 0 \<Longrightarrow> mask_at m (n + i) = mask_at m i"
  by (rule mask_at_cong) presburger

lemma mask_at_list_mask4: "length bs = 4 \<Longrightarrow> mask_at (list_mask4 bs) i = bs ! (i mod 4)"
  by (auto dest!: length4_conv simp: mask_at_mod list_mask4_def)

locale masking =
  fixes run :: "mask4 \<Rightarrow> bytes \<Rightarrow> bytes"
  assumes run_length [simp]: "length (run m bs) = length bs"
    and run_nth: "i < length bs \<Longrightarrow> run m bs ! i = bs ! i XOR mask_at m i"
begin

lemma run_run [simp]: "run m (run m bs) = bs"
  by (rule nth_equalityI) (simp_all add: run_nth xor.assoc)

lemma run_Nil [simp]: "run m [] = []"
  using run_length [of m "[]"] by (simp del: run_length)

lemma run_inject: "run m bs = run m cs \<longleftrightarrow> bs = cs"
  by (metis run_run)

lemma run_append:
  "length bs mod 4 = 0 \<Longrightarrow> run m (bs @ cs) = run m bs @ run m cs"
proof (rule nth_equalityI)
  fix i assume al: "length bs mod 4 = 0" and i: "i < length (run m (bs @ cs))"
  show "run m (bs @ cs) ! i = (run m bs @ run m cs) ! i"
  proof (cases "i < length bs")
    case False
    have "mask_at m i = mask_at m (i - length bs)"
      using mask_at_add_mult [OF al, of m "i - length bs"] False by simp
    then show ?thesis using i False by (simp add: run_nth nth_append)
  qed (use i in \<open>simp add: run_nth nth_append\<close>)
qed simp

lemma run_zero: "run (0, 0, 0, 0) bs = bs"
proof (rule nth_equalityI)
  fix i assume "i < length (run (0, 0, 0, 0) bs)"
  moreover have "mask_at (0, 0, 0, 0) i = 0"
  proof -
    have "i mod 4 \<in> {0, 1, 2, 3}" by auto
    then show ?thesis by (auto simp: mask_at_mod)
  qed
  ultimately show "run (0, 0, 0, 0) bs ! i = bs ! i" by (simp add: run_nth)
qed simp

end

text \<open>The contract determines the routine.\<close>

lemma masking_unique:
  assumes "masking f" "masking g"
  shows "f m bs = g m bs"
  by (rule nth_equalityI)
    (use assms in \<open>simp_all add: masking.run_length masking.run_nth\<close>)

interpretation fallback: masking apply_mask_fallback
  by unfold_locales (simp_all add: apply_mask_fallback_def nth_enumerate_eq)

lemma mask_list_not_Nil [simp]: "mask_list m \<noteq> []"
  by (cases m) simp

lemma masking_eqI:
  assumes "length bs' = length bs" "\<And>i. i < length bs \<Longrightarrow> bs' ! i = bs ! i XOR mask_at m i"
  shows "bs' = apply_mask_fallback m bs"
  by (rule nth_equalityI) (use assms in \<open>simp_all add: fallback.run_nth\<close>)

lemma short_remainder:
  "length bs \<le> 4 \<Longrightarrow> map2 (XOR) bs (mask_list m) = apply_mask_fallback m bs"
  by (rule masking_eqI) (auto simp: mask_at_mod)

section \<open>Four-byte and eight-byte blocks\<close>

lemma block4:
  "ne_bytes be 4 (ne_word be [a, b, c, d] XOR (ne_word be (mask_list m) :: u32))
   = apply_mask_fallback m [a, b, c, d]"
  by (simp add: ne_bytes_xor ne_bytes_ne_word flip: short_remainder)

lemma fast32_chunks_eq:
  "fast32_chunks be (ne_word be (mask_list m)) m bs = apply_mask_fallback m bs"
proof (induction be "ne_word be (mask_list m) :: u32" m bs rule: fast32_chunks.induct)
  case (1 be m a b c d rest)
  then show ?case using fallback.run_append [of "[a, b, c, d]" m rest] by (simp add: block4)
qed (simp_all add: short_remainder)

lemma apply_mask_fast32_eq: "apply_mask_fast32 hw m bs = apply_mask_fallback m bs"
  by (simp add: apply_mask_fast32_def fast32_chunks_eq)

lemma copy_chunks_eq: "copy_chunks be m bs = apply_mask_fallback m bs"
proof (induction be m bs rule: copy_chunks.induct)
  case (1 be m a b c d rest)
  then show ?case using fallback.run_append [of "[a, b, c, d]" m rest] by (simp add: block4)
qed (simp_all add: short_remainder)

text \<open>The doubled and rotated mask: byte \<open>k\<close> in memory order is \<open>mask[(p + k) & 3]\<close>.\<close>

lemma bit_ne_word_mask:
  fixes m :: mask4
  shows "bit (ne_word be (mask_list m) :: u32) i \<longleftrightarrow>
    i < 32 \<and> bit (mask_at m (if be then 3 - i div 8 else i div 8)) (i mod 8)"
proof (cases "i < 32")
  case True
  then have "i div 8 < 4" by simp
  then show ?thesis using True
    by (auto simp: ne_word_def be_word_def bit_le_word mask_at_mod rev_nth)
qed (simp add: bit_simps ne_word_def be_word_def bit_le_word)

lemma bit_doubled:
  "bit (push_bit 32 (ucast (w :: u32) :: u64) OR ucast w) i \<longleftrightarrow> i < 64 \<and> bit w (i mod 32)"
proof (cases "i < 64")
  case True
  then consider "i < 32" | "32 \<le> i" "i mod 32 = i - 32" "i - 32 < 32"
    by (cases "i < 32") (auto simp: le_mod_geq)
  then show ?thesis
  proof cases
    case 1
    then show ?thesis by (auto simp: bit_simps)
  next
    case 2
    have "\<not> bit w i" using 2 by (auto dest: bit_imp_le_length)
    then show ?thesis using 2 True by (auto simp: bit_simps)
  qed
qed (auto dest: bit_imp_le_length)

lemma mod_32_of_bytes:
  assumes "b < 8"
  shows "(8 * x + b) mod 32 = 8 * (x mod 4) + (b :: nat)"
proof -
  have "8 * x + b = (8 * (x mod 4) + b) + (x div 4) * 32"
    using mult_div_mod_eq [of 4 x] by linarith
  then have "(8 * x + b) mod 32 = (8 * (x mod 4) + b) mod 32" by (metis mod_mult_self1)
  also have "8 * (x mod 4) + b < 32" using assms mod_less_divisor [of 4 x] by linarith
  then have "(8 * (x mod 4) + b) mod 32 = 8 * (x mod 4) + b" by simp
  finally show ?thesis .
qed

lemma split_byte_index:
  obtains a b where "i = 8 * a + b" "b < 8" "i div 8 = a" "i mod 8 = (b :: nat)"
  using that [of "i div 8" "i mod 8"] by simp

lemma byte_index_less [simp]: "8 * (x mod 4) + i mod 8 < (32 :: nat)"
proof -
  have "x mod 4 < 4" "i mod 8 < 8" by simp_all
  then show ?thesis by linarith
qed

lemma rotated_index_le:
  fixes i p :: nat
  shows "(i + 8 * (p mod 4)) mod 64 mod 32 = 8 * ((p + i div 8) mod 4) + i mod 8"
proof (rule split_byte_index [of i])
  fix a b assume i: "i = 8 * a + b" "b < 8" "i div 8 = a" "i mod 8 = b"
  have "(i + 8 * (p mod 4)) mod 64 mod 32 = (8 * (a + p mod 4) + b) mod 32"
    unfolding i(1) by (simp add: mod_mod_cancel algebra_simps)
  also have "\<dots> = 8 * ((a + p mod 4) mod 4) + b" by (rule mod_32_of_bytes) (rule i)
  also have "(a + p mod 4) mod 4 = (p + a) mod 4" by (simp add: mod_simps add.commute)
  finally show ?thesis using i by simp
qed

lemma rotated_index_be:
  fixes i p :: nat
  shows "(i + (64 - 8 * (p mod 4))) mod 64 mod 32 = 8 * ((i div 8 + (8 - p mod 4)) mod 4) + i mod 8"
proof (rule split_byte_index [of i])
  fix a b assume i: "i = 8 * a + b" "b < 8" "i div 8 = a" "i mod 8 = b"
  define d where "d = 8 - p mod 4"
  have d: "64 - 8 * (p mod 4) = 8 * d" by (simp add: d_def)
  have "(i + 8 * d) mod 64 mod 32 = (8 * (a + d) + b) mod 32"
    unfolding i(1) by (simp add: mod_mod_cancel algebra_simps)
  also have "\<dots> = 8 * ((a + d) mod 4) + b" by (rule mod_32_of_bytes) (rule i)
  finally show ?thesis using i unfolding d by (simp add: d_def)
qed

lemma mirrored_index:
  assumes "(x :: nat) < 4" "a < 8"
  shows "3 - (a + (8 - x)) mod 4 = (x + (7 - a)) mod 4"
proof -
  have "x \<in> {0, 1, 2, 3}" "a \<in> {0, 1, 2, 3, 4, 5, 6, 7}" using assms by auto
  then show ?thesis by auto
qed

lemma rot_zero [simp]:
  "word_rotl 0 (w :: 'a::len word) = w" "word_rotr 0 (w :: 'a::len word) = w"
  by (rule bit_word_eqI; simp add: bit_word_rotl_iff bit_word_rotr_iff)+

lemma fast64_mask_rot:
  "fast64_mask be m p =
    (let w = (ne_word be (mask_list m) :: u32);
         d = push_bit 32 (ucast w :: u64) OR ucast w
     in if be then word_rotl (8 * (p mod 4)) d else word_rotr (8 * (p mod 4)) d)"
  by (simp add: fast64_mask_def Let_def nat_and_3)

lemma bit_fast64_mask:
  "bit (fast64_mask be m p) i \<longleftrightarrow>
     i < 64 \<and> bit (mask_at m (p + (if be then 7 - i div 8 else i div 8))) (i mod 8)"
proof (cases "i < 64")
  case True
  show ?thesis
  proof (cases be)
    case be: True
    have small: "8 * (p mod 4) mod 64 = 8 * (p mod 4)" by simp
    have "3 - (i div 8 + (8 - p mod 4)) mod 4 = (p mod 4 + (7 - i div 8)) mod 4"
      by (rule mirrored_index) (use True in auto)
    also have "\<dots> = (p + (7 - i div 8)) mod 4" by (simp add: mod_simps)
    finally have "mask_at m (3 - (i div 8 + (8 - p mod 4)) mod 4) = mask_at m (p + (7 - i div 8))"
      by (intro mask_at_cong) simp
    then show ?thesis using True be
      by (simp add: fast64_mask_rot Let_def bit_word_rotl_iff bit_doubled bit_ne_word_mask small
          rotated_index_be [simplified])
  next
    case le: False
    have "mask_at m ((p + i div 8) mod 4) = mask_at m (p + i div 8)"
      by (rule mask_at_cong) simp
    then show ?thesis using True le
      by (simp add: fast64_mask_rot Let_def bit_word_rotr_iff bit_doubled bit_ne_word_mask
          rotated_index_le)
  qed
qed (auto dest: bit_imp_le_length)

lemma ne_bytes_fast64_mask:
  assumes "k < 8"
  shows "ne_bytes be 8 (fast64_mask be m p) ! k = mask_at m (p + k)"
proof (rule bit_word_eqI)
  fix i :: nat assume i: "i < LENGTH(8)"
  have "8 * (7 - k) + i < 64" "8 * k + i < 64" using i assms by auto
  then show "bit (ne_bytes be 8 (fast64_mask be m p) ! k) i = bit (mask_at m (p + k)) i"
    using assms i by (cases be) (simp_all add: ne_bytes_nth bit_le_bytes_nth bit_fast64_mask)
qed

lemma ne_bytes_fast64_low:
  assumes "k < 4"
  shows "ne_bytes be 4 (ucast (fast64_mask be m p) :: u32) ! k = mask_at m (p + k)"
proof (rule bit_word_eqI)
  fix i :: nat assume i: "i < LENGTH(8)"
  have "p + (7 - (3 - k)) = 4 + (p + k)" using assms by simp
  then have "mask_at m (p + (7 - (3 - k))) = mask_at m (p + k)"
    by (simp only: mask_at_add_mult [of 4] mod_self)
  moreover have "8 * (3 - k) + i < 32" "8 * k + i < 32" using i assms by auto
  ultimately show "bit (ne_bytes be 4 (ucast (fast64_mask be m p) :: u32) ! k) i = bit (mask_at m (p + k)) i"
    using assms i
    by (cases be) (simp_all add: ne_bytes_nth bit_le_bytes_nth bit_fast64_mask bit_ucast_iff)
qed

lemma length_fast64_words: "8 * w \<le> length bs \<Longrightarrow> length (fast64_words be mk w bs) = 8 * w"
  by (induction be mk w bs rule: fast64_words.induct) auto

lemma fast64_words_nth:
  assumes "i < 8 * w" "8 * w \<le> length bs"
  shows "fast64_words be mk w bs ! i = bs ! i XOR ne_bytes be 8 mk ! (i mod 8)"
  using assms
proof (induction be mk w bs arbitrary: i rule: fast64_words.induct)
  case (2 be mk n buf)
  have w8: "ne_bytes be 8 (ne_word be (take 8 buf) :: u64) = take 8 buf"
    using 2 by (intro ne_bytes_ne_word) auto
  show ?case
  proof (cases "i < 8")
    case True
    then show ?thesis using 2 by (simp add: nth_append ne_bytes_xor w8)
  next
    case False
    then have "i mod 8 = (i - 8) mod 8" by (simp add: le_mod_geq)
    then show ?thesis using 2 False by (simp add: nth_append)
  qed
qed simp

text \<open>Any split of the buffer into a prefix, words and a suffix gives the same result.\<close>

lemma fast64_split_eq:
  assumes "p + 8 * w \<le> length bs"
  shows "fast64_split be m p w bs = apply_mask_fallback m bs"
proof (rule masking_eqI)
  show "length (fast64_split be m p w bs) = length bs"
    using assms by (simp add: fast64_split_def Let_def length_fast64_words)
next
  fix i assume i: "i < length bs"
  let ?sfx = "list_mask4 (ne_bytes be 4 (ucast (fast64_mask be m p) :: u32))"
  have sfx: "mask_at ?sfx (i - (p + 8 * w)) = mask_at m i" if "p + 8 * w \<le> i"
  proof -
    have "mask_at ?sfx (i - (p + 8 * w)) = mask_at m (p + (i - (p + 8 * w)) mod 4)"
      by (simp add: mask_at_list_mask4 ne_bytes_fast64_low)
    also have "\<dots> = mask_at m (p + (i - (p + 8 * w)))"
      by (intro mask_at_cong) (simp add: mod_simps)
    also have "\<dots> = mask_at m (8 * w + (p + (i - (p + 8 * w))))"
      by (intro mask_at_add_mult [symmetric]) (simp add: mod_eq_0_iff_dvd)
    also have "8 * w + (p + (i - (p + 8 * w))) = i" using that by simp
    finally show ?thesis .
  qed
  have mid: "mask_at m (p + (i - p) mod 8) = mask_at m i" if "p \<le> i"
  proof (rule mask_at_cong)
    have "(i - p) mod 8 mod 4 = (i - p) mod 4" by (simp add: mod_mod_cancel)
    then have "(p + (i - p) mod 8) mod 4 = (p + (i - p)) mod 4" by (metis mod_add_right_eq)
    then show "(p + (i - p) mod 8) mod 4 = i mod 4" using that by simp
  qed
  show "fast64_split be m p w bs ! i = bs ! i XOR mask_at m i"
    using assms i sfx mid
    by (auto simp: fast64_split_def Let_def nth_append length_fast64_words fast64_words_nth
        fallback.run_nth ne_bytes_fast64_mask)
qed

lemma align_to_u64_fits: "align_to_u64 a len = (p, w) \<Longrightarrow> p + 8 * w \<le> len"
  using mult_div_mod_eq [of 8 "len - p"]
  by (simp add: align_to_u64_def Let_def split: if_splits) linarith

lemma apply_mask_fast64_eq: "apply_mask_fast64 hw m bs = apply_mask_fallback m bs"
  by (auto simp: apply_mask_fast64_def intro: fast64_split_eq align_to_u64_fits split: prod.split)

section \<open>Vector routines on a memory\<close>

lemma length_load [simp]: "a + n \<le> length mem \<Longrightarrow> length (load mem a n) = n"
  by (simp add: load_def)

lemma load_nth: "i < n \<Longrightarrow> a + n \<le> length mem \<Longrightarrow> load mem a n ! i = mem ! (a + i)"
  by (simp add: load_def)

lemma length_store [simp]:
  "a + length bs \<le> length mem \<Longrightarrow> length (store mem a bs) = length mem"
  by (simp add: store_def)

lemma store_nth:
  assumes "a + length bs \<le> length mem" "i < length mem"
  shows "store mem a bs ! i = (if a \<le> i \<and> i < a + length bs then bs ! (i - a) else mem ! i)"
  using assms by (auto simp: store_def nth_append min_def)

text \<open>
  The state of a masking run: the first \<open>k\<close> bytes at \<open>dst\<close> hold the masked
  bytes of \<open>src\<close>, and the rest of the memory is as it was.  The two regions of
  \<open>len\<close> bytes are the same one or do not overlap.
\<close>

definition xored :: "bytes \<Rightarrow> mask4 \<Rightarrow> nat \<Rightarrow> nat \<Rightarrow> nat \<Rightarrow> bytes \<Rightarrow> bool" where
  "xored mem m src dst k mem' \<longleftrightarrow>
     length mem' = length mem \<and>
     (\<forall>i < length mem. mem' ! i =
        (if dst \<le> i \<and> i < dst + k then mem ! (src + (i - dst)) XOR mask_at m (i - dst) else mem ! i))"

definition separate :: "nat \<Rightarrow> nat \<Rightarrow> nat \<Rightarrow> bool" where
  "separate src dst len \<longleftrightarrow> src = dst \<or> src + len \<le> dst \<or> dst + len \<le> src"

lemma xored_length: "xored mem m src dst k mem' \<Longrightarrow> length mem' = length mem"
  by (simp add: xored_def)

lemma xored_nth:
  "xored mem m src dst k mem' \<Longrightarrow> i < length mem \<Longrightarrow>
   mem' ! i = (if dst \<le> i \<and> i < dst + k then mem ! (src + (i - dst)) XOR mask_at m (i - dst)
               else mem ! i)"
  by (simp add: xored_def)

lemma xored_start [simp]: "xored mem m src dst 0 mem"
  by (auto simp: xored_def)

lemma xored_source:
  assumes "xored mem m src dst k mem'" "separate src dst len" "k \<le> j" "j < len"
    "src + len \<le> length mem"
  shows "mem' ! (src + j) = mem ! (src + j)"
  using assms(2-) by (auto simp: xored_nth [OF assms(1)] separate_def)

lemma xored_load:
  assumes "xored mem m src dst k mem'" "separate src dst len" "k \<le> j" "j + n \<le> len"
    "src + len \<le> length mem"
  shows "load mem' (src + j) n = load mem (src + j) n"
proof (rule nth_equalityI)
  have len: "length mem' = length mem" using assms(1) by (rule xored_length)
  then show "length (load mem' (src + j) n) = length (load mem (src + j) n)"
    using assms by simp
  fix i assume "i < length (load mem' (src + j) n)"
  then have i: "i < n" using assms len by simp
  then have "mem' ! (src + (j + i)) = mem ! (src + (j + i))"
    using assms by (intro xored_source) auto
  then show "load mem' (src + j) n ! i = load mem (src + j) n ! i"
    using i assms len by (simp add: load_nth add.assoc)
qed

lemma xored_store:
  assumes x: "xored mem m src dst k mem'" and n: "length bs = n" "dst + k + n \<le> length mem"
    and bs: "\<And>i. i < n \<Longrightarrow> bs ! i = mem ! (src + (k + i)) XOR mask_at m (k + i)"
  shows "xored mem m src dst (k + n) (store mem' (dst + k) bs)"
proof -
  have len: "length mem' = length mem" using x by (rule xored_length)
  have "store mem' (dst + k) bs ! i =
      (if dst \<le> i \<and> i < dst + (k + n) then mem ! (src + (i - dst)) XOR mask_at m (i - dst)
       else mem ! i)" if i: "i < length mem" for i
  proof (cases "dst + k \<le> i \<and> i < dst + k + n")
    case True
    then have "k + (i - (dst + k)) = i - dst" "i - (dst + k) < n" by auto
    then show ?thesis using True i n len bs [of "i - (dst + k)"] by (simp add: store_nth)
  next
    case False
    then show ?thesis using i n len by (auto simp: store_nth xored_nth [OF x])
  qed
  then show ?thesis using n len by (simp add: xored_def)
qed

lemma xored_update:
  assumes "xored mem m src dst k mem'" "separate src dst len" "k < len"
    "src + len \<le> length mem" "dst + len \<le> length mem"
  shows "xored mem m src dst (Suc k) (mem'[dst + k := mem' ! (src + k) XOR mask_at m k])"
proof -
  have "mem'[dst + k := mem' ! (src + k) XOR mask_at m k]
        = store mem' (dst + k) [mem ! (src + k) XOR mask_at m k]"
    using assms xored_length [OF assms(1)] xored_source [OF assms(1,2), of k]
    by (simp add: store_def upd_conv_take_nth_drop)
  moreover have "xored mem m src dst (k + 1) \<dots>"
    by (rule xored_store) (use assms in auto)
  ultimately show ?thesis by simp
qed

subsection \<open>AVX2\<close>

lemma mm256_xor:
  assumes "length bs = 32"
  shows "le_bytes 32 ((le_word bs :: 256 word) XOR mm256_set1_epi32 (ne_word False (mask_list m)))
         = map2 (XOR) bs (concat (replicate 8 (mask_list m)))"
proof -
  have "le_bytes 4 (ne_word False (mask_list m) :: u32) = mask_list m"
    using ne_bytes_ne_word [of "mask_list m" 4 False, where 'a = 32] by (simp add: ne_bytes_def)
  then show ?thesis using assms
    by (simp add: le_bytes_xor mm256_set1_epi32_def le_bytes_le_word)
qed

lemma mm256_step:
  assumes "xored mem m src dst k mem'" "xored mem m src dst j mem0" "j \<le> k"
    and sep: "separate src dst len" and k: "k mod 4 = 0" "k + 32 \<le> len"
    and fits: "src + len \<le> length mem" "dst + len \<le> length mem"
  shows "xored mem m src dst (k + 32)
    (mm256_storeu mem' (dst + k)
      (mm256_loadu mem0 (src + k) XOR mm256_set1_epi32 (ne_word False (mask_list m))))"
proof -
  have src: "load mem0 (src + k) 32 = load mem (src + k) 32"
    by (rule xored_load) (use assms in auto)
  let ?v = "map2 (XOR) (load mem (src + k) 32) (concat (replicate 8 (mask_list m)))"
  have "xored mem m src dst (k + 32) (store mem' (dst + k) ?v)"
  proof (rule xored_store)
    fix i :: nat assume i: "i < 32"
    then have "concat (replicate 8 (mask_list m)) ! i = mask_at m i"
      using concat_replicate_nth [of "mask_list m" i 8] by (simp add: mask_at_mod)
    then show "?v ! i = mem ! (src + (k + i)) XOR mask_at m (k + i)"
      using i k fits by (simp add: load_nth add.assoc)
  qed (use assms in auto)
  then show ?thesis using k fits
    by (simp add: mm256_storeu_def mm256_loadu_def src mm256_xor)
qed

lemma avx2_loop32_xored:
  assumes "xored mem m src dst k mem'" "separate src dst len" "k mod 4 = 0" "k \<le> len"
    "src + len \<le> length mem" "dst + len \<le> length mem"
    "avx2_loop32 (mm256_set1_epi32 (ne_word False (mask_list m))) src dst len k mem' = (k', mem'')"
  shows "xored mem m src dst k' mem'' \<and> k' \<le> len"
  using assms
proof (induction "len - k" arbitrary: k mem' rule: less_induct)
  case less
  show ?case
  proof (cases "len - k \<ge> 32")
    case True
    let ?mem = "mm256_storeu mem' (dst + k)
      (mm256_loadu mem' (src + k) XOR mm256_set1_epi32 (ne_word False (mask_list m)))"
    have "xored mem m src dst (k + 32) ?mem"
      by (rule mm256_step [OF less.prems(1) less.prems(1)]) (use less.prems True in auto)
    moreover have "(k + 32) mod 4 = 0" using less.prems(3) by presburger
    ultimately show ?thesis
      using less.prems True by (intro less.hyps) (auto simp: avx2_loop32.simps [of _ src dst len k])
  qed (use less.prems in \<open>auto simp: avx2_loop32.simps [of _ src dst len k]\<close>)
qed

lemma avx2_loop128_xored:
  assumes "xored mem m src dst k mem'" "separate src dst len" "k mod 4 = 0" "k \<le> len"
    "src + len \<le> length mem" "dst + len \<le> length mem"
    "avx2_loop128 (mm256_set1_epi32 (ne_word False (mask_list m))) src dst len k mem' = (k', mem'')"
  shows "xored mem m src dst k' mem'' \<and> k' mod 4 = 0 \<and> k' \<le> len"
  using assms
proof (induction "len - k" arbitrary: k mem' rule: less_induct)
  case less
  let ?m = "mm256_set1_epi32 (ne_word False (mask_list m))"
  show ?case
  proof (cases "len - k \<ge> 128")
    case True
    note step = mm256_step [OF _ less.prems(1), where len = len]
    define m1 where "m1 = mm256_storeu mem' (dst + k) (mm256_loadu mem' (src + k) XOR ?m)"
    define m2 where "m2 = mm256_storeu m1 (dst + (k + 32)) (mm256_loadu mem' (src + (k + 32)) XOR ?m)"
    define m3 where "m3 = mm256_storeu m2 (dst + (k + 64)) (mm256_loadu mem' (src + (k + 64)) XOR ?m)"
    define m4 where "m4 = mm256_storeu m3 (dst + (k + 96)) (mm256_loadu mem' (src + (k + 96)) XOR ?m)"
    have al: "(k + 32) mod 4 = 0" "(k + 64) mod 4 = 0" "(k + 96) mod 4 = 0" "(k + 128) mod 4 = 0"
      using less.prems(3) by presburger+
    have "xored mem m src dst (k + 32) m1"
      unfolding m1_def by (rule step) (use less.prems True in auto)
    then have "xored mem m src dst (k + 32 + 32) m2"
      unfolding m2_def by (rule step) (use less.prems True al in auto)
    then have "xored mem m src dst (k + 64) m2" by (simp add: add.commute)
    then have "xored mem m src dst (k + 64 + 32) m3"
      unfolding m3_def by (rule step) (use less.prems True al in auto)
    then have "xored mem m src dst (k + 96) m3" by (simp add: add.commute)
    then have "xored mem m src dst (k + 96 + 32) m4"
      unfolding m4_def by (rule step) (use less.prems True al in auto)
    then have x4: "xored mem m src dst (k + 128) m4" by (simp add: add.commute)
    have "avx2_loop128 ?m src dst len (k + 128) m4 = (k', mem'')"
      using less.prems(7) True
      by (simp add: avx2_loop128.simps [of _ src dst len k] m1_def m2_def m3_def m4_def Let_def)
    then show ?thesis using less.prems True al x4 by (intro less.hyps) auto
  qed (use less.prems in \<open>auto simp: avx2_loop128.simps [of _ src dst len k]\<close>)
qed

lemma avx2_tail_xored:
  assumes "xored mem m src dst k mem'" "separate src dst len" "k \<le> len"
    "src + len \<le> length mem" "dst + len \<le> length mem"
  shows "xored mem m src dst len (avx2_tail m src dst len k mem')"
  using assms
proof (induction "len - k" arbitrary: k mem')
  case (Suc d)
  let ?mem = "mem'[dst + k := mem' ! (src + k) XOR mask_at m k]"
  have "xored mem m src dst (Suc k) ?mem"
    using Suc.prems Suc.hyps(2) by (intro xored_update) auto
  then have "xored mem m src dst len (avx2_tail m src dst len (Suc k) ?mem)"
    using Suc by (intro Suc.hyps(1)) auto
  then show ?case using Suc.hyps(2) by (simp add: avx2_tail_def upt_conv_Cons)
qed (simp add: avx2_tail_def)

text \<open>\<open>xor_avx2\<close> masks \<open>len\<close> bytes from \<open>src\<close> to \<open>dst\<close> and touches nothing else.\<close>

lemma xor_avx2_xored:
  assumes "separate src dst len" "src + len \<le> length mem" "dst + len \<le> length mem"
  shows "xored mem m src dst len (xor_avx2 mem src dst len m)"
proof -
  let ?m = "mm256_set1_epi32 (ne_word False (mask_list m))"
  obtain k1 m1 where l1: "avx2_loop128 ?m src dst len 0 mem = (k1, m1)" by fastforce
  obtain k2 m2 where l2: "avx2_loop32 ?m src dst len k1 m1 = (k2, m2)" by fastforce
  have 1: "xored mem m src dst k1 m1 \<and> k1 mod 4 = 0 \<and> k1 \<le> len"
    by (rule avx2_loop128_xored [OF xored_start _ _ _ _ _ l1]) (use assms in auto)
  have "xored mem m src dst k2 m2 \<and> k2 \<le> len"
    by (rule avx2_loop32_xored [OF _ _ _ _ _ _ l2]) (use assms 1 in auto)
  then have "xored mem m src dst len (avx2_tail m src dst len k2 m2)"
    using assms by (intro avx2_tail_xored) auto
  then show ?thesis by (simp add: xor_avx2_def l1 l2)
qed

lemma apply_mask_avx2_eq: "apply_mask_avx2 m bs = apply_mask_fallback m bs"
proof (rule masking_eqI)
  have x: "xored bs m 0 0 (length bs) (apply_mask_avx2 m bs)"
    unfolding apply_mask_avx2_def by (rule xor_avx2_xored) (simp_all add: separate_def)
  then show "length (apply_mask_avx2 m bs) = length bs" by (rule xored_length)
  fix i assume "i < length bs"
  then show "apply_mask_avx2 m bs ! i = bs ! i XOR mask_at m i"
    using xored_nth [OF x] by simp
qed

lemma copy_avx2_eq:
  assumes "length src = length dst"
  shows "drop (length src) (xor_avx2 (src @ dst) 0 (length src) (length src) m)
         = apply_mask_fallback m src"
proof (rule masking_eqI)
  have x: "xored (src @ dst) m 0 (length src) (length src)
             (xor_avx2 (src @ dst) 0 (length src) (length src) m)"
    by (rule xor_avx2_xored) (simp_all add: separate_def assms)
  show "length (drop (length src) (xor_avx2 (src @ dst) 0 (length src) (length src) m)) = length src"
    using xored_length [OF x] assms by simp
  fix i assume "i < length src"
  then show "drop (length src) (xor_avx2 (src @ dst) 0 (length src) (length src) m) ! i
             = src ! i XOR mask_at m i"
    using xored_nth [OF x, of "length src + i"] xored_length [OF x] assms
    by (simp add: nth_append)
qed

subsection \<open>NEON\<close>

lemma neon_loop_xored:
  assumes "xored mem m 0 0 k mem'" "k mod 16 = 0" "k \<le> e" "e mod 16 = 0" "e \<le> length mem"
  shows "\<exists>mem''. neon_loop (vdupq_n_u32_bytes be (ne_word be (mask_list m))) k e mem' = (e, mem'')
           \<and> xored mem m 0 0 e mem''"
  using assms
proof (induction "e - k" arbitrary: k mem' rule: less_induct)
  case less
  show ?case
  proof (cases "k < e")
    case True
    have fits: "k + 16 \<le> e"
    proof -
      have "16 dvd e - k" using less.prems by (simp add: dvd_diff_nat mod_eq_0_iff_dvd)
      then show ?thesis using True by (auto dest!: dvd_imp_le)
    qed
    have al: "k mod 4 = 0" "(k + 16) mod 16 = 0" using less.prems by presburger+
    have "vdupq_n_u32_bytes be (ne_word be (mask_list m)) = concat (replicate 4 (mask_list m))"
      by (simp add: vdupq_n_u32_bytes_def ne_bytes_ne_word)
    then have nth: "vdupq_n_u32_bytes be (ne_word be (mask_list m)) ! i = mask_at m (k + i)"
      if "i < 16" for i
      using that al concat_replicate_nth [of "mask_list m" i 4] mask_at_add_mult [OF al(1), of m i]
      by (simp add: mask_at_mod [of m i])
    have len: "length (vdupq_n_u32_bytes be (ne_word be (mask_list m))) = 16"
      by (simp add: vdupq_n_u32_bytes_def)
    have src: "load mem' (0 + k) 16 = load mem (0 + k) 16"
      by (rule xored_load) (use less.prems fits in \<open>auto simp: separate_def\<close>)
    let ?bs = "map2 (XOR) (load mem k 16) (vdupq_n_u32_bytes be (ne_word be (mask_list m)))"
    have "xored mem m 0 0 (k + 16) (store mem' (0 + k) ?bs)"
      by (rule xored_store) (use less.prems fits len in \<open>auto simp: nth load_nth\<close>)
    then show ?thesis using less.prems fits al True src
      by (simp add: neon_loop.simps [of _ k] Let_def) (intro less.hyps, auto)
  qed (use less.prems in \<open>auto simp: neon_loop.simps [of _ k] neon_loop.simps [of _ e]\<close>)
qed

lemma apply_mask_neon_eq: "apply_mask_neon hw m bs = apply_mask_fallback m bs"
proof (cases "length bs < 16")
  case True
  then show ?thesis by (simp add: apply_mask_neon_def apply_mask_fast32_eq)
next
  case False
  define e where "e = length bs - length bs mod 16"
  have e: "e mod 16 = 0" "e \<le> length bs" "e mod 4 = 0"
  proof -
    have "e = 16 * (length bs div 16)" by (simp add: e_def minus_mod_eq_mult_div)
    then show "e mod 16 = 0" "e mod 4 = 0" by (simp_all add: mod_eq_0_iff_dvd)
  qed (simp add: e_def)
  obtain mem where loop: "neon_loop (vdupq_n_u32_bytes (hw_be hw) (ne_word (hw_be hw) (mask_list m))) 0 e bs
      = (e, mem)" and x: "xored bs m 0 0 e mem"
    using neon_loop_xored [OF xored_start, where e = e and mem = bs and m = m and be = "hw_be hw"] e
    by auto
  have len: "length mem = length bs" using x by (rule xored_length)
  let ?rest = "apply_mask_fallback m (load mem e (length bs - e))"
  have "xored bs m 0 0 (e + (length bs - e)) (store mem (0 + e) ?rest)"
    using xored_source [OF x, of "length bs"] e len
    by (intro xored_store [OF x]) (auto simp: fallback.run_nth load_nth separate_def)
  then have *: "store mem e ?rest = apply_mask_fallback m bs"
    using e xored_length by (intro masking_eqI) (auto simp: xored_nth)
  show ?thesis
  proof (cases "e < length bs")
    case True
    then show ?thesis using False loop *
      by (simp add: apply_mask_neon_def Let_def apply_mask_fast32_eq flip: e_def)
  next
    case full: False
    then have "mem = apply_mask_fallback m bs"
      using x e len by (intro masking_eqI) (auto simp: xored_nth)
    then show ?thesis using False loop full
      by (simp add: apply_mask_neon_def Let_def flip: e_def)
  qed
qed

section \<open>Dispatch\<close>

lemma apply_mask_eq: "apply_mask hw m bs = apply_mask_fallback m bs"
  by (simp add: apply_mask_def apply_mask_neon_eq apply_mask_fast32_eq apply_mask_avx2_eq
      apply_mask_fast64_eq)

lemma copy_mask_eq:
  "length src = length dst \<Longrightarrow> copy_mask hw src dst m = Some (apply_mask_fallback m src)"
  using copy_avx2_eq by (simp add: copy_mask_def copy_chunks_eq)

interpretation am: masking "apply_mask hw" for hw
  by unfold_locales (simp_all add: apply_mask_eq fallback.run_nth)

section \<open>Properties\<close>

text \<open>
  C9. Every routine computes the reference one, on every processor and at every
  buffer address: the dispatcher, the 32-bit, 64-bit, AVX2 and NEON versions, and
  the copying version, which panics exactly when the slices differ in length.
\<close>

theorem masking_routines_agree:
  "apply_mask hw m buf = apply_mask_fallback m buf \<and>
   apply_mask_fast32 hw m buf = apply_mask_fallback m buf \<and>
   apply_mask_fast64 hw m buf = apply_mask_fallback m buf \<and>
   apply_mask_avx2 m buf = apply_mask_fallback m buf \<and>
   apply_mask_neon hw m buf = apply_mask_fallback m buf \<and>
   copy_mask hw buf dst m =
     (if length buf = length dst then Some (apply_mask_fallback m buf) else None)"
  using copy_mask_eq [of buf dst hw m]
  by (auto simp: apply_mask_eq apply_mask_fast32_eq apply_mask_fast64_eq apply_mask_avx2_eq
      apply_mask_neon_eq) (simp add: copy_mask_def)

text \<open>
  C29. The memory discipline of the pointer routine: on two regions that are the
  same or disjoint and lie inside the memory, \<open>xor_avx2\<close> writes the masked source
  to the destination and changes no other byte.
\<close>

theorem xor_avx2_memory:
  assumes "separate src dst len" "src + len \<le> length mem" "dst + len \<le> length mem"
  shows "xor_avx2 mem src dst len m = store mem dst (apply_mask_fallback m (load mem src len))"
proof (rule nth_equalityI)
  note x = xor_avx2_xored [OF assms, of m]
  show "length (xor_avx2 mem src dst len m) = length (store mem dst (apply_mask_fallback m (load mem src len)))"
    using xored_length [OF x] assms by simp
  fix i assume "i < length (xor_avx2 mem src dst len m)"
  then show "xor_avx2 mem src dst len m ! i = store mem dst (apply_mask_fallback m (load mem src len)) ! i"
    using xored_length [OF x] assms
    by (auto simp: xored_nth [OF x] store_nth fallback.run_nth load_nth)
qed

theorem xor_avx2_memory_witness:
  "xor_avx2 [10, 20, 30, 40, 50] 0 2 2 (1, 2, 3, 4)
   = store [10, 20, 30, 40, 50] 2 (apply_mask_fallback (1, 2, 3, 4) (load [10, 20, 30, 40, 50] 0 2))"
  by (rule xor_avx2_memory) (simp_all add: separate_def)

text \<open>
  Unmasking is masking: applying the same key twice, on whatever machines the
  two ends run, gives the payload back.
\<close>

lemma apply_mask_involutive: "apply_mask hw' m (apply_mask hw m buf) = buf"
  by (simp add: apply_mask_eq)

end
