(* ===== verification/Incremental.thy ===== *)
theory Incremental
  imports Prelude
begin

text \<open>
  The contract of an incremental decoder, as \<open>tokio_util::codec::Decoder\<close> states
  it and as the read loop of \<open>Framed\<close> relies on it: a call either needs more
  bytes, yields an item, or fails, and appending bytes to the buffer does not
  change what was decided on the bytes before.  The lemmas of the locale show
  that the items do not depend on how the byte stream is cut into reads.
\<close>

text \<open>
  \<open>Ok(None)\<close>, \<open>Ok(Some(item))\<close> and \<open>Err(e)\<close> of \<open>decode\<close>.  \<open>Undefined\<close> stands for
  undefined behaviour of an \<open>unsafe\<close> block.
\<close>

datatype ('e, 'a) decoded = Need_More | Item 'a | Failure 'e | Undefined

type_synonym ('s, 'e, 'a) decode_step =
  "'s \<Rightarrow> bytes \<Rightarrow> ('e, 'a) decoded \<times> 's \<times> bytes"

text \<open>Decoding everything a buffer holds, with fuel for the number of items.\<close>

fun drain ::
  "('s, 'e, 'a) decode_step \<Rightarrow> nat \<Rightarrow> 's \<Rightarrow> bytes \<Rightarrow> 'a list \<times> ('e, 'a) decoded \<times> 's \<times> bytes"
where
  "drain step 0 s buf = ([], Undefined, s, buf)"
| "drain step (Suc k) s buf =
    (case step s buf of
       (Item a, s', buf') \<Rightarrow>
         (case drain step k s' buf' of (as, e, s'', buf'') \<Rightarrow> (a # as, e, s'', buf''))
     | (r, s', buf') \<Rightarrow> ([], r, s', buf'))"

text \<open>The read loop: append what was read, drain the buffer, stop at the first failure.\<close>

fun feed ::
  "('s, 'e, 'a) decode_step \<Rightarrow> 's \<Rightarrow> bytes \<Rightarrow> bytes list \<Rightarrow> 'a list \<times> ('e, 'a) decoded \<times> 's \<times> bytes"
where
  "feed step s buf [] = ([], Need_More, s, buf)"
| "feed step s buf (c # cs) =
    (case drain step (Suc (length (buf @ c))) s (buf @ c) of
       (as, Need_More, s', buf') \<Rightarrow>
         (case feed step s' buf' cs of (bs, r, s'', buf'') \<Rightarrow> (as @ bs, r, s'', buf''))
     | (as, r, s', buf') \<Rightarrow> (as, r, s', buf'))"

locale incremental_decoder =
  fixes step :: "('s, 'e, 'a) decode_step"
    and inv :: "'s \<Rightarrow> bool"
  assumes step_inv: "inv s \<Longrightarrow> step s buf = (r, s', buf') \<Longrightarrow> inv s'"
    and step_defined: "inv s \<Longrightarrow> fst (step s buf) \<noteq> Undefined"
    and step_wait: "inv s \<Longrightarrow> step s buf = (Need_More, s', buf') \<Longrightarrow>
        step s' (buf' @ x) = step s (buf @ x) \<and> length buf' \<le> length buf"
    and step_item: "inv s \<Longrightarrow> step s buf = (Item a, s', buf') \<Longrightarrow>
        step s (buf @ x) = (Item a, s', buf' @ x) \<and> length buf' < length buf"
    and step_fail: "inv s \<Longrightarrow> step s buf = (Failure e, s', buf') \<Longrightarrow>
        step s (buf @ x) = (Failure e, s', buf' @ x)"
begin

lemma step_item_less: "inv s \<Longrightarrow> step s buf = (Item a, s', buf') \<Longrightarrow> length buf' < length buf"
  using step_item by blast

lemma step_wait_le: "inv s \<Longrightarrow> step s buf = (Need_More, s', buf') \<Longrightarrow> length buf' \<le> length buf"
  using step_wait by blast

lemma drain_defined:
  assumes "inv s" "length buf < k"
  shows "fst (snd (drain step k s buf)) \<noteq> Undefined"
  using assms
proof (induction k arbitrary: s buf)
  case (Suc k)
  obtain r s' buf' where st: "step s buf = (r, s', buf')" by (metis prod_cases3)
  show ?case
  proof (cases r)
    case (Item a)
    then have "inv s'" "length buf' < k"
      using Suc.prems step_inv [OF _ st] step_item_less [of s buf a s' buf'] st by auto
    then show ?thesis using Suc.IH [of s' buf'] st Item by (auto split: prod.split)
  next
    case Undefined
    then show ?thesis using step_defined [OF Suc.prems(1), of buf] st by simp
  qed (use st in auto)
qed simp

lemma drain_inv:
  "inv s \<Longrightarrow> drain step k s buf = (as, r, s', buf') \<Longrightarrow> inv s'"
proof (induction k arbitrary: s buf as)
  case (Suc k)
  then show ?case by (auto split: prod.splits decoded.splits dest: step_inv)
qed simp

text \<open>More fuel than there are bytes changes nothing.\<close>

lemma drain_fuel:
  "inv s \<Longrightarrow> length buf < k \<Longrightarrow> length buf < l \<Longrightarrow> drain step k s buf = drain step l s buf"
proof (induction k arbitrary: s buf l)
  case (Suc k)
  obtain j where l: "l = Suc j" using Suc.prems(3) by (cases l) auto
  obtain r s' buf' where st: "step s buf = (r, s', buf')" by (metis prod_cases3)
  show ?case
  proof (cases r)
    case (Item a)
    then have "inv s'" "length buf' < length buf"
      using Suc.prems step_inv [OF _ st] step_item_less [of s buf a s' buf'] st by auto
    then have "drain step k s' buf' = drain step j s' buf'" using Suc.prems l by (intro Suc.IH) auto
    then show ?thesis using l st Item by simp
  qed (use l st in auto)
qed simp

text \<open>
  Draining the buffer, appending the next read and draining again gives the
  items of the two buffers together.
\<close>

lemma drain_append:
  assumes "inv s" "drain step k s buf = (as, Need_More, s', buf')" "length buf < k"
    "length (buf' @ x) < l" "length (buf @ x) < n"
    "drain step l s' (buf' @ x) = (bs, r, s'', buf'')"
  shows "drain step n s (buf @ x) = (as @ bs, r, s'', buf'')"
  using assms
proof (induction k arbitrary: s buf as n)
  case (Suc k)
  obtain j where n: "n = Suc j" using Suc.prems(5) by (cases n) auto
  obtain q t c where st: "step s buf = (q, t, c)" by (metis prod_cases3)
  show ?case
  proof (cases q)
    case Need_More
    then have eq: "as = []" "t = s'" "c = buf'" using Suc.prems(2) st by auto
    then have "step s' (buf' @ x) = step s (buf @ x)"
      using step_wait [OF Suc.prems(1)] st Need_More by blast
    moreover have "inv s'" using Suc.prems(1) step_inv [OF _ st] eq by simp
    then have "drain step l s' (buf' @ x) = drain step n s' (buf' @ x)"
      using Suc.prems step_wait_le [OF Suc.prems(1), of buf s' buf'] st Need_More eq
      by (intro drain_fuel) auto
    ultimately show ?thesis using Suc.prems(6) eq n by simp
  next
    case (Item a)
    obtain as' where as: "as = a # as'" and d: "drain step k t c = (as', Need_More, s', buf')"
      using Suc.prems(2) st Item by (auto split: prod.splits)
    have *: "step s (buf @ x) = (Item a, t, c @ x)" "length c < length buf"
      using step_item [OF Suc.prems(1)] st Item by blast+
    have "drain step j t (c @ x) = (as' @ bs, r, s'', buf'')"
      by (rule Suc.IH [OF step_inv [OF Suc.prems(1) st] d])
        (use Suc.prems n * in auto)
    then show ?thesis using * as n by simp
  qed (use Suc.prems st in auto)
qed simp

lemma drain_append_fail:
  assumes "inv s" "drain step k s buf = (as, Failure e, s', buf')" "length buf < k"
    "length (buf @ x) < n"
  shows "drain step n s (buf @ x) = (as, Failure e, s', buf' @ x)"
  using assms
proof (induction k arbitrary: s buf as n)
  case (Suc k)
  obtain j where n: "n = Suc j" using Suc.prems(4) by (cases n) auto
  obtain q t c where st: "step s buf = (q, t, c)" by (metis prod_cases3)
  show ?case
  proof (cases q)
    case (Item a)
    obtain as' where as: "as = a # as'" and d: "drain step k t c = (as', Failure e, s', buf')"
      using Suc.prems(2) st Item by (auto split: prod.splits)
    have *: "step s (buf @ x) = (Item a, t, c @ x)" "length c < length buf"
      using step_item [OF Suc.prems(1)] st Item by blast+
    have "drain step j t (c @ x) = (as', Failure e, s', buf' @ x)"
      by (rule Suc.IH [OF step_inv [OF Suc.prems(1) st] d]) (use Suc.prems n * in auto)
    then show ?thesis using * as n by simp
  next
    case (Failure e')
    then show ?thesis using Suc.prems st n step_fail [OF Suc.prems(1)] by auto
  qed (use Suc.prems st in auto)
qed simp

lemma drain_idle:
  "inv s \<Longrightarrow> drain step k s buf = (as, Need_More, s', buf') \<Longrightarrow> step s' buf' = (Need_More, s', buf')"
proof (induction k arbitrary: s buf as)
  case (Suc k)
  obtain q t c where st: "step s buf = (q, t, c)" by (metis prod_cases3)
  show ?case
  proof (cases q)
    case Need_More
    then show ?thesis using Suc.prems st step_wait [OF Suc.prems(1), of buf t c "[]"] by simp
  next
    case (Item a)
    then show ?thesis using Suc.prems st Suc.IH [OF step_inv [OF Suc.prems(1) st]]
      by (auto split: prod.splits)
  qed (use Suc.prems st in auto)
qed simp

text \<open>
  Chunking does not matter: what a sequence of reads yields is what one read of
  all the bytes yields, and the state left is the same; a failure leaves the
  bytes that were not read yet.
\<close>

lemma feed_concat:
  assumes "inv s" "step s buf = (Need_More, s, buf)"
    "feed step s buf cs = (as, r, s', buf')"
  shows "\<exists>rest. drain step (Suc (length (buf @ concat cs))) s (buf @ concat cs)
           = (as, r, s', buf' @ rest) \<and> (r = Need_More \<longrightarrow> rest = [])"
  using assms
proof (induction cs arbitrary: s buf as)
  case (Cons c cs)
  let ?b = "buf @ c" and ?n = "Suc (length (buf @ concat (c # cs)))"
  obtain as1 r1 s1 b1 where d1: "drain step (Suc (length ?b)) s ?b = (as1, r1, s1, b1)"
    by (metis prod_cases4)
  show ?case
  proof (cases r1)
    case Need_More
    obtain bs1 where f: "feed step s1 b1 cs = (bs1, r, s', buf')" and as: "as = as1 @ bs1"
      using Cons.prems(3) d1 Need_More by (auto split: prod.splits)
    have "inv s1" "step s1 b1 = (Need_More, s1, b1)"
      using drain_inv drain_idle d1 Need_More Cons.prems(1) by blast+
    then obtain rest where d2:
      "drain step (Suc (length (b1 @ concat cs))) s1 (b1 @ concat cs) = (bs1, r, s', buf' @ rest)"
      and rest: "r = Need_More \<longrightarrow> rest = []"
      using Cons.IH [OF _ _ f] by blast
    have "drain step ?n s (?b @ concat cs) = (as1 @ bs1, r, s', buf' @ rest)"
      by (rule drain_append [OF Cons.prems(1) d1 [unfolded Need_More] _ _ _ d2]) auto
    then show ?thesis using as rest by auto
  next
    case (Failure e)
    then have "drain step ?n s (?b @ concat cs) = (as1, Failure e, s1, b1 @ concat cs)"
      using d1 Cons.prems(1) by (intro drain_append_fail) auto
    then show ?thesis using Cons.prems(3) d1 Failure by auto
  next
    case (Item a)
    have "drain step k t b \<noteq> (xs, Item a, t', b')" for k t b xs t' b'
      by (induction k arbitrary: t b xs) (auto split: prod.splits decoded.splits)
    then show ?thesis using d1 Item by blast
  next
    case Undefined
    then show ?thesis using drain_defined [OF Cons.prems(1), of ?b "Suc (length ?b)"] d1 by simp
  qed
qed auto

text \<open>A property that every step gives its item holds of all items.\<close>

lemma drain_items:
  assumes step: "\<And>s buf r s' buf'. inv s \<Longrightarrow> Q s \<Longrightarrow> step s buf = (r, s', buf') \<Longrightarrow>
      Q s' \<and> (\<forall>a. r = Item a \<longrightarrow> P a)"
  shows "inv s \<Longrightarrow> Q s \<Longrightarrow> drain step k s buf = (as, r, s', buf') \<Longrightarrow> list_all P as \<and> Q s'"
proof (induction k arbitrary: s buf as)
  case (Suc k)
  obtain q t c where st: "step s buf = (q, t, c)" by (metis prod_cases3)
  have "inv t" "Q t" "\<forall>a. q = Item a \<longrightarrow> P a"
    using step_inv [OF Suc.prems(1) st] step [OF Suc.prems(1,2) st] by auto
  then show ?case using Suc.prems(3) st Suc.IH [of t c] by (cases q) (auto split: prod.splits)
qed simp

lemma feed_items:
  assumes step: "\<And>s buf r s' buf'. inv s \<Longrightarrow> Q s \<Longrightarrow> step s buf = (r, s', buf') \<Longrightarrow>
      Q s' \<and> (\<forall>a. r = Item a \<longrightarrow> P a)"
  shows "inv s \<Longrightarrow> Q s \<Longrightarrow> feed step s buf cs = (as, r, s', buf') \<Longrightarrow> list_all P as"
proof (induction cs arbitrary: s buf as)
  case (Cons c cs)
  let ?b = "buf @ c"
  obtain as1 r1 t b1 where d: "drain step (Suc (length ?b)) s ?b = (as1, r1, t, b1)"
    by (metis prod_cases4)
  have "list_all P as1 \<and> Q t" by (rule drain_items [where P = P and Q = Q, OF _ Cons.prems(1,2) d]) (rule step)
  moreover have "inv t" using drain_inv [OF Cons.prems(1) d] .
  ultimately show ?case using Cons.prems(3) d Cons.IH [of t b1]
    by (cases r1) (auto split: prod.splits)
qed simp

end

end
