(* ===== verification/Codec.thy ===== *)
theory Codec
  imports Mask Incremental
begin

text \<open>
  The frame codec (\<open>src/codec.rs\<close>): the packed state of a partially read frame,
  the decoder with its two stages, and the encoder.  A \<open>BytesMut\<close> is the list of
  its bytes.  A \<open>usize\<close> is a natural number; on the 64-bit targets modelled here
  the 8-byte length of a header fits it.
\<close>

section \<open>Data\<close>

datatype role = Server | Client

record read_state =
  rs_flags :: byte
  rs_mask :: mask4
  rs_payload_len :: nat

text \<open>\<open>opcode as u8\<close>: the discriminants of the enum, in declaration order.\<close>

fun opcode_discr :: "opcode \<Rightarrow> byte" where
  "opcode_discr Continuation = 0"
| "opcode_discr Text = 1"
| "opcode_discr Binary = 2"
| "opcode_discr Close = 3"
| "opcode_discr Ping = 4"
| "opcode_discr Pong = 5"

text \<open>\<open>transmute\<close> to the enum: undefined (\<open>None\<close>) for a byte that is no discriminant.\<close>

definition opcode_transmute :: "byte \<Rightarrow> opcode option" where
  "opcode_transmute b =
    (if b = 0 then Some Continuation else if b = 1 then Some Text else if b = 2 then Some Binary
     else if b = 3 then Some Close else if b = 4 then Some Ping else if b = 5 then Some Pong
     else None)"

definition read_state_new :: "bool \<Rightarrow> bool \<Rightarrow> opcode \<Rightarrow> mask4 option \<Rightarrow> nat \<Rightarrow> read_state" where
  "read_state_new f rsv1 c m n =
    \<lparr>rs_flags = push_bit 7 (of_bool f) OR push_bit 6 (of_bool rsv1) OR (opcode_discr c AND 0x0F)
       OR (if m \<noteq> None then 0x10 else 0),
     rs_mask = (case m of None \<Rightarrow> (0, 0, 0, 0) | Some k \<Rightarrow> k),
     rs_payload_len = n\<rparr>"

definition rs_fin :: "read_state \<Rightarrow> bool" where
  "rs_fin st \<longleftrightarrow> rs_flags st AND 0x80 \<noteq> 0"

definition rs_rsv1 :: "read_state \<Rightarrow> bool" where
  "rs_rsv1 st \<longleftrightarrow> rs_flags st AND 0x40 \<noteq> 0"

definition rs_opcode :: "read_state \<Rightarrow> opcode option" where
  "rs_opcode st = opcode_transmute (rs_flags st AND 0x0F)"

definition rs_get_mask :: "read_state \<Rightarrow> mask4 option" where
  "rs_get_mask st = (if rs_flags st AND 0x10 \<noteq> 0 then Some (rs_mask st) else None)"

record decoder =
  dec_role :: role
  dec_state :: "read_state option"
  max_payload_size :: nat

definition decoder_new :: "role \<Rightarrow> nat \<Rightarrow> decoder" where
  "decoder_new r n = \<lparr>dec_role = r, dec_state = None, max_payload_size = n\<rparr>"

section \<open>Decoding\<close>

text \<open>The last step of both stages: unmask in place on a server, then split the payload off.\<close>

definition unmask_prefix :: "hardware \<Rightarrow> mask4 \<Rightarrow> nat \<Rightarrow> bytes \<Rightarrow> bytes" where
  "unmask_prefix hw m n src = apply_mask hw m (take n src) @ drop n src"

text \<open>Completing a frame whose header was read in an earlier call.\<close>

definition decode_resume ::
  "hardware \<Rightarrow> decoder \<Rightarrow> read_state \<Rightarrow> bytes \<Rightarrow> (ws_error, frame) decoded \<times> decoder \<times> bytes"
where
  "decode_resume hw d st src =
    (let n = rs_payload_len st; d = d\<lparr>dec_state := None\<rparr> in
     if length src < n then (Need_More, d\<lparr>dec_state := Some st\<rparr>, src)
     else
       let finish = (\<lambda>src.
             let p = take n src; src = drop n src in
             case rs_opcode st of
               None \<Rightarrow> (Undefined, d, src)
             | Some c \<Rightarrow>
                 (Item ((frame_new (rs_fin st) c (rs_get_mask st) p)
                    \<lparr>is_compressed := rs_rsv1 st\<rparr>), d, src))
       in if dec_role d = Server then
            case rs_get_mask st of
              None \<Rightarrow> (Failure InvalidFragment, d, src)
            | Some m \<Rightarrow> finish (unmask_prefix hw m n src)
          else finish src)"

text \<open>The number of bytes of an extended length.\<close>

definition extra_len :: "byte \<Rightarrow> nat" where
  "extra_len code = (if code = 126 then 2 else if code = 127 then 8 else 0)"

definition payload_len_of :: "byte \<Rightarrow> bytes \<Rightarrow> nat" where
  "payload_len_of code src =
    (if extra_len code = 0 then unat code
     else if extra_len code = 2 then unat (be_word (take 2 src) :: u16)
     else unat (be_word (take 8 src) :: u64))"

text \<open>
  A header whose bytes are all there: \<open>src\<close> starts after the first two bytes.
\<close>

definition decode_body ::
  "hardware \<Rightarrow> decoder \<Rightarrow> bool \<Rightarrow> bool \<Rightarrow> opcode \<Rightarrow> bool \<Rightarrow> byte \<Rightarrow> bytes \<Rightarrow>
   (ws_error, frame) decoded \<times> decoder \<times> bytes"
where
  "decode_body hw d f rsv1 c masked code src =
    (let n = payload_len_of code src;
         src = drop (extra_len code) src;
         m = (if masked then Some (list_mask4 (take 4 src)) else None);
         src = (if masked then drop 4 src else src)
     in if is_control c \<and> \<not> f then (Failure ControlFrameFragmented, d, src)
        else if c = Ping \<and> n > 125 then (Failure PingFrameTooLarge, d, src)
        else if n \<ge> max_payload_size d then (Failure FrameTooLarge, d, src)
        else if length src < n then
          (Need_More, d\<lparr>dec_state := Some (read_state_new f rsv1 c m n)\<rparr>, src)
        else
          let finish = (\<lambda>src. (Item ((frame_new f c m (take n src))\<lparr>is_compressed := rsv1\<rparr>), d, drop n src))
          in if dec_role d = Server then
               case m of
                 None \<Rightarrow> (Failure InvalidFragment, d, src)
               | Some k \<Rightarrow> finish (unmask_prefix hw k n src)
             else finish src)"

definition decode_header ::
  "hardware \<Rightarrow> decoder \<Rightarrow> bytes \<Rightarrow> (ws_error, frame) decoded \<times> decoder \<times> bytes"
where
  "decode_header hw d src =
    (if length src < 2 then (Need_More, d, src)
     else
       let f = (src ! 0 AND 0b10000000 \<noteq> 0);
           rsv1 = (src ! 0 AND 0b01000000 \<noteq> 0)
       in if src ! 0 AND 0b00110000 \<noteq> 0 then (Failure ReservedBitsNotZero, d, src)
          else case opcode_try_from (src ! 0 AND 0b00001111) of
            Err e \<Rightarrow> (Failure e, d, src)
          | Ok c \<Rightarrow>
              let masked = (src ! 1 AND 0b10000000 \<noteq> 0);
                  code = src ! 1 AND 0x7F;
                  header_size = 2 + extra_len code + of_bool masked * 4
              in if length src < header_size then (Need_More, d, src)
                 else decode_body hw d f rsv1 c masked code (drop 2 src))"

definition decode ::
  "hardware \<Rightarrow> decoder \<Rightarrow> bytes \<Rightarrow> (ws_error, frame) decoded \<times> decoder \<times> bytes"
where
  "decode hw d src =
    (case dec_state d of
       Some st \<Rightarrow> decode_resume hw d st src
     | None \<Rightarrow> decode_header hw d src)"

section \<open>Encoding\<close>

text \<open>
  \<open>encode\<close> appends the frame to \<open>dst\<close>.  \<open>r\<close> is the random mask a client frame
  without one gets; \<open>garbage\<close> is the content of the uninitialised capacity that
  \<open>reserve\<close> provides, of which the slice \<open>[..payload_len]\<close> is taken.  \<open>None\<close> is a
  panic: the slice is out of range or the assertion of \<open>copy_mask\<close> fails.
\<close>

definition encode ::
  "hardware \<Rightarrow> (nat \<Rightarrow> byte) \<Rightarrow> mask4 \<Rightarrow> role \<Rightarrow> frame \<Rightarrow> bytes \<Rightarrow> bytes option"
where
  "encode hw garbage r rl f dst =
    (let f = (if rl = Client then set_random_mask_if_not_set r f else f);
         n = length (payload f);
         capacity = length dst + (MAX_HEAD_SIZE + n);
         dst = write_head f dst;
         spare = map garbage [0..<capacity - length dst]
     in case mask_key f of
          Some m \<Rightarrow>
            if length spare < n then None
            else map_option (\<lambda>p. dst @ p) (copy_mask hw (payload f) (take n spare) m)
        | None \<Rightarrow> Some (dst @ payload f))"

text \<open>The codec: one decoder and one encoder for the two directions of a connection.\<close>

record codec =
  codec_decoder :: decoder
  codec_role :: role

definition codec_of :: "decoder \<times> role \<Rightarrow> codec" where
  "codec_of = (\<lambda>(d, r). \<lparr>codec_decoder = d, codec_role = r\<rparr>)"

definition codec_decode ::
  "hardware \<Rightarrow> codec \<Rightarrow> bytes \<Rightarrow> (ws_error, frame) decoded \<times> codec \<times> bytes"
where
  "codec_decode hw c src =
    (case decode hw (codec_decoder c) src of (r, d, src) \<Rightarrow> (r, c\<lparr>codec_decoder := d\<rparr>, src))"

definition codec_encode ::
  "hardware \<Rightarrow> (nat \<Rightarrow> byte) \<Rightarrow> mask4 \<Rightarrow> codec \<Rightarrow> frame \<Rightarrow> bytes \<Rightarrow> bytes option"
where
  "codec_encode hw garbage r c f dst = encode hw garbage r (codec_role c) f dst"

section \<open>The packed state\<close>

lemma opcode_transmute_discr [simp]: "opcode_transmute (opcode_discr c) = Some c"
  by (cases c) (simp_all add: opcode_transmute_def)

lemma read_state_unpack [simp]:
  "rs_fin (read_state_new f rsv1 c m n) = f"
  "rs_rsv1 (read_state_new f rsv1 c m n) = rsv1"
  "rs_opcode (read_state_new f rsv1 c m n) = Some c"
  "rs_get_mask (read_state_new f rsv1 c m n) = m"
  "rs_payload_len (read_state_new f rsv1 c m n) = n"
proof -
  have *: "rs_fin (read_state_new f rsv1 c m n) = f \<and> rs_rsv1 (read_state_new f rsv1 c m n) = rsv1 \<and>
     rs_opcode (read_state_new f rsv1 c m n) = Some c"
    by (cases f; cases rsv1; cases c; cases m)
      (simp_all add: read_state_new_def rs_fin_def rs_rsv1_def rs_opcode_def opcode_transmute_def)
  show "rs_get_mask (read_state_new f rsv1 c m n) = m"
    by (cases f; cases rsv1; cases c; cases m)
      (simp_all add: read_state_new_def rs_get_mask_def)
  from * show "rs_fin (read_state_new f rsv1 c m n) = f" "rs_rsv1 (read_state_new f rsv1 c m n) = rsv1"
    "rs_opcode (read_state_new f rsv1 c m n) = Some c" by simp_all
qed (simp add: read_state_new_def)

section \<open>The decoder is an incremental decoder\<close>

text \<open>
  The invariant of the decoder: a stored state is one that \<open>decode\<close> stores.  Its
  opcode bits are a discriminant, packing its fields again gives the same bits,
  its payload is not empty, and the checks of the header stage hold of it.
\<close>

definition repack :: "read_state \<Rightarrow> read_state" where
  "repack st =
     read_state_new (rs_fin st) (rs_rsv1 st) (the (rs_opcode st)) (rs_get_mask st) (rs_payload_len st)"

definition header_ok :: "bool \<Rightarrow> opcode \<Rightarrow> nat \<Rightarrow> nat \<Rightarrow> bool" where
  "header_ok f c n limit \<longleftrightarrow> (is_control c \<longrightarrow> f) \<and> (c = Ping \<longrightarrow> n \<le> 125) \<and> n < limit"

fun decoder_wf :: "decoder \<Rightarrow> bool" where
  "decoder_wf d =
    (case dec_state d of
       None \<Rightarrow> True
     | Some st \<Rightarrow> rs_opcode st \<noteq> None \<and> st = repack st \<and> 0 < rs_payload_len st \<and>
         header_ok (rs_fin st) (the (rs_opcode st)) (rs_payload_len st) (max_payload_size d))"

declare decoder_wf.simps [simp del]

lemma decoder_wf_new [simp]: "decoder_wf (decoder_new r n)"
  by (simp add: decoder_wf.simps decoder_new_def)

lemma length_unmask_prefix [simp]: "length (unmask_prefix hw m n src) = length src"
  by (simp add: unmask_prefix_def)

lemma unmask_prefix_append:
  "n \<le> length src \<Longrightarrow> unmask_prefix hw m n (src @ x) = unmask_prefix hw m n src @ x"
  by (simp add: unmask_prefix_def)

lemma unmask_prefix_split:
  "n \<le> length src \<Longrightarrow> take n (unmask_prefix hw m n src) = apply_mask_fallback m (take n src)"
  "n \<le> length src \<Longrightarrow> drop n (unmask_prefix hw m n src) = drop n src"
  by (simp_all add: unmask_prefix_def apply_mask_eq)

lemma unmask_prefix_hw: "unmask_prefix hw m n src = unmask_prefix hw' m n src"
  by (simp add: unmask_prefix_def apply_mask_eq)

lemma decode_hw: "decode hw d src = decode hw' d src"
  unfolding decode_def decode_header_def decode_resume_def decode_body_def
    unmask_prefix_hw [of hw _ _ _ hw'] ..

lemma payload_len_of_append:
  "extra_len code \<le> length src \<Longrightarrow> payload_len_of code (src @ x) = payload_len_of code src"
  by (auto simp: payload_len_of_def extra_len_def split: if_splits)

text \<open>
  Both stages end in the same way: \<open>complete\<close> reads the payload of a frame whose
  header is known, on a decoder with no stored state.
\<close>

definition complete ::
  "decoder \<Rightarrow> bool \<Rightarrow> bool \<Rightarrow> opcode \<Rightarrow> mask4 option \<Rightarrow> nat \<Rightarrow> bytes \<Rightarrow>
   (ws_error, frame) decoded \<times> decoder \<times> bytes"
where
  "complete d f rsv1 c m n src =
    (if length src < n then (Need_More, d\<lparr>dec_state := Some (read_state_new f rsv1 c m n)\<rparr>, src)
     else if dec_role d = Server \<and> m = None then (Failure InvalidFragment, d, src)
     else (Item \<lparr>fin = f, opcode = c, is_compressed = rsv1, mask_key = m,
             payload = (if dec_role d = Server then apply_mask_fallback (the m) (take n src)
               else take n src)\<rparr>, d, drop n src))"

lemma decode_resume_complete:
  assumes "dec_state d = None"
  shows "decode_resume hw (d\<lparr>dec_state := s\<rparr>) (read_state_new f rsv1 c m n) src
         = complete d f rsv1 c m n src"
proof -
  have "d\<lparr>dec_state := None\<rparr> = d" using assms by (cases d) simp
  then show ?thesis
    by (simp add: decode_resume_def complete_def Let_def frame_new_def unmask_prefix_split
        split: option.split)
qed

lemma decode_body_complete:
  "decode_body hw d f rsv1 c masked code src =
    (let n = payload_len_of code src;
         rest = drop (extra_len code + of_bool masked * 4) src;
         m = (if masked then Some (list_mask4 (take 4 (drop (extra_len code) src))) else None)
     in if is_control c \<and> \<not> f then (Failure ControlFrameFragmented, d, rest)
        else if c = Ping \<and> n > 125 then (Failure PingFrameTooLarge, d, rest)
        else if n \<ge> max_payload_size d then (Failure FrameTooLarge, d, rest)
        else complete d f rsv1 c m n rest)"
  by (auto simp: decode_body_def complete_def Let_def frame_new_def unmask_prefix_split add.commute
      split: option.split)

lemma decode_stored:
  assumes "dec_state d = None"
  shows "decode hw (d\<lparr>dec_state := Some (read_state_new f rsv1 c m n)\<rparr>) src
         = complete d f rsv1 c m n src"
  using decode_resume_complete [OF assms] by (simp add: decode_def)

text \<open>A well-formed decoder is fresh, or waits for the payload of a known header.\<close>

lemma decoder_wf_cases:
  assumes "decoder_wf d"
  obtains (fresh) "dec_state d = None"
  | (stored) f rsv1 c m n q where "d = q\<lparr>dec_state := Some (read_state_new f rsv1 c m n)\<rparr>"
      "dec_state q = None" "0 < n" "header_ok f c n (max_payload_size q)"
proof (cases "dec_state d")
  case (Some st)
  then have "d = (d\<lparr>dec_state := None\<rparr>)\<lparr>dec_state := Some (repack st)\<rparr>"
    "0 < rs_payload_len st"
    "header_ok (rs_fin st) (the (rs_opcode st)) (rs_payload_len st) (max_payload_size d)"
    using assms by (cases d; simp add: decoder_wf.simps)+
  then show thesis
    by (intro stored [where q = "d\<lparr>dec_state := None\<rparr>"]) (auto simp: repack_def)
qed (rule fresh)

lemma decoder_wf_store:
  "0 < n \<Longrightarrow> header_ok f c n (max_payload_size d) \<Longrightarrow>
   decoder_wf (d\<lparr>dec_state := Some (read_state_new f rsv1 c m n)\<rparr>)"
  by (simp add: decoder_wf.simps repack_def)

text \<open>What appending bytes does to the payload stage.\<close>

lemma complete_wait:
  assumes "dec_state d = None" "complete d f rsv1 c m n src = (Need_More, d', src')"
  shows "decode hw d' (src' @ x) = complete d f rsv1 c m n (src @ x)" "src' = src" "length src < n"
  using assms decode_stored [OF assms(1)] by (auto simp: complete_def split: if_splits)

lemma complete_item:
  "complete d f rsv1 c m n src = (Item g, d', src') \<Longrightarrow>
   complete d f rsv1 c m n (src @ x) = (Item g, d', src' @ x) \<and> length src' + n = length src"
  by (auto simp: complete_def split: if_splits)

lemma complete_fail:
  "complete d f rsv1 c m n src = (Failure e, d', src') \<Longrightarrow>
   complete d f rsv1 c m n (src @ x) = (Failure e, d', src' @ x)"
  by (auto simp: complete_def split: if_splits)

lemma complete_state:
  "complete d f rsv1 c m n src = (r, d', src') \<Longrightarrow>
   r \<noteq> Undefined \<and>
   (d' = d \<or> 0 < n \<and> d' = d\<lparr>dec_state := Some (read_state_new f rsv1 c m n)\<rparr>)"
  by (auto simp: complete_def split: if_splits)

text \<open>The same for the header stage.\<close>

lemma decode_body_append:
  assumes "extra_len code + of_bool masked * 4 \<le> length src" "dec_state d = None"
    "decode_body hw d f rsv1 c masked code src = (r, d', src')"
  shows "r = Need_More \<Longrightarrow>
      decode hw d' (src' @ x) = decode_body hw d f rsv1 c masked code (src @ x)
      \<and> length src' \<le> length src"
    and "r = Item g \<Longrightarrow> decode_body hw d f rsv1 c masked code (src @ x) = (Item g, d', src' @ x)
      \<and> length src' \<le> length src"
    and "r = Failure e \<Longrightarrow> decode_body hw d f rsv1 c masked code (src @ x) = (Failure e, d', src' @ x)"
    and "r \<noteq> Undefined \<and> decoder_wf d'"
proof -
  define n where "n = payload_len_of code src"
  define rest where "rest = drop (extra_len code + of_bool masked * 4) src"
  define m where "m = (if masked then Some (list_mask4 (take 4 (drop (extra_len code) src))) else None)"
  note body = decode_body_complete [of hw d f rsv1 c masked code, unfolded Let_def]
  have app: "payload_len_of code (src @ x) = n"
    "drop (extra_len code + of_bool masked * 4) (src @ x) = rest @ x"
    "(if masked then Some (list_mask4 (take 4 (drop (extra_len code) (src @ x)))) else None) = m"
    using assms(1) by (cases masked; simp add: payload_len_of_append n_def rest_def m_def)+
  have body0: "decode_body hw d f rsv1 c masked code src =
      (if is_control c \<and> \<not> f then (Failure ControlFrameFragmented, d, rest)
       else if c = Ping \<and> n > 125 then (Failure PingFrameTooLarge, d, rest)
       else if n \<ge> max_payload_size d then (Failure FrameTooLarge, d, rest)
       else complete d f rsv1 c m n rest)"
    unfolding body n_def rest_def m_def ..
  have bodyx: "decode_body hw d f rsv1 c masked code (src @ x) =
      (if is_control c \<and> \<not> f then (Failure ControlFrameFragmented, d, rest @ x)
       else if c = Ping \<and> n > 125 then (Failure PingFrameTooLarge, d, rest @ x)
       else if n \<ge> max_payload_size d then (Failure FrameTooLarge, d, rest @ x)
       else complete d f rsv1 c m n (rest @ x))"
    unfolding body app ..
  have le: "length rest \<le> length src" by (simp add: rest_def)
  show "decode hw d' (src' @ x) = decode_body hw d f rsv1 c masked code (src @ x)
      \<and> length src' \<le> length src" if "r = Need_More"
    using assms(2,3) that complete_wait(1) [of d f rsv1 c m n rest d' src' hw x]
      complete_wait(2) [of d f rsv1 c m n rest d' src'] le
    unfolding body0 bodyx by (auto split: if_splits)
  show "decode_body hw d f rsv1 c masked code (src @ x) = (Item g, d', src' @ x)
      \<and> length src' \<le> length src" if "r = Item g"
    using assms(3) that complete_item [of d f rsv1 c m n rest g d' src' x] le
    unfolding body0 bodyx by (auto split: if_splits)
  show "decode_body hw d f rsv1 c masked code (src @ x) = (Failure e, d', src' @ x)"
    if "r = Failure e"
    using assms(3) that complete_fail [of d f rsv1 c m n rest e d' src' x]
    unfolding body0 bodyx by (auto split: if_splits)
  have "decoder_wf d" using assms(2) by (simp add: decoder_wf.simps)
  then show "r \<noteq> Undefined \<and> decoder_wf d'"
    using assms(3) complete_state [of d f rsv1 c m n rest r d' src'] decoder_wf_store [of n f c d]
    unfolding body0 by (auto simp: header_ok_def split: if_splits)
qed

text \<open>
  The header of a buffer: nothing yet, a rejected first byte, or the fields the
  second stage works on.
\<close>

lemma decode_header_cases:
  obtains (short) "\<And>hw d. decode_header hw d src = (Need_More, d, src)"
  | (rejected) e where "2 \<le> length src"
      "\<And>hw d x. decode_header hw d (src @ x) = (Failure e, d, src @ x)"
  | (full) f rsv1 c masked code where
      "2 + extra_len code + of_bool masked * 4 \<le> length src"
      "\<And>hw d x. decode_header hw d (src @ x)
         = decode_body hw d f rsv1 c masked code (drop 2 src @ x)"
proof (cases "length src < 2")
  case True
  then show thesis by (intro short) (simp add: decode_header_def)
next
  case long: False
  then have nth: "(src @ x) ! 0 = src ! 0" "(src @ x) ! 1 = src ! 1" for x
    by (auto simp: nth_append)
  show thesis
  proof (cases "src ! 0 AND 0b00110000 \<noteq> 0")
    case True
    then show thesis using long nth
      by (intro rejected [of ReservedBitsNotZero]) (simp_all add: decode_header_def)
  next
    case ok: False
    show thesis
    proof (cases "opcode_try_from (src ! 0 AND 0b00001111)")
      case (Inl e)
      then show thesis using long nth ok by (intro rejected [of e]) (simp_all add: decode_header_def)
    next
      case (Inr c)
      let ?masked = "src ! 1 AND 0b10000000 \<noteq> 0" and ?code = "src ! 1 AND 0x7F"
      show thesis
      proof (cases "length src < 2 + extra_len ?code + of_bool ?masked * 4")
        case True
        then show thesis using long ok Inr by (intro short) (simp add: decode_header_def Let_def)
      next
        case False
        then show thesis using long nth ok Inr
          by (intro full [of ?code ?masked "src ! 0 AND 0b10000000 \<noteq> 0"
                "src ! 0 AND 0b01000000 \<noteq> 0" c])
            (simp_all add: decode_header_def Let_def)
      qed
    qed
  qed
qed

lemma decode_fresh: "dec_state d = None \<Longrightarrow> decode hw d src = decode_header hw d src"
  by (simp add: decode_def)

lemma decode_append:
  assumes "decoder_wf d" "decode hw d src = (r, d', src')"
  shows "r = Need_More \<Longrightarrow> decode hw d' (src' @ x) = decode hw d (src @ x) \<and> length src' \<le> length src"
    and "r = Item g \<Longrightarrow> decode hw d (src @ x) = (Item g, d', src' @ x) \<and> length src' < length src"
    and "r = Failure e \<Longrightarrow> decode hw d (src @ x) = (Failure e, d', src' @ x)"
    and "r \<noteq> Undefined \<and> decoder_wf d'"
proof -
  have "(r = Need_More \<longrightarrow> decode hw d' (src' @ x) = decode hw d (src @ x) \<and> length src' \<le> length src) \<and>
    (r = Item g \<longrightarrow> decode hw d (src @ x) = (Item g, d', src' @ x) \<and> length src' < length src) \<and>
    (r = Failure e \<longrightarrow> decode hw d (src @ x) = (Failure e, d', src' @ x)) \<and>
    r \<noteq> Undefined \<and> decoder_wf d'"
    using assms(1)
  proof (cases rule: decoder_wf_cases)
    case fresh
    show ?thesis
    proof (cases rule: decode_header_cases [of src])
      case short
      then show ?thesis using assms fresh by (auto simp: decode_fresh)
    next
      case (rejected e')
      then show ?thesis using assms fresh rejected(2) [of hw d "[]"]
        by (auto simp: decode_fresh)
    next
      case (full f rsv1 c masked code)
      have fits: "extra_len code + of_bool masked * 4 \<le> length (drop 2 src)" using full(1) by simp
      have "decode_body hw d f rsv1 c masked code (drop 2 src) = (r, d', src')"
        using full(2) [of hw d "[]"] assms(2) fresh by (simp add: decode_fresh)
      note body = decode_body_append [OF fits fresh this]
      have "length (drop 2 src) < length src" using full(1) by simp
      then show ?thesis
        using body(1) [of x] body(2) [of g x] body(3) [of e x] body(4) full(2) fresh
        by (auto simp: decode_fresh)
    qed
  next
    case (stored f rsv1 c m n q)
    note c = complete_wait(1) [of q f rsv1 c m n src d' src' hw x]
      complete_wait(2) [of q f rsv1 c m n src d' src']
      complete_item [of q f rsv1 c m n src g d' src' x]
      complete_fail [of q f rsv1 c m n src e d' src' x]
      complete_state [of q f rsv1 c m n src r d' src']
    have eq: "decode hw d y = complete q f rsv1 c m n y" for y
      unfolding stored(1) by (rule decode_stored [OF stored(2)])
    have "decoder_wf q" using stored(2) by (simp add: decoder_wf.simps)
    then show ?thesis using c assms(2) stored(2-4) decoder_wf_store [of n f c q rsv1 m]
      unfolding eq by auto
  qed
  then show "r = Need_More \<Longrightarrow> decode hw d' (src' @ x) = decode hw d (src @ x) \<and> length src' \<le> length src"
    and "r = Item g \<Longrightarrow> decode hw d (src @ x) = (Item g, d', src' @ x) \<and> length src' < length src"
    and "r = Failure e \<Longrightarrow> decode hw d (src @ x) = (Failure e, d', src' @ x)"
    and "r \<noteq> Undefined \<and> decoder_wf d'"
    by blast+
qed

interpretation dec: incremental_decoder "decode hw" decoder_wf for hw
proof unfold_locales
  fix d src d' src' x g e and r :: "(ws_error, frame) decoded"
  assume wf: "decoder_wf d"
  show "fst (decode hw d src) \<noteq> Undefined"
    using decode_append(4) [OF wf] by (cases "decode hw d src") auto
  show "decode hw d src = (r, d', src') \<Longrightarrow> decoder_wf d'"
    using decode_append(4) [OF wf] by blast
  show "decode hw d src = (Need_More, d', src') \<Longrightarrow>
      decode hw d' (src' @ x) = decode hw d (src @ x) \<and> length src' \<le> length src"
    by (rule decode_append(1) [OF wf]) auto
  show "decode hw d src = (Item g, d', src') \<Longrightarrow>
      decode hw d (src @ x) = (Item g, d', src' @ x) \<and> length src' < length src"
    by (rule decode_append(2) [OF wf]) auto
  show "decode hw d src = (Failure e, d', src') \<Longrightarrow>
      decode hw d (src @ x) = (Failure e, d', src' @ x)"
    by (rule decode_append(3) [OF wf]) auto
qed

section \<open>The wire format\<close>

text \<open>
  The bytes of a frame: its header, then its payload, masked when the frame has
  a key.  \<open>write_head\<close> and \<open>encode\<close> append them to the buffer.
\<close>

definition wire :: "frame \<Rightarrow> bytes" where
  "wire f = write_head f [] @
    (case mask_key f of None \<Rightarrow> payload f | Some m \<Rightarrow> apply_mask_fallback m (payload f))"

lemma write_head_append: "write_head f dst = dst @ write_head f []"
  by (simp add: write_head_def Let_def split: option.split)

text \<open>The frame that \<open>encode\<close> sends: a client adds a mask when there is none.\<close>

definition outgoing :: "mask4 \<Rightarrow> role \<Rightarrow> frame \<Rightarrow> frame" where
  "outgoing r rl f = (if rl = Client then set_random_mask_if_not_set r f else f)"

lemma encode_wire: "encode hw garbage r rl f dst = Some (dst @ wire (outgoing r rl f))"
proof -
  define g where "g = outgoing r rl f"
  have "length (write_head g dst) \<le> length dst + 14" by (rule length_write_head_le)
  then have "length (payload g) \<le> length dst + (MAX_HEAD_SIZE + length (payload g)) - length (write_head g dst)"
    by (simp add: MAX_HEAD_SIZE_def)
  then have "encode hw garbage r rl f dst = Some (dst @ wire g)"
    unfolding encode_def Let_def g_def [unfolded outgoing_def, symmetric]
    by (auto simp: wire_def copy_mask_eq write_head_append [of g dst] split: option.split)
  then show ?thesis by (simp add: g_def)
qed

lemma first_byte_bits [wire_simps]:
  "first_byte f AND 0b10000000 \<noteq> 0 \<longleftrightarrow> fin f"
  "first_byte f AND 0b01000000 \<noteq> 0 \<longleftrightarrow> is_compressed f"
  "first_byte f AND 0b00110000 = 0"
  "first_byte f AND 0b00001111 = opcode_byte (opcode f)"
  by (cases "fin f"; cases "is_compressed f"; cases "opcode f"; simp add: first_byte_def)+

lemma bit_small_byte:
  assumes "unat (b :: byte) < 128"
  shows "\<not> bit b 7"
proof -
  have "bit b 7 \<longleftrightarrow> bit (unat b) 7" by (simp add: bit_unsigned_iff)
  also have "\<not> bit (unat b) 7" using assms by (simp add: bit_iff_odd)
  finally show ?thesis by simp
qed

lemma bit_7F_80:
  "bit (0x7F :: byte) i \<longleftrightarrow> i < 7" "bit (0x80 :: byte) i \<longleftrightarrow> i = 7"
  using bit_mask_iff [where 'a = byte, of 7 i] bit_exp_iff [where 'a = byte, of 7 i]
  by (auto simp: mask_eq_exp_minus_1)

lemma second_byte_bits:
  assumes "unat (b :: byte) < 128"
  shows "(b OR 0x80) AND 0x7F = b" "b AND 0x7F = b" "(b OR 0x80) AND 0x80 \<noteq> 0" "b AND 0x80 = 0"
proof -
  have b7: "\<not> bit b 7" using assms by (rule bit_small_byte)
  then have b: "i < 7" if "bit b i" for i
    using bit_imp_le_length [OF that] that by (cases "i = 7") auto
  note bits = bit_and_iff bit_or_iff bit_7F_80
  show "(b OR 0x80) AND 0x7F = b" "b AND 0x7F = b" "b AND 0x80 = 0"
    by (rule bit_word_eqI; simp only: bits bit_0_eq bot_apply; use b b7 in \<open>auto dest: b\<close>)+
  have "bit ((b OR 0x80) AND 0x80) 7" by (simp only: bits) simp
  then show "(b OR 0x80) AND 0x80 \<noteq> 0" by auto
qed

text \<open>What the decoder reads of a header that \<open>write_head\<close> wrote.\<close>

definition len_code :: "frame \<Rightarrow> byte" where
  "len_code f =
    (if length (payload f) < 126 then word_of_nat (length (payload f))
     else if length (payload f) < 65536 then 126 else 127)"

definition len_bytes :: "frame \<Rightarrow> bytes" where
  "len_bytes f =
    (if length (payload f) < 126 then []
     else if length (payload f) < 65536 then be_bytes 2 (word_of_nat (length (payload f)) :: u16)
     else be_bytes 8 (word_of_nat (length (payload f)) :: u64))"

definition key_bytes :: "frame \<Rightarrow> bytes" where
  "key_bytes f = (case mask_key f of None \<Rightarrow> [] | Some m \<Rightarrow> mask_list m)"

lemma write_head_eq:
  "write_head f [] = first_byte f # (len_code f OR mask_flag f) # len_bytes f @ key_bytes f"
  by (simp add: write_head_def Let_def len_code_def len_bytes_def key_bytes_def split: option.split)

lemma unat_len_code: "unat (len_code f) < 128"
proof (cases "length (payload f) < 126")
  case True
  then show ?thesis by (simp add: len_code_def unat_of_nat)
qed (simp add: len_code_def)

lemma second_byte_read [wire_simps]:
  "(len_code f OR mask_flag f) AND 0x7F = len_code f"
  "(len_code f OR mask_flag f) AND 0b10000000 \<noteq> 0 \<longleftrightarrow> mask_key f \<noteq> None"
  using second_byte_bits [OF unat_len_code [of f]] by (simp_all add: mask_flag_def)

lemma small_word_neq:
  "n < 126 \<Longrightarrow> (word_of_nat n :: byte) \<noteq> 126 \<and> (word_of_nat n :: byte) \<noteq> 127"
  by (auto simp: word_unat_eq_iff unat_of_nat)

lemma extra_len_read [wire_simps]: "extra_len (len_code f) = length (len_bytes f)"
  using small_word_neq [of "length (payload f)"]
  by (simp add: extra_len_def len_code_def len_bytes_def)

lemma payload_len_read [wire_simps]:
  assumes "length (payload f) < 2 ^ 64"
  shows "payload_len_of (len_code f) (len_bytes f @ x) = length (payload f)"
  using assms small_word_neq [of "length (payload f)"]
  by (simp add: payload_len_of_def extra_len_def len_code_def len_bytes_def be_word_be_bytes
      unat_of_nat)

lemma list_mask4_mask_list [simp]: "list_mask4 (mask_list m) = m"
  by (cases m) (simp add: list_mask4_def)

text \<open>The payload as it is on the wire.\<close>

definition wire_payload :: "frame \<Rightarrow> bytes" where
  "wire_payload f =
    (case mask_key f of None \<Rightarrow> payload f | Some m \<Rightarrow> apply_mask_fallback m (payload f))"

lemma length_wire_payload [simp]: "length (wire_payload f) = length (payload f)"
  by (simp add: wire_payload_def split: option.split)

lemma wire_eq: "wire f = write_head f [] @ wire_payload f"
  by (simp add: wire_def wire_payload_def)

lemma decode_wire_body:
  assumes "dec_state d = None"
  shows "decode hw d (wire f @ x) = decode_body hw d (fin f) (is_compressed f) (opcode f)
      (mask_key f \<noteq> None) (len_code f) (len_bytes f @ key_bytes f @ wire_payload f @ x)"
proof -
  let ?rest = "len_bytes f @ key_bytes f @ wire_payload f @ x"
  have src: "wire f @ x = first_byte f # (len_code f OR mask_flag f) # ?rest"
    by (simp add: wire_eq write_head_eq)
  have "length (key_bytes f) = of_bool (mask_key f \<noteq> None) * 4"
    by (simp add: key_bytes_def split: option.split)
  then show ?thesis using assms wire_simps
    unfolding src by (simp add: decode_fresh decode_header_def Let_def)
qed

lemma decode_wire:
  assumes "dec_state d = None" "length (payload f) < 2 ^ 64"
    "header_ok (fin f) (opcode f) (length (payload f)) (max_payload_size d)"
  shows "decode hw d (wire f @ x) =
    complete d (fin f) (is_compressed f) (opcode f) (mask_key f) (length (payload f))
      (wire_payload f @ x)"
  using assms(3) payload_len_read [OF assms(2)] extra_len_read [of f]
  unfolding decode_wire_body [OF assms(1)]
  by (auto simp: decode_body_complete Let_def header_ok_def key_bytes_def split: option.split)

lemma decode_wire_server:
  assumes "dec_state d = None" "dec_role d = Server" "mask_key f = Some m"
    "length (payload f) < 2 ^ 64"
    "header_ok (fin f) (opcode f) (length (payload f)) (max_payload_size d)"
  shows "decode hw d (wire f @ x) = (Item f, d, x)"
  using assms by (simp add: decode_wire) (simp add: complete_def wire_payload_def)

lemma decode_wire_client:
  assumes "dec_state d = None" "dec_role d = Client" "mask_key f = None"
    "length (payload f) < 2 ^ 64"
    "header_ok (fin f) (opcode f) (length (payload f)) (max_payload_size d)"
  shows "decode hw d (wire f @ x) = (Item f, d, x)"
  using assms by (simp add: decode_wire) (simp add: complete_def wire_payload_def)

lemma wire_not_Nil: "2 \<le> length (wire f)"
  by (simp add: wire_eq write_head_eq)

text \<open>A sequence of frames written one after the other.\<close>

fun encode_all ::
  "hardware \<Rightarrow> (nat \<Rightarrow> byte) \<Rightarrow> role \<Rightarrow> (mask4 \<times> frame) list \<Rightarrow> bytes \<Rightarrow> bytes option"
where
  "encode_all hw garbage rl [] dst = Some dst"
| "encode_all hw garbage rl ((r, f) # fs) dst =
    (case encode hw garbage r rl f dst of
       None \<Rightarrow> None
     | Some dst \<Rightarrow> encode_all hw garbage rl fs dst)"

lemma encode_all_wire:
  "encode_all hw garbage rl fs dst = Some (dst @ concat (map (\<lambda>(r, f). wire (outgoing r rl f)) fs))"
  by (induction hw garbage rl fs dst rule: encode_all.induct) (simp_all add: encode_wire)

lemma drain_wire:
  assumes "dec_state d = None" "length fs < k"
    "\<And>f x. f \<in> set fs \<Longrightarrow> decode hw d (wire f @ x) = (Item f, d, x)"
  shows "drain (decode hw) k d (concat (map wire fs)) = (fs, Need_More, d, [])"
  using assms(2,3)
proof (induction fs arbitrary: k)
  case Nil
  then show ?case using assms(1) by (cases k) (simp_all add: decode_fresh decode_header_def)
next
  case (Cons f fs)
  then obtain j where "k = Suc j" by (cases k) auto
  then show ?case using Cons by simp
qed

text \<open>However the bytes arrive, the reader gets the frames.\<close>

lemma feed_wire:
  assumes "dec_state d = None" "concat cs = concat (map wire fs)"
    "\<And>f x. f \<in> set fs \<Longrightarrow> decode hw d (wire f @ x) = (Item f, d, x)"
  shows "feed (decode hw) d [] cs = (fs, Need_More, d, [])"
proof -
  obtain as r d' buf where f: "feed (decode hw) d [] cs = (as, r, d', buf)" by (metis prod_cases4)
  have wf: "decoder_wf d" and idle: "decode hw d [] = (Need_More, d, [])"
    using assms(1) by (simp_all add: decoder_wf.simps decode_fresh decode_header_def)
  have le: "length fs \<le> length (concat (map wire fs))"
  proof (induction fs)
    case (Cons f fs)
    then show ?case using wire_not_Nil [of f] by simp
  qed simp
  have "drain (decode hw) (Suc (length ([] @ concat cs))) d ([] @ concat cs) = (fs, Need_More, d, [])"
    unfolding assms(2) append_Nil by (rule drain_wire) (use assms le in auto)
  then show ?thesis using dec.feed_concat [OF wf idle f] f by auto
qed

section \<open>Properties\<close>

text \<open>
  C7. Transport: whatever frames a client writes, with whatever random masks, and
  however the bytes are cut into reads, the decoder of the server returns
  exactly those frames, unmasked, in order, and is left with an empty buffer.
  The frames are those the decoder accepts: control frames final, pings of at
  most 125 bytes, payloads below the limit.
\<close>

theorem client_to_server_stream:
  assumes "encode_all hw garbage Client fs [] = Some out" "concat chunks = out"
    and "list_all (\<lambda>(r, f). header_ok (fin f) (opcode f) (length (payload f)) limit) fs"
    and "limit \<le> 2 ^ 64"
  shows "feed (decode hw') (decoder_new Server limit) [] chunks
    = (map (\<lambda>(r, f). outgoing r Client f) fs, Need_More, decoder_new Server limit, [])"
proof (rule feed_wire)
  show "concat chunks = concat (map wire (map (\<lambda>(r, f). outgoing r Client f) fs))"
    using assms(1,2) by (auto simp: encode_all_wire comp_def case_prod_unfold)
  fix g x assume "g \<in> set (map (\<lambda>(r, f). outgoing r Client f) fs)"
  then obtain r f where f: "(r, f) \<in> set fs" "g = outgoing r Client f" by auto
  then have "header_ok (fin g) (opcode g) (length (payload g)) limit" "mask_key g \<noteq> None"
    using assms(3)
    by (cases r; auto simp: list_all_iff outgoing_def set_random_mask_if_not_set_def)+
  then show "decode hw' (decoder_new Server limit) (wire g @ x) = (Item g, decoder_new Server limit, x)"
    using assms(4) by (auto simp: decoder_new_def header_ok_def intro!: decode_wire_server)
qed (simp add: decoder_new_def)

theorem client_to_server_stream_witness:
  "feed (decode \<lparr>hw_arch = Other_Arch True, hw_addr = 3\<rparr>) (decoder_new Server 1000) []
     [[0x01], [0x82, 1, 2], [3, 4, 0x49, 0x6B], [0x80, 0x80, 9, 9, 9, 9]]
   = (map (\<lambda>(r, f). outgoing r Client f)
       [((1, 2, 3, 4), with_fin False (text_frame [0x48, 0x69])), ((9, 9, 9, 9), continuation_frame [])],
      Need_More, decoder_new Server 1000, [])"
proof (rule client_to_server_stream [where hw = "\<lparr>hw_arch = X86 True, hw_addr = 0\<rparr>" and garbage = "\<lambda>_. 0"])
  show "encode_all \<lparr>hw_arch = X86 True, hw_addr = 0\<rparr> (\<lambda>_. 0) Client
      [((1, 2, 3, 4), with_fin False (text_frame [0x48, 0x69])), ((9, 9, 9, 9), continuation_frame [])] []
    = Some [0x01, 0x82, 1, 2, 3, 4, 0x49, 0x6B, 0x80, 0x80, 9, 9, 9, 9]"
    by code_simp
qed (simp_all add: header_ok_def with_fin_def text_frame_def continuation_frame_def)

text \<open>
  The same for the other direction: frames without a mask written by a server
  reach a client unchanged, however the bytes are cut.
\<close>

lemma server_to_client_stream:
  assumes "encode_all hw garbage Server fs [] = Some out" "concat chunks = out"
    and "list_all (\<lambda>(r, f). mask_key f = None \<and>
           header_ok (fin f) (opcode f) (length (payload f)) limit) fs"
    and "limit \<le> 2 ^ 64"
  shows "feed (decode hw') (decoder_new Client limit) [] chunks
    = (map snd fs, Need_More, decoder_new Client limit, [])"
proof (rule feed_wire)
  show "concat chunks = concat (map wire (map snd fs))"
    using assms(1,2) by (auto simp: encode_all_wire outgoing_def comp_def case_prod_unfold)
  fix g x assume "g \<in> set (map snd fs)"
  then have "header_ok (fin g) (opcode g) (length (payload g)) limit" "mask_key g = None"
    using assms(3) by (auto simp: list_all_iff)
  then show "decode hw' (decoder_new Client limit) (wire g @ x) = (Item g, decoder_new Client limit, x)"
    using assms(4) by (auto simp: decoder_new_def header_ok_def intro!: decode_wire_client)
qed (simp add: decoder_new_def)

text \<open>
  C8. Chunking independence on arbitrary input, well formed or not: from a decoder
  that has read nothing, what a sequence of reads yields (frames, failure and
  final state) is what one read of all the bytes yields.  In particular no input
  reaches the undefined behaviour of the \<open>transmute\<close> in \<open>ReadState::opcode\<close>.
\<close>

theorem decode_chunking:
  "case feed (decode hw) (decoder_new rl limit) [] chunks of
     (fs, r, d, buf) \<Rightarrow> r \<noteq> Undefined \<and>
       (\<exists>rest. feed (decode hw) (decoder_new rl limit) [] [concat chunks] = (fs, r, d, buf @ rest))"
proof -
  let ?d = "decoder_new rl limit"
  obtain fs r d buf where f: "feed (decode hw) ?d [] chunks = (fs, r, d, buf)" by (metis prod_cases4)
  have idle: "decode hw ?d [] = (Need_More, ?d, [])"
    by (simp add: decode_fresh decode_header_def decoder_new_def)
  obtain rest where dr:
    "drain (decode hw) (Suc (length (concat chunks))) ?d (concat chunks) = (fs, r, d, buf @ rest)"
    using dec.feed_concat [OF decoder_wf_new idle f] by auto
  moreover have "r \<noteq> Undefined"
    using dec.drain_defined [OF decoder_wf_new, of "concat chunks" "Suc (length (concat chunks))" hw rl limit]
      dr by simp
  ultimately show ?thesis using f by (cases r) auto
qed

text \<open>What a step of the decoder guarantees of its frame.\<close>

definition accepted :: "role \<Rightarrow> nat \<Rightarrow> frame \<Rightarrow> bool" where
  "accepted rl limit f \<longleftrightarrow>
     header_ok (fin f) (opcode f) (length (payload f)) limit \<and> (rl = Server \<longrightarrow> mask_key f \<noteq> None)"

lemma complete_accepted:
  assumes "header_ok f c n (max_payload_size d)" "complete d f rsv1 c m n src = (r, d', src')"
  shows "dec_role d' = dec_role d \<and> max_payload_size d' = max_payload_size d \<and>
    (\<forall>g. r = Item g \<longrightarrow> accepted (dec_role d) (max_payload_size d) g)"
  using assms by (auto simp: complete_def accepted_def split: if_splits)

lemma decode_accepted:
  assumes "decoder_wf d" "decode hw d src = (r, d', src')"
  shows "dec_role d' = dec_role d \<and> max_payload_size d' = max_payload_size d \<and>
    (\<forall>g. r = Item g \<longrightarrow> accepted (dec_role d) (max_payload_size d) g)"
  using assms(1)
proof (cases rule: decoder_wf_cases)
  case fresh
  then have h: "decode_header hw d (src @ []) = (r, d', src')" using assms(2) by (simp add: decode_fresh)
  show ?thesis
  proof (cases rule: decode_header_cases [of src])
    case (full f rsv1 c masked code)
    then have "decode_body hw d f rsv1 c masked code (drop 2 src) = (r, d', src')"
      using h full(2) [of hw d "[]"] by simp
    then show ?thesis
      using complete_accepted [of f c "payload_len_of code (drop 2 src)" d rsv1 _ _ r d' src']
      by (auto simp: decode_body_complete Let_def header_ok_def split: if_splits)
  next
    case (rejected e)
    then show ?thesis using h rejected(2) [of hw d "[]"] by auto
  qed (use h in auto)
next
  case (stored f rsv1 c m n q)
  have "decode hw d src = complete q f rsv1 c m n src"
    unfolding stored(1) by (rule decode_stored [OF stored(2)])
  then show ?thesis using complete_accepted [OF stored(4)] assms(2) stored(1) by auto
qed

text \<open>
  C26. Nothing else gets through: on any input, cut in any way, every frame the
  decoder yields is final if it is a control frame, carries at most 125 bytes if
  it is a ping, is shorter than the limit, and was masked if the reader is a
  server.
\<close>

theorem decode_only_accepted:
  assumes "feed (decode hw) (decoder_new rl limit) [] chunks = (fs, r, d, buf)"
  shows "list_all (accepted rl limit) fs"
  using dec.feed_items [where Q = "\<lambda>d. dec_role d = rl \<and> max_payload_size d = limit"
      and P = "accepted rl limit", OF _ decoder_wf_new _ assms] decode_accepted
  by (metis decoder.select_convs(1,3) decoder_new_def)

theorem decode_only_accepted_witness:
  "list_all (accepted Server 1000) [with_mask (1, 2, 3, 4) (text_frame [0x48])]"
  by (rule decode_only_accepted
      [where hw = "\<lparr>hw_arch = X86 True, hw_addr = 0\<rparr>" and chunks = "[[0x81, 0x81, 1, 2, 3, 4, 0x49, 0x89, 0x00]]"
        and r = "Failure InvalidFragment" and d = "decoder_new Server 1000" and buf = "[]"])
    code_simp

text \<open>
  Encoding never panics and only appends: the capacity reserved up front is
  enough for the slice the payload is copied into, the header takes at most 14
  bytes, and what was in the buffer stays.
\<close>

lemma encode_total:
  "\<exists>out. encode hw garbage r rl f dst = Some (dst @ out) \<and>
     length out \<le> 14 + length (payload f)"
proof -
  let ?g = "outgoing r rl f"
  have "length (wire ?g) \<le> 14 + length (payload ?g)"
    using length_write_head_le [of ?g "[]"] by (simp add: wire_eq)
  moreover have "payload ?g = payload f" by (simp add: outgoing_def set_random_mask_if_not_set_def)
  ultimately show ?thesis by (simp add: encode_wire)
qed

text \<open>
  C36. A client decoder does not reject a masked frame: it consumes the key and
  delivers the payload still masked.
\<close>

theorem client_keeps_mask:
  assumes "mask_key f = Some m" "length (payload f) < 2 ^ 64"
    and "header_ok (fin f) (opcode f) (length (payload f)) limit"
  shows "decode hw (decoder_new Client limit) (wire f @ rest)
    = (Item (f\<lparr>payload := apply_mask hw m (payload f)\<rparr>), decoder_new Client limit, rest)"
  using assms by (simp add: decode_wire decoder_new_def)
    (simp add: complete_def wire_payload_def apply_mask_eq)

theorem client_keeps_mask_witness:
  "decode \<lparr>hw_arch = X86 False, hw_addr = 0\<rparr> (decoder_new Client 10)
     (wire (with_mask (1, 2, 3, 4) (text_frame [0x48])) @ [])
   = (Item ((with_mask (1, 2, 3, 4) (text_frame [0x48]))
        \<lparr>payload := apply_mask \<lparr>hw_arch = X86 False, hw_addr = 0\<rparr> (1, 2, 3, 4)
           (payload (with_mask (1, 2, 3, 4) (text_frame [0x48])))\<rparr>), decoder_new Client 10, [])
   \<and> apply_mask \<lparr>hw_arch = X86 False, hw_addr = 0\<rparr> (1, 2, 3, 4) [0x48] = [0x49]"
proof
  show "apply_mask \<lparr>hw_arch = X86 False, hw_addr = 0\<rparr> (1, 2, 3, 4) [0x48] = [0x49]"
    by code_simp
qed (rule client_keeps_mask; simp add: with_mask_def text_frame_def header_ok_def)

end
