(* ===== verification/Fragment.thy ===== *)
theory Fragment
  imports Codec
begin

text \<open>
  The fragment layer of a connection (\<open>FragmentLayer\<close> in \<open>src/native/mod.rs\<close>):
  automatic fragmentation of outgoing frames and reassembly of incoming ones.
  The clock is an argument: \<open>now\<close> is what \<open>Instant::now\<close> returns at the call, in
  the unit of the timeout.
\<close>

section \<open>State\<close>

record fragmentation_state =
  started :: nat
  frag_opcode :: opcode
  frag_compressed :: bool
  bytes_read :: nat

record fragment_layer =
  outgoing_fragments :: "frame list"
  incoming_fragment :: "fragmentation_state option"
  incoming_buffer :: bytes
  fragment_size :: "nat option"
  max_read_buffer :: nat
  fragment_timeout :: "nat option"

definition fragment_layer_new :: "nat option \<Rightarrow> nat \<Rightarrow> nat option \<Rightarrow> fragment_layer" where
  "fragment_layer_new sz limit timeout =
    \<lparr>outgoing_fragments = [], incoming_fragment = None, incoming_buffer = [],
     fragment_size = sz, max_read_buffer = limit, fragment_timeout = timeout\<rparr>"

section \<open>Outgoing frames\<close>

text \<open>A call that may panic, or never return.\<close>

datatype 'a exec = Finished 'a | Panic | Diverges

definition usize_MAX :: nat where "usize_MAX = 2 ^ 64 - 1"

definition fragment_outgoing :: "frame \<Rightarrow> fragment_layer \<Rightarrow> fragment_layer exec" where
  "fragment_outgoing f l =
    (if \<not> fin f \<and> fragment_size l \<noteq> None then Panic
     else case into_fragments f (case fragment_size l of None \<Rightarrow> usize_MAX | Some n \<Rightarrow> n) of
       None \<Rightarrow> Diverges
     | Some fs \<Rightarrow> Finished (l\<lparr>outgoing_fragments := outgoing_fragments l @ fs\<rparr>))"

definition pop_outgoing_fragment :: "fragment_layer \<Rightarrow> frame option \<times> fragment_layer" where
  "pop_outgoing_fragment l =
    (case outgoing_fragments l of
       [] \<Rightarrow> (None, l)
     | f # fs \<Rightarrow> (Some f, l\<lparr>outgoing_fragments := fs\<rparr>))"

definition has_outgoing_fragments :: "fragment_layer \<Rightarrow> bool" where
  "has_outgoing_fragments l \<longleftrightarrow> outgoing_fragments l \<noteq> []"

section \<open>Incoming frames\<close>

definition remaining_read_capacity :: "fragment_layer \<Rightarrow> nat" where
  "remaining_read_capacity l =
    max_read_buffer l - (case incoming_fragment l of None \<Rightarrow> 0 | Some s \<Rightarrow> bytes_read s)"

definition assemble_data ::
  "nat \<Rightarrow> frame \<Rightarrow> fragment_layer \<Rightarrow> (ws_error + frame option) \<times> fragment_layer"
where
  "assemble_data now f l =
    (if incoming_fragment l \<noteq> None then (Err InvalidFragment, l)
     else if \<not> fin f then
       (Ok None, l\<lparr>incoming_buffer := payload f,
          incoming_fragment := Some \<lparr>started = now, frag_opcode = opcode f,
            frag_compressed = is_compressed f, bytes_read = length (payload f)\<rparr>\<rparr>)
     else (Ok (Some f), l))"

definition assemble_continuation ::
  "nat \<Rightarrow> frame \<Rightarrow> fragment_layer \<Rightarrow> (ws_error + frame option) \<times> fragment_layer"
where
  "assemble_continuation now f l =
    (case incoming_fragment l of
       None \<Rightarrow> (Err InvalidFragment, l)
     | Some s \<Rightarrow>
         let l = l\<lparr>incoming_fragment := None\<rparr>;
             s = s\<lparr>bytes_read := bytes_read s + length (payload f)\<rparr>
         in if bytes_read s \<ge> max_read_buffer l then (Err FrameTooLarge, l)
            else if (case fragment_timeout l of None \<Rightarrow> False | Some t \<Rightarrow> now - started s > t) then
              (Err FragmentTimeout, l)
            else
              let l = l\<lparr>incoming_buffer := incoming_buffer l @ payload f\<rparr>
              in if fin f then
                   (Ok (Some (f\<lparr>opcode := frag_opcode s, is_compressed := frag_compressed s,
                      payload := incoming_buffer l\<rparr>)), l\<lparr>incoming_buffer := []\<rparr>)
                 else (Ok None, l\<lparr>incoming_fragment := Some s\<rparr>))"

definition assemble_incoming ::
  "nat \<Rightarrow> frame \<Rightarrow> fragment_layer \<Rightarrow> (ws_error + frame option) \<times> fragment_layer"
where
  "assemble_incoming now f l =
    (case opcode f of
       Text \<Rightarrow> assemble_data now f l
     | Binary \<Rightarrow> assemble_data now f l
     | Continuation \<Rightarrow> assemble_continuation now f l
     | _ \<Rightarrow> (Ok (Some f), l))"

text \<open>
  A connection reading frames: each with the time it arrives.  The messages that
  come out, up to the first error.
\<close>

fun assemble_all ::
  "(nat \<times> frame) list \<Rightarrow> fragment_layer \<Rightarrow> frame list \<times> ws_error option \<times> fragment_layer"
where
  "assemble_all [] l = ([], None, l)"
| "assemble_all ((t, f) # fs) l =
    (case assemble_incoming t f l of
       (Err e, l) \<Rightarrow> ([], Some e, l)
     | (Ok r, l) \<Rightarrow>
         (case assemble_all fs l of
            (ms, e, l) \<Rightarrow> ((case r of None \<Rightarrow> ms | Some m \<Rightarrow> m # ms), e, l)))"

section \<open>Invariant\<close>

text \<open>The count of bytes is the length of the buffer, and a message in progress has a data opcode.\<close>

definition layer_ok :: "fragment_layer \<Rightarrow> bool" where
  "layer_ok l \<longleftrightarrow>
    (case incoming_fragment l of
       None \<Rightarrow> True
     | Some s \<Rightarrow> bytes_read s = length (incoming_buffer l) \<and> frag_opcode s \<in> {Text, Binary})"

lemma layer_ok_new [simp]: "layer_ok (fragment_layer_new sz limit timeout)"
  by (simp add: layer_ok_def fragment_layer_new_def)

lemma assemble_incoming_ok:
  "layer_ok l \<Longrightarrow> layer_ok (snd (assemble_incoming now f l))"
  by (auto simp: layer_ok_def assemble_incoming_def assemble_data_def assemble_continuation_def Let_def
      split: option.splits opcode.splits)

lemma assemble_all_ok: "layer_ok l \<Longrightarrow> assemble_all fs l = (ms, e, l') \<Longrightarrow> layer_ok l'"
proof (induction fs arbitrary: l ms)
  case (Cons tf fs)
  obtain t f where tf: "tf = (t, f)" by (cases tf)
  obtain r l1 where a: "assemble_incoming t f l = (r, l1)" by fastforce
  then have "layer_ok l1" using assemble_incoming_ok [OF Cons.prems(1), of t f] by simp
  then show ?case using Cons.prems(2) Cons.IH [of l1] a tf
    by (cases r) (auto split: prod.splits)
qed simp

lemma fragment_outgoing_ok:
  "layer_ok l \<Longrightarrow> fragment_outgoing f l = Finished l' \<Longrightarrow> layer_ok l'"
  by (auto simp: fragment_outgoing_def layer_ok_def split: if_splits option.splits)

text \<open>No step of the layer changes its configuration, and reading leaves the outgoing queue alone.\<close>

lemma assemble_incoming_config:
  "assemble_incoming now f l = (r, l') \<Longrightarrow>
   outgoing_fragments l' = outgoing_fragments l \<and> fragment_size l' = fragment_size l \<and>
   max_read_buffer l' = max_read_buffer l \<and> fragment_timeout l' = fragment_timeout l"
  by (auto simp: assemble_incoming_def assemble_data_def assemble_continuation_def Let_def
      split: opcode.splits option.splits if_splits)

lemma assemble_all_limit:
  "assemble_all fs l = (ms, e, l') \<Longrightarrow> max_read_buffer l' = max_read_buffer l"
proof (induction fs arbitrary: l ms)
  case (Cons tf fs)
  obtain t f where tf: "tf = (t, f)" by (cases tf)
  obtain r l1 where a: "assemble_incoming t f l = (r, l1)" by fastforce
  then show ?case using Cons.prems Cons.IH [of l1] assemble_incoming_config [OF a] tf
    by (cases r) (auto split: prod.splits)
qed simp

section \<open>Reassembly of a message\<close>

lemma assemble_control:
  "is_control (opcode f) \<Longrightarrow> assemble_incoming now f l = (Ok (Some f), l)"
  by (cases "opcode f") (simp_all add: assemble_incoming_def)

text \<open>The layer while a message is being read: \<open>got\<close> is what has arrived of it.\<close>

definition in_progress :: "nat \<Rightarrow> opcode \<Rightarrow> bool \<Rightarrow> bytes \<Rightarrow> fragment_layer \<Rightarrow> fragment_layer" where
  "in_progress t0 c cmp got l =
    l\<lparr>incoming_fragment := Some \<lparr>started = t0, frag_opcode = c, frag_compressed = cmp,
        bytes_read = length got\<rparr>, incoming_buffer := got\<rparr>"

definition on_time :: "nat \<Rightarrow> nat \<Rightarrow> fragment_layer \<Rightarrow> bool" where
  "on_time t0 t l = (case fragment_timeout l of None \<Rightarrow> True | Some d \<Rightarrow> t - t0 \<le> d)"

lemma assemble_in_progress:
  assumes "opcode f = Continuation" "length got + length (payload f) < max_read_buffer l"
    "on_time t0 t l"
  shows "assemble_incoming t f (in_progress t0 c cmp got l) =
    (if fin f then (Ok (Some (f\<lparr>opcode := c, is_compressed := cmp, payload := got @ payload f\<rparr>)),
       l\<lparr>incoming_fragment := None, incoming_buffer := []\<rparr>)
     else (Ok None, in_progress t0 c cmp (got @ payload f) l))"
  using assms
  by (auto simp: assemble_incoming_def assemble_continuation_def in_progress_def on_time_def Let_def
      split: option.splits)

text \<open>No data frame left: control frames pass, the state stays.\<close>

lemma assemble_all_controls:
  "data_frames (map snd xs) = [] \<Longrightarrow> assemble_all xs l = (map snd xs, None, l)"
  by (induction xs l rule: assemble_all.induct)
    (auto simp: assemble_control split: if_splits)

lemma assemble_all_rest:
  assumes "data_frames (map snd xs) = gs" "gs \<noteq> []"
    "list_all (\<lambda>g. opcode g = Continuation) gs"
    "map fin gs = replicate (length gs - 1) False @ [True]"
    "length got + length (concat (map payload gs)) < max_read_buffer l"
    "list_all (\<lambda>(t, _). on_time t0 t l) xs" "\<not> is_control c"
  shows "\<exists>ys. assemble_all xs (in_progress t0 c cmp got l) =
      (ys, None, l\<lparr>incoming_fragment := None, incoming_buffer := []\<rparr>) \<and>
    control_frames ys = control_frames (map snd xs) \<and>
    data_frames ys = [(last gs)\<lparr>opcode := c, is_compressed := cmp, payload := got @ concat (map payload gs)\<rparr>]"
  using assms
proof (induction xs arbitrary: gs got)
  case (Cons tf xs)
  obtain t f where tf: "tf = (t, f)" by (cases tf)
  show ?case
  proof (cases "is_control (opcode f)")
    case True
    then have "data_frames (map snd xs) = gs" using Cons.prems(1) tf by simp
    then obtain ys where "assemble_all xs (in_progress t0 c cmp got l) =
        (ys, None, l\<lparr>incoming_fragment := None, incoming_buffer := []\<rparr>)"
      "control_frames ys = control_frames (map snd xs)"
      "data_frames ys = [(last gs)\<lparr>opcode := c, is_compressed := cmp,
          payload := got @ concat (map payload gs)\<rparr>]"
      using Cons.IH [of gs got] Cons.prems by auto
    then show ?thesis using True tf by (simp add: assemble_control)
  next
    case False
    then obtain hs where gs: "gs = f # hs" and hs: "data_frames (map snd xs) = hs"
      using Cons.prems(1) tf by auto
    have step: "assemble_incoming t f (in_progress t0 c cmp got l) =
      (if fin f then (Ok (Some (f\<lparr>opcode := c, is_compressed := cmp, payload := got @ payload f\<rparr>)),
         l\<lparr>incoming_fragment := None, incoming_buffer := []\<rparr>)
       else (Ok None, in_progress t0 c cmp (got @ payload f) l))"
      by (rule assemble_in_progress) (use Cons.prems gs tf in auto)
    show ?thesis
    proof (cases "hs = []")
      case True
      then have "fin f" using Cons.prems(4) gs by simp
      then show ?thesis using step gs tf True hs False Cons.prems(7)
        by (auto simp: assemble_all_controls filter_empty_conv filter_id_conv)
    next
      case more: False
      then obtain h where h: "hs = h # tl hs" by (cases hs) auto
      then have fins: "\<not> fin f" "map fin hs = replicate (length hs - 1) False @ [True]"
        using Cons.prems(4) gs by (cases hs; simp)+
      obtain ys where ys: "assemble_all xs (in_progress t0 c cmp (got @ payload f) l) =
          (ys, None, l\<lparr>incoming_fragment := None, incoming_buffer := []\<rparr>)"
        "control_frames ys = control_frames (map snd xs)"
        "data_frames ys = [(last hs)\<lparr>opcode := c, is_compressed := cmp,
            payload := (got @ payload f) @ concat (map payload hs)\<rparr>]"
        using Cons.IH [OF hs more, of "got @ payload f"] Cons.prems gs fins by auto
      show ?thesis
        by (rule exI [of _ ys]) (use ys step fins tf gs more False in simp)
    qed
  qed
qed simp

section \<open>Properties\<close>

lemma last_fragment:
  assumes "0 < n" "n < length (payload f)" "fin f" "\<not> is_compressed f"
  shows "\<exists>gs. into_fragments f n = Some (frame_new False (opcode f) (mask_key f) (take n (payload f)) # gs)
    \<and> gs \<noteq> [] \<and> list_all (\<lambda>g. opcode g = Continuation) gs
    \<and> map fin gs = replicate (length gs - 1) False @ [True]
    \<and> concat (map payload gs) = drop n (payload f)
    \<and> (last gs)\<lparr>opcode := opcode f, is_compressed := False, payload := payload f\<rparr> = f"
proof -
  let ?gs = "rest_fragments n (f\<lparr>payload := drop n (payload f)\<rparr>)"
  have "last (map fin ?gs) = True" by (simp only: rest_fragments_fin last_snoc)
  then have "fin (last ?gs)" by (simp add: last_map)
  moreover have "mask_key (last ?gs) = mask_key f"
    using rest_fragments_shape [OF assms(1), of "f\<lparr>payload := drop n (payload f)\<rparr>"] by simp
  ultimately have "(last ?gs)\<lparr>opcode := opcode f, is_compressed := False, payload := payload f\<rparr> = f"
    using assms(3,4) by (cases "last ?gs"; cases f) simp
  then show ?thesis
    using assms rest_fragments_shape [OF assms(1), of "f\<lparr>payload := drop n (payload f)\<rparr>"]
    by (simp add: into_fragments_eq concat_rest_fragments rest_fragments_fin list_all_iff)
qed

text \<open>
  C10. Fragmentation round trip: the fragments of a data message, received in order
  with any control frames in between and before the timeout, reassemble to the
  message itself; every control frame is delivered, nothing else is, and the
  layer is ready for the next message.
\<close>

theorem fragment_reassemble:
  assumes "into_fragments f n = Some fs" "0 < n"
    and "fin f" "opcode f \<in> {Text, Binary}" "\<not> is_compressed f"
    and "length (payload f) < max_read_buffer l" "incoming_fragment l = None" "incoming_buffer l = []"
    and "data_frames (map snd received) = fs"
    and "list_all (\<lambda>(t, _). t0 \<le> t \<and> on_time t0 t l) received"
  shows "\<exists>ys. assemble_all received l = (ys, None, l) \<and>
    control_frames ys = control_frames (map snd received) \<and> data_frames ys = [f]"
  using assms(9,10)
proof (induction received)
  case Nil
  then show ?case using assms(1,2) by (auto simp: into_fragments_eq split: if_splits)
next
  case (Cons tf xs)
  obtain t g where tf: "tf = (t, g)" by (cases tf)
  have l: "l\<lparr>incoming_fragment := None, incoming_buffer := []\<rparr> = l" using assms(7,8) by (cases l) simp
  have ctl: "\<not> is_control (opcode f)" using assms(4) by auto
  show ?case
  proof (cases "is_control (opcode g)")
    case True
    then obtain ys where "assemble_all xs l = (ys, None, l)"
      "control_frames ys = control_frames (map snd xs)" "data_frames ys = [f]"
      using Cons tf by auto
    then show ?thesis using True tf by (simp add: assemble_control)
  next
    case False
    show ?thesis
    proof (cases "length (payload f) \<le> n")
      case True
      then have "g = f" "data_frames (map snd xs) = []"
        using Cons.prems(1) False tf assms(1,2) by (auto simp: into_fragments_eq)
      moreover have "assemble_incoming t f l = (Ok (Some f), l)"
        using assms(3,4,7) by (auto simp: assemble_incoming_def assemble_data_def)
      ultimately show ?thesis using tf ctl
        by (auto simp: assemble_all_controls filter_empty_conv filter_id_conv)
    next
      case big: False
      then have n: "n < length (payload f)" by simp
      obtain gs where gs: "fs = frame_new False (opcode f) (mask_key f) (take n (payload f)) # gs"
        "gs \<noteq> []" "list_all (\<lambda>g. opcode g = Continuation) gs"
        "map fin gs = replicate (length gs - 1) False @ [True]"
        "concat (map payload gs) = drop n (payload f)"
        "(last gs)\<lparr>opcode := opcode f, is_compressed := False, payload := payload f\<rparr> = f"
        using last_fragment [OF assms(2) n assms(3,5)] assms(1) by auto
      have g: "g = frame_new False (opcode f) (mask_key f) (take n (payload f))"
        and xs: "data_frames (map snd xs) = gs"
        using Cons.prems(1) False tf gs(1) by auto
      have step: "assemble_incoming t g l = (Ok None, in_progress t (opcode f) False (take n (payload f)) l)"
        using assms(4,7,8) unfolding g
        by (auto simp: assemble_incoming_def assemble_data_def in_progress_def frame_new_def)
      have time: "list_all (\<lambda>(s, _). on_time t s l) xs"
        using Cons.prems(2) tf by (fastforce simp: list_all_iff on_time_def split: option.splits)
      obtain ys where "assemble_all xs (in_progress t (opcode f) False (take n (payload f)) l)
          = (ys, None, l)" "control_frames ys = control_frames (map snd xs)" "data_frames ys = [f]"
        using assemble_all_rest [OF xs gs(2-4) _ time ctl, where got = "take n (payload f)" and cmp = False]
          assms(6) n gs(5,6) l by auto
      then show ?thesis using step tf False by simp
    qed
  qed
qed

theorem fragment_reassemble_witness:
  "\<exists>ys. assemble_all
      [(10, frame_new False Text None [1, 2]), (11, ping_frame [9]), (12, continuation_frame [3])]
      (fragment_layer_new None 100 (Some 5))
     = (ys, None, fragment_layer_new None 100 (Some 5)) \<and>
    control_frames ys = control_frames (map snd
      [(10 :: nat, frame_new False Text None [1, 2]), (11, ping_frame [9]), (12, continuation_frame [3])]) \<and>
    data_frames ys = [text_frame [1, 2, 3]]"
proof (rule fragment_reassemble [where n = 2 and ?t0.0 = 10])
  show "into_fragments (text_frame [1, 2, 3]) 2
    = Some [frame_new False Text None [1, 2], continuation_frame [3]]"
    by (simp add: into_fragments_eq rest_fragments.simps text_frame_def frame_new_def continuation_frame_def)
qed (simp_all add: frame_simps fragment_layer_new_def on_time_def)

text \<open>
  The invariant of the layer: whatever frames arrive, the byte count the limits
  are checked against is the length of the buffer, so the capacity reported to the
  decompressor is what the limit leaves.
\<close>

lemma remaining_capacity_exact:
  assumes "assemble_all fs (fragment_layer_new sz limit timeout) = (ms, e, l)"
  shows "remaining_read_capacity l =
    limit - (if incoming_fragment l = None then 0 else length (incoming_buffer l))"
proof -
  have "layer_ok l" using assemble_all_ok [OF layer_ok_new assms] .
  moreover have "max_read_buffer l = max_read_buffer (fragment_layer_new sz limit timeout)"
    using assemble_all_limit [OF assms] .
  ultimately show ?thesis
    by (auto simp: remaining_read_capacity_def layer_ok_def fragment_layer_new_def split: option.splits)
qed

text \<open>
  C37. Automatic fragmentation splits control frames too: a ping or close longer
  than the fragment size leaves as a non-final control frame, which the decoder of
  the peer (either role) rejects.
\<close>

theorem fragmented_control_rejected:
  assumes "is_control (opcode f)" "fin f" "fragment_size l = Some n" "0 < n" "n < length (payload f)"
  shows "\<exists>g gs. fragment_outgoing f l = Finished (l\<lparr>outgoing_fragments := outgoing_fragments l @ g # gs\<rparr>) \<and>
    fst (decode hw (decoder_new peer limit) (wire (outgoing r rl g) @ rest)) = Failure ControlFrameFragmented"
proof -
  let ?g = "frame_new False (opcode f) (mask_key f) (take n (payload f))"
  let ?h = "outgoing r rl ?g" and ?d = "decoder_new peer limit"
  have h: "fin ?h = False" "opcode ?h = opcode f" "length (payload ?h) = n"
    using assms by (auto simp: outgoing_def set_random_mask_if_not_set_def frame_new_def)
  have "fst (decode hw ?d (wire ?h @ rest)) = Failure ControlFrameFragmented"
    using decode_wire_body [of ?d hw ?h rest] h assms by (simp add: decoder_new_def decode_body_complete Let_def)
  moreover have "fragment_outgoing f l = Finished (l\<lparr>outgoing_fragments := outgoing_fragments l @ ?g #
      rest_fragments n (f\<lparr>payload := drop n (payload f)\<rparr>)\<rparr>)"
    using assms by (simp add: fragment_outgoing_def into_fragments_eq)
  ultimately show ?thesis by blast
qed

theorem fragmented_control_rejected_witness:
  "\<exists>g gs. fragment_outgoing (ping_frame [1, 2, 3]) (fragment_layer_new (Some 2) 100 None)
      = Finished ((fragment_layer_new (Some 2) 100 None)\<lparr>outgoing_fragments :=
          outgoing_fragments (fragment_layer_new (Some 2) 100 None) @ g # gs\<rparr>) \<and>
    fst (decode \<lparr>hw_arch = X86 True, hw_addr = 0\<rparr> (decoder_new Server 1000)
      (wire (outgoing (1, 2, 3, 4) Client g) @ [])) = Failure ControlFrameFragmented"
  by (rule fragmented_control_rejected [where n = 2])
    (simp_all add: ping_frame_def fragment_layer_new_def)

end
