(* ===== verification/Transport.thy ===== *)
theory Transport
  imports Codec
begin

text \<open>
  The framed transport below a connection.  The crate uses \<open>tokio_util::Framed\<close>
  through the traits \<open>Stream\<close> and \<open>Sink\<close> of the futures crate, and looks at the length
  of its two buffers and at its backpressure boundary; it is a parameter of the
  model, a record of these functions on an abstract state.  Replacing a buffer by one
  of another capacity (\<open>set_capacity\<close>) keeps its contents; only the capacity, which
  the model has no other use for, changes.

  The contract the connection relies on is the locale \<open>frame_sink\<close>: what is handed
  to \<open>start_send\<close> is appended to what was sent before, and no other call changes it.
  An in-memory transport over the codec of this crate, with the read and write loop
  that \<open>Framed\<close> documents, shows that the contract can be met.
\<close>

section \<open>The interface\<close>

type_synonym 'a res = "ws_error + 'a"

record 's transport =
  tr_next :: "'s \<Rightarrow> frame res option poll \<times> 's"
  tr_ready :: "'s \<Rightarrow> unit res poll \<times> 's"
  tr_send :: "frame \<Rightarrow> 's \<Rightarrow> unit res \<times> 's"
  tr_flush :: "'s \<Rightarrow> unit res poll \<times> 's"
  tr_close :: "'s \<Rightarrow> unit res poll \<times> 's"
  tr_read_len :: "'s \<Rightarrow> nat"
  tr_write_len :: "'s \<Rightarrow> nat"
  tr_boundary :: "'s \<Rightarrow> nat"
  tr_resize_read :: "nat \<Rightarrow> 's \<Rightarrow> 's"
  tr_resize_write :: "nat \<Rightarrow> 's \<Rightarrow> 's"

locale frame_sink =
  fixes tr :: "'s transport" and sent :: "'s \<Rightarrow> frame list"
  assumes next_sent: "tr_next tr s = (r, s') \<Longrightarrow> sent s' = sent s"
    and ready_sent: "tr_ready tr s = (r', s') \<Longrightarrow> sent s' = sent s"
    and send_ok: "tr_send tr f s = (Ok u, s') \<Longrightarrow> sent s' = sent s @ [f]"
    and send_err: "tr_send tr f s = (Err e, s') \<Longrightarrow> sent s' = sent s"
    and flush_sent: "tr_flush tr s = (r', s') \<Longrightarrow> sent s' = sent s"
    and close_sent: "tr_close tr s = (r', s') \<Longrightarrow> sent s' = sent s"
    and resize_sent: "sent (tr_resize_read tr n s) = sent s" "sent (tr_resize_write tr n s) = sent s"
begin

lemma send_sent:
  "tr_send tr f s = (r, s') \<Longrightarrow> sent s' = sent s @ (if is_ok r then [f] else [])"
  by (cases r) (auto dest: send_ok send_err)

end

section \<open>An in-memory transport\<close>

text \<open>
  \<open>fr_input\<close> are the reads the socket will return, then end of file or nothing yet;
  \<open>fr_write\<close> is the write buffer and \<open>fr_out\<close> what reached the socket; \<open>fr_log\<close> are
  the frames encoded so far; \<open>fr_random\<close> supplies the random masks.
\<close>

record framed =
  fr_hw :: hardware
  fr_codec :: codec
  fr_read :: bytes
  fr_input :: "bytes list"
  fr_eof :: bool
  fr_write :: bytes
  fr_out :: bytes
  fr_log :: "frame list"
  fr_random :: "nat \<Rightarrow> mask4"
  fr_boundary :: nat

fun framed_next :: "bytes list \<Rightarrow> framed \<Rightarrow> frame res option poll \<times> framed" where
  "framed_next input s =
    (case codec_decode (fr_hw s) (fr_codec s) (fr_read s) of
       (Item f, c, buf) \<Rightarrow> (Ready (Some (Ok f)), s\<lparr>fr_codec := c, fr_read := buf, fr_input := input\<rparr>)
     | (Failure e, c, buf) \<Rightarrow> (Ready (Some (Err e)), s\<lparr>fr_codec := c, fr_read := buf, fr_input := input\<rparr>)
     | (_, c, buf) \<Rightarrow>
         (case input of
            chunk # rest \<Rightarrow> framed_next rest (s\<lparr>fr_codec := c, fr_read := buf @ chunk\<rparr>)
          | [] \<Rightarrow>
              ((if \<not> fr_eof s then Pending
                else if buf = [] then Ready None
                else Ready (Some (Err (IoError (Io_Error OtherKind ''bytes remaining on stream''))))),
               s\<lparr>fr_codec := c, fr_read := buf, fr_input := []\<rparr>)))"

declare framed_next.simps [simp del]

definition framed_flush :: "framed \<Rightarrow> unit res poll \<times> framed" where
  "framed_flush s = (Ready (Ok ()), s\<lparr>fr_out := fr_out s @ fr_write s, fr_write := []\<rparr>)"

definition framed_ready :: "framed \<Rightarrow> unit res poll \<times> framed" where
  "framed_ready s = (if length (fr_write s) \<ge> fr_boundary s then framed_flush s else (Ready (Ok ()), s))"

definition framed_send :: "frame \<Rightarrow> framed \<Rightarrow> unit res \<times> framed" where
  "framed_send f s =
    (case codec_encode (fr_hw s) (\<lambda>_. 0) (fr_random s (length (fr_log s))) (fr_codec s) f (fr_write s) of
       Some buf \<Rightarrow> (Ok (), s\<lparr>fr_write := buf, fr_log := fr_log s @ [f]\<rparr>)
     | None \<Rightarrow> (Err (IoError (Io_Error OtherKind ''encode'')), s))"

definition framed_transport :: "framed transport" where
  "framed_transport =
    \<lparr>tr_next = (\<lambda>s. framed_next (fr_input s) s), tr_ready = framed_ready, tr_send = framed_send,
     tr_flush = framed_flush, tr_close = framed_flush,
     tr_read_len = (\<lambda>s. length (fr_read s)), tr_write_len = (\<lambda>s. length (fr_write s)),
     tr_boundary = fr_boundary, tr_resize_read = (\<lambda>n s. s), tr_resize_write = (\<lambda>n s. s)\<rparr>"

lemma framed_next_log:
  "framed_next input s = (r, s') \<Longrightarrow>
    fr_log s' = fr_log s \<and> fr_out s' = fr_out s \<and> fr_write s' = fr_write s \<and>
    fr_random s' = fr_random s \<and> codec_role (fr_codec s') = codec_role (fr_codec s)"
proof (induction input arbitrary: s)
  case Nil
  then show ?case
    by (auto simp: framed_next.simps [of "[]"] codec_decode_def split: prod.splits decoded.splits)
next
  case (Cons chunk input)
  obtain q c buf where d: "codec_decode (fr_hw s) (fr_codec s) (fr_read s) = (q, c, buf)"
    by (metis prod_cases3)
  have role: "codec_role c = codec_role (fr_codec s)"
    using d by (auto simp: codec_decode_def split: prod.splits)
  show ?case
    using Cons.prems Cons.IH [of "s\<lparr>fr_codec := c, fr_read := buf @ chunk\<rparr>"] role d
    by (cases q) (auto simp: framed_next.simps [of "chunk # input"])
qed

text \<open>The bytes written are the frames encoded, in order.\<close>

definition framed_bytes :: "framed \<Rightarrow> bytes" where
  "framed_bytes s = fr_out s @ fr_write s"

definition framed_ok :: "framed \<Rightarrow> bool" where
  "framed_ok s \<longleftrightarrow> framed_bytes s =
     concat (map (\<lambda>(i, f). wire (outgoing (fr_random s i) (codec_role (fr_codec s)) f))
       (enumerate 0 (fr_log s)))"

lemma framed_send_ok:
  "framed_ok s \<Longrightarrow> framed_send f s = (r, s') \<Longrightarrow> framed_ok s' \<and> r = Ok ()"
  by (auto simp: framed_ok_def framed_bytes_def framed_send_def codec_encode_def encode_wire
      enumerate_append_eq)

interpretation framed: frame_sink framed_transport fr_log
proof unfold_locales
qed (auto simp: framed_transport_def framed_ready_def framed_flush_def framed_send_def
    split: option.splits if_splits dest!: framed_next_log)

end
