(* ===== verification/Net.thy ===== *)
theory Net
  imports Fragment Transport
begin

text \<open>
  What the handshakes use of the network: URLs as the url crate parsed them, addresses,
  and byte streams.  A byte stream is a parameter, the record \<open>io_stream\<close> of the three
  calls the crate awaits (\<open>write_all\<close>, \<open>flush\<close>, \<open>read_exact\<close>); its contracts are the
  locales \<open>byte_stream\<close> and \<open>reliable_stream\<close>.
\<close>

section \<open>Addresses\<close>

type_synonym ipv4 = "32 word"
type_synonym ipv6 = "128 word"

datatype ip_addr = IpV4 ipv4 | IpV6 ipv6

datatype socket_addr = SockV4 ipv4 u16 | SockV6 ipv6 u16

fun addr_is_ipv4 :: "socket_addr \<Rightarrow> bool" where
  "addr_is_ipv4 (SockV4 _ _) = True"
| "addr_is_ipv4 (SockV6 _ _) = False"

fun ip_is_ipv4 :: "ip_addr \<Rightarrow> bool" where
  "ip_is_ipv4 (IpV4 _) = True"
| "ip_is_ipv4 (IpV6 _) = False"

fun sock_of :: "ip_addr \<Rightarrow> u16 \<Rightarrow> socket_addr" where
  "sock_of (IpV4 ip) port = SockV4 ip port"
| "sock_of (IpV6 ip) port = SockV6 ip port"

section \<open>URLs\<close>

text \<open>
  \<open>url::Host\<close>, and what the crate reads of a \<open>Url\<close>: \<open>u_known_port\<close> is
  \<open>port_or_known_default\<close>, \<open>u_before_path\<close> the text from \<open>Position::BeforePath\<close> on and
  \<open>u_path_query\<close> the text from there to \<open>Position::AfterQuery\<close>.
\<close>

datatype host = Host_Domain string | Host_Ipv4 ipv4 | Host_Ipv6 ipv6

record url =
  u_scheme :: string
  u_host :: "host option"
  u_port :: "u16 option"
  u_known_port :: "u16 option"
  u_username :: string
  u_password :: "string option"
  u_path :: string
  u_query :: "string option"
  u_fragment :: "string option"

definition u_path_query :: "url \<Rightarrow> string" where
  "u_path_query u = u_path u @ (case u_query u of None \<Rightarrow> [] | Some q \<Rightarrow> ''?'' @ q)"

definition u_before_path :: "url \<Rightarrow> string" where
  "u_before_path u = u_path_query u @ (case u_fragment u of None \<Rightarrow> [] | Some f \<Rightarrow> ''#'' @ f)"

text \<open>The url crate: \<open>http\<close>, \<open>https\<close>, \<open>ws\<close> and \<open>wss\<close> URLs have a host and a known port.\<close>

definition web_scheme :: "string \<Rightarrow> bool" where
  "web_scheme s \<longleftrightarrow> s \<in> {''ws'', ''wss'', ''http'', ''https''}"

definition url_ok :: "url \<Rightarrow> bool" where
  "url_ok u \<longleftrightarrow> (web_scheme (u_scheme u) \<longrightarrow> u_host u \<noteq> None \<and> u_known_port u \<noteq> None)"

section \<open>Byte streams\<close>

record 's io_stream =
  st_write :: "bytes \<Rightarrow> 's \<Rightarrow> (io_error + unit) \<times> 's"
  st_flush :: "'s \<Rightarrow> (io_error + unit) \<times> 's"
  st_read :: "nat \<Rightarrow> 's \<Rightarrow> (io_error + bytes) \<times> 's"

text \<open>\<open>?\<close> on the outcome of an awaited call, and the conversion from an I/O error it applies.\<close>

definition andthen :: "('s \<Rightarrow> ('e + 'a) \<times> 's) \<Rightarrow> ('a \<Rightarrow> 's \<Rightarrow> ('e + 'b) \<times> 's) \<Rightarrow> 's \<Rightarrow> ('e + 'b) \<times> 's" where
  "andthen m f s = (case m s of (Err e, s) \<Rightarrow> (Err e, s) | (Ok a, s) \<Rightarrow> f a s)"

definition lift_io :: "('s \<Rightarrow> (io_error + 'a) \<times> 's) \<Rightarrow> 's \<Rightarrow> 'a res \<times> 's" where
  "lift_io m s = (case m s of (Err e, s) \<Rightarrow> (Err (IoError e), s) | (Ok a, s) \<Rightarrow> (Ok a, s))"

definition fail :: "socks5_error \<Rightarrow> 's \<Rightarrow> 'a res \<times> 's" where
  "fail e s = (Err (Socks5 e), s)"

definition give :: "'a \<Rightarrow> 's \<Rightarrow> 'a res \<times> 's" where
  "give a s = (Ok a, s)"

text \<open>A stream after a step that used it; a failed step drops it.\<close>

definition handed :: "('s \<Rightarrow> 'a res \<times> 's) \<Rightarrow> 's \<Rightarrow> 'w \<Rightarrow> 's res \<times> 'w" where
  "handed f s w = (case f s of (Err e, _) \<Rightarrow> (Err e, w) | (Ok _, s) \<Rightarrow> (Ok s, w))"

named_theorems ok_iff \<open>what a successful call implies\<close>

lemma andthen_ok [ok_iff]:
  "andthen m f s = (Ok b, s') \<longleftrightarrow> (\<exists>a s1. m s = (Ok a, s1) \<and> f a s1 = (Ok b, s'))"
  by (auto simp: andthen_def split: prod.splits sum.splits)

lemma lift_io_ok [ok_iff]: "lift_io m s = (Ok a, s') \<longleftrightarrow> m s = (Ok a, s')"
  by (auto simp: lift_io_def split: prod.splits sum.splits)

lemma fail_ok [ok_iff]: "fail e s = (Ok a, s') \<longleftrightarrow> False"
  by (simp add: fail_def)

lemma give_ok [ok_iff]: "give a s = (Ok b, s') \<longleftrightarrow> b = a \<and> s' = s"
  by (auto simp: give_def)

lemma handed_ok [ok_iff]: "handed f s w = (Ok s', w') \<longleftrightarrow> (\<exists>a. f s = (Ok a, s')) \<and> w' = w"
  by (auto simp: handed_def split: prod.splits sum.splits)

locale byte_stream =
  fixes st :: "'s io_stream" and unread :: "'s \<Rightarrow> bytes" and written :: "'s \<Rightarrow> bytes"
  assumes write_ok: "st_write st bs s = (Ok u, s') \<Longrightarrow> written s' = written s @ bs \<and> unread s' = unread s"
    and flush_ok: "st_flush st s = (Ok u, s') \<Longrightarrow> written s' = written s \<and> unread s' = unread s"
    and read_ok: "st_read st n s = (Ok bs, s') \<Longrightarrow>
      unread s = bs @ unread s' \<and> length bs = n \<and> written s' = written s"

locale reliable_stream = byte_stream +
  assumes write_total: "\<exists>s'. st_write st bs s = (Ok (), s')"
    and flush_total: "\<exists>s'. st_flush st s = (Ok (), s')"
    and read_total: "n \<le> length (unread s) \<Longrightarrow> \<exists>bs s'. st_read st n s = (Ok bs, s')"
begin

lemma write_runs: "\<exists>s'. st_write st bs s = (Ok (), s') \<and> written s' = written s @ bs \<and> unread s' = unread s"
  using write_total [of bs s] write_ok by blast

lemma flush_runs: "\<exists>s'. st_flush st s = (Ok (), s') \<and> written s' = written s \<and> unread s' = unread s"
  using flush_total [of s] flush_ok by blast

lemma read_runs:
  assumes "unread s = bs @ rest" "length bs = n"
  shows "\<exists>s'. st_read st n s = (Ok bs, s') \<and> unread s' = rest \<and> written s' = written s"
proof -
  obtain cs s' where r: "st_read st n s = (Ok cs, s')" using read_total [of n s] assms by auto
  then have "bs @ rest = cs @ unread s'" "length cs = length bs" "written s' = written s"
    using read_ok [OF r] assms by auto
  then show ?thesis using r by auto
qed

end

section \<open>Sockets\<close>

text \<open>
  The operating system below the crate: resolving a name, connecting, and the steps of
  \<open>TcpSocket\<close>.  It is a parameter, a record of calls on the state \<open>'w\<close> of the world;
  a socket is \<open>'k\<close> and an open stream \<open>'s\<close>.  What \<open>ToSocketAddrs\<close> is called with is a
  name with a port, or an address.
\<close>

datatype sock_target = To_Name string u16 | To_Addr socket_addr

record ('w, 'k, 's) network =
  nw_lookup :: "sock_target \<Rightarrow> 'w \<Rightarrow> (io_error + socket_addr list) \<times> 'w"
  nw_connect :: "sock_target \<Rightarrow> 'w \<Rightarrow> (io_error + 's) \<times> 'w"
  nw_socket :: "bool \<Rightarrow> 'w \<Rightarrow> (io_error + 'k) \<times> 'w"
  nw_bind :: "'k \<Rightarrow> socket_addr \<Rightarrow> 'w \<Rightarrow> (io_error + 'k) \<times> 'w"
  nw_socket_connect :: "'k \<Rightarrow> socket_addr \<Rightarrow> 'w \<Rightarrow> (io_error + 's) \<times> 'w"

text \<open>
  \<open>connect_tcp\<close> (\<open>native/mod.rs\<close>): with a local address, the resolved addresses of its kind
  are tried in turn, and the last failure is reported.
\<close>

fun connect_each :: "('w, 'k, 's) network \<Rightarrow> ip_addr \<Rightarrow> socket_addr list \<Rightarrow> io_error \<Rightarrow> 'w \<Rightarrow>
    (io_error + 's) \<times> 'w" where
  "connect_each nw local [] e w = (Err e, w)"
| "connect_each nw local (remote # remotes) e w =
    andthen (nw_socket nw (ip_is_ipv4 local)) (\<lambda>k.
    andthen (nw_bind nw k (sock_of local 0)) (\<lambda>k w.
      case nw_socket_connect nw k remote w of
        (Ok s, w) \<Rightarrow> (Ok s, w)
      | (Err e, w) \<Rightarrow> connect_each nw local remotes e w)) w"

definition connect_tcp :: "('w, 'k, 's) network \<Rightarrow> ip_addr option \<Rightarrow> sock_target \<Rightarrow> 'w \<Rightarrow>
    (io_error + 's) \<times> 'w" where
  "connect_tcp nw local_address tgt =
    (case local_address of
       None \<Rightarrow> nw_connect nw tgt
     | Some local \<Rightarrow>
         andthen (nw_lookup nw tgt) (\<lambda>remotes.
           connect_each nw local (filter (\<lambda>r. addr_is_ipv4 r = ip_is_ipv4 local) remotes)
             (Io_Error AddrNotAvailable (''no address of the local address'' @ [CHR 0x27] @ ''s kind''))))"

text \<open>
  Bound to a local address, the crate only ever connects from a socket that is bound to
  that address, and to addresses of its kind: whatever the resolver answers, a property
  of the world that such calls keep is kept.
\<close>

lemma connect_each_keeps:
  assumes socket: "\<And>w r w'. I w \<Longrightarrow> nw_socket nw (ip_is_ipv4 local) w = (r, w') \<Longrightarrow> I w' \<and> (\<forall>k. r = Ok k \<longrightarrow> fresh k)"
    and bind: "\<And>k w r w'. I w \<Longrightarrow> fresh k \<Longrightarrow> nw_bind nw k (sock_of local 0) w = (r, w') \<Longrightarrow>
      I w' \<and> (\<forall>k. r = Ok k \<longrightarrow> bound k)"
    and conn: "\<And>k a w r w'. I w \<Longrightarrow> bound k \<Longrightarrow> addr_is_ipv4 a = ip_is_ipv4 local \<Longrightarrow>
      nw_socket_connect nw k a w = (r, w') \<Longrightarrow> I w'"
  shows "I w \<Longrightarrow> list_all (\<lambda>r. addr_is_ipv4 r = ip_is_ipv4 local) remotes \<Longrightarrow>
    connect_each nw local remotes e w = (r, w') \<Longrightarrow> I w'"
proof (induction remotes arbitrary: e w)
  case (Cons remote remotes)
  obtain r1 w1 where s1: "nw_socket nw (ip_is_ipv4 local) w = (r1, w1)" by fastforce
  show ?case
  proof (cases r1)
    case (Inl e1)
    then show ?thesis using Cons.prems s1 socket [OF Cons.prems(1) s1] by (simp add: andthen_def)
  next
    case (Inr k)
    obtain r2 w2 where s2: "nw_bind nw k (sock_of local 0) w1 = (r2, w2)" by fastforce
    have w1: "I w1" "fresh k" using socket [OF Cons.prems(1) s1] Inr by auto
    note w2 = bind [OF w1 s2]
    show ?thesis
    proof (cases r2)
      case Err: (Inl e2)
      then show ?thesis using Cons.prems s1 s2 w2 Inr by (simp add: andthen_def)
    next
      case Ok: (Inr k2)
      obtain r3 w3 where s3: "nw_socket_connect nw k2 remote w2 = (r3, w3)" by fastforce
      have w3: "I w3" using conn [OF _ _ _ s3] w2 Ok Cons.prems(2) by simp
      show ?thesis using Cons.IH [OF w3] Cons.prems s1 s2 s3 w3 Inr Ok
        by (cases r3) (simp_all add: andthen_def)
    qed
  qed
qed simp

text \<open>A stream in memory: the bytes the peer will send and the bytes written to it.\<close>

record mem_stream =
  ms_in :: bytes
  ms_out :: bytes

definition mem_io :: "mem_stream io_stream" where
  "mem_io = \<lparr>st_write = (\<lambda>bs s. (Ok (), s\<lparr>ms_out := ms_out s @ bs\<rparr>)), st_flush = (\<lambda>s. (Ok (), s)),
     st_read = (\<lambda>n s. if n \<le> length (ms_in s) then (Ok (take n (ms_in s)), s\<lparr>ms_in := drop n (ms_in s)\<rparr>)
       else (Err (Io_Error UnexpectedEof ''early eof''), s\<lparr>ms_in := []\<rparr>))\<rparr>"

interpretation mem: reliable_stream mem_io ms_in ms_out
  by unfold_locales (auto simp: mem_io_def split: if_splits)

end
