(* ===== verification/Split_Half.thy ===== *)
theory Split_Half
  imports Transport
begin

text \<open>
  The two halves of a connection (\<open>src/native/split.rs\<close>): \<open>ReadHalf\<close> with its
  closed flag and the tracking of compressed messages, \<open>WriteHalf\<close> with the state
  machine of the close handshake.  Both work on a transport given at each call.
\<close>

section \<open>Reading\<close>

record read_half =
  compressed_stream :: bool
  is_closed :: bool

definition read_half_new :: read_half where
  "read_half_new = \<lparr>compressed_stream = False, is_closed = False\<rparr>"

text \<open>What \<open>poll_frame\<close> does with a frame.\<close>

definition on_incoming :: "frame \<Rightarrow> read_half \<Rightarrow> frame \<times> read_half" where
  "on_incoming f rh =
    (let f = f\<lparr>mask_key := None\<rparr>;
         rh = (if opcode f = Close then rh\<lparr>is_closed := True\<rparr> else rh);
         f = f\<lparr>is_compressed := is_compressed f \<or> (\<not> is_control (opcode f) \<and> compressed_stream rh)\<rparr>;
         rh = (if (opcode f = Text \<or> opcode f = Binary) \<and> \<not> fin f \<and> is_compressed f
               then rh\<lparr>compressed_stream := True\<rparr> else rh);
         rh = (if opcode f = Continuation \<and> fin f then rh\<lparr>compressed_stream := False\<rparr> else rh)
     in (f, rh))"

definition poll_frame ::
  "'s transport \<Rightarrow> read_half \<Rightarrow> 's \<Rightarrow> frame res poll \<times> read_half \<times> 's"
where
  "poll_frame tr rh s =
    (if is_closed rh then (Ready (Err ConnectionClosed), rh, s)
     else case tr_next tr s of
       (Pending, s) \<Rightarrow> (Pending, rh, s)
     | (Ready None, s) \<Rightarrow> (Ready (Err ConnectionClosed), rh\<lparr>is_closed := True\<rparr>, s)
     | (Ready (Some (Err e)), s) \<Rightarrow> (Ready (Err e), rh, s)
     | (Ready (Some (Ok f)), s) \<Rightarrow>
         (case on_incoming f rh of (f, rh) \<Rightarrow> (Ready (Ok f), rh, s)))"

section \<open>Writing\<close>

datatype close_state = Sending frame | Flushing | Closing | Done

record write_half =
  streaming :: bool
  close_state :: "close_state option"

definition write_half_new :: write_half where
  "write_half_new = \<lparr>streaming = False, close_state = None\<rparr>"

definition wh_poll_ready ::
  "'s transport \<Rightarrow> write_half \<Rightarrow> 's \<Rightarrow> unit res poll \<times> 's"
where
  "wh_poll_ready tr wh s =
    (if close_state wh = Some Done then (Ready (Err ConnectionClosed), s) else tr_ready tr s)"

definition wh_start_send ::
  "'s transport \<Rightarrow> frame \<Rightarrow> write_half \<Rightarrow> 's \<Rightarrow> unit res \<times> write_half \<times> 's"
where
  "wh_start_send tr f wh s =
    (let wh = (if opcode f = Close then wh\<lparr>close_state := Some Flushing\<rparr> else wh);
         wh = (if \<not> is_control (opcode f) then wh\<lparr>streaming := \<not> fin f\<rparr> else wh)
     in case tr_send tr f s of (r, s) \<Rightarrow> (r, wh, s))"

definition wh_poll_flush :: "'s transport \<Rightarrow> 's \<Rightarrow> unit res poll \<times> 's" where
  "wh_poll_flush tr s = tr_flush tr s"

text \<open>The steps a close still has to take; the loop of \<open>poll_close\<close> decreases it.\<close>

fun close_rank :: "close_state option \<Rightarrow> nat" where
  "close_rank None = 4"
| "close_rank (Some (Sending _)) = 3"
| "close_rank (Some Flushing) = 2"
| "close_rank (Some Closing) = 1"
| "close_rank (Some Done) = 0"

function wh_poll_close ::
  "'s transport \<Rightarrow> write_half \<Rightarrow> 's \<Rightarrow> unit res poll \<times> write_half \<times> 's"
where
  "wh_poll_close tr wh s =
    (case close_state wh of
       None \<Rightarrow> wh_poll_close tr (wh\<lparr>close_state := Some (Sending (close_frame Normal []))\<rparr>) s
     | Some (Sending f) \<Rightarrow>
         (case tr_ready tr s of
            (Pending, s) \<Rightarrow> (Pending, wh, s)
          | (Ready _, s) \<Rightarrow>
              (case tr_send tr f s of
                 (Err e, s) \<Rightarrow> (Ready (Err e), wh\<lparr>close_state := None\<rparr>, s)
               | (Ok _, s) \<Rightarrow> wh_poll_close tr (wh\<lparr>close_state := Some Flushing\<rparr>) s))
     | Some Flushing \<Rightarrow>
         (case tr_flush tr s of
            (Pending, s) \<Rightarrow> (Pending, wh, s)
          | (Ready _, s) \<Rightarrow> wh_poll_close tr (wh\<lparr>close_state := Some Closing\<rparr>) s)
     | Some Closing \<Rightarrow>
         (case tr_close tr s of
            (Pending, s) \<Rightarrow> (Pending, wh, s)
          | (Ready _, s) \<Rightarrow> wh_poll_close tr (wh\<lparr>close_state := Some Done\<rparr>) s)
     | Some Done \<Rightarrow> (Ready (Ok ()), wh, s))"
  by pat_completeness auto
termination
  by (relation "measure (\<lambda>(tr, wh, s). close_rank (close_state wh))") auto

declare wh_poll_close.simps [simp del]

text \<open>
  \<open>send_frame\<close> as the state machine of its future: waiting for the sink, waiting
  for the flush, finished.
\<close>

datatype send_future = Await_Ready frame | Await_Flush | Send_Finished

definition poll_flush_send ::
  "'s transport \<Rightarrow> write_half \<Rightarrow> 's \<Rightarrow> unit res poll \<times> send_future \<times> write_half \<times> 's"
where
  "poll_flush_send tr wh s =
    (case wh_poll_flush tr s of
       (Pending, s) \<Rightarrow> (Pending, Await_Flush, wh, s)
     | (Ready r, s) \<Rightarrow> (Ready r, Send_Finished, wh, s))"

fun poll_send_frame ::
  "'s transport \<Rightarrow> send_future \<Rightarrow> write_half \<Rightarrow> 's \<Rightarrow> unit res poll \<times> send_future \<times> write_half \<times> 's"
where
  "poll_send_frame tr (Await_Ready f) wh s =
    (case wh_poll_ready tr wh s of
       (Pending, s) \<Rightarrow> (Pending, Await_Ready f, wh, s)
     | (Ready (Err e), s) \<Rightarrow> (Ready (Err e), Send_Finished, wh, s)
     | (Ready (Ok _), s) \<Rightarrow>
         (case wh_start_send tr f wh s of
            (Err e, wh, s) \<Rightarrow> (Ready (Err e), Send_Finished, wh, s)
          | (Ok _, wh, s) \<Rightarrow> poll_flush_send tr wh s))"
| "poll_send_frame tr Await_Flush wh s = poll_flush_send tr wh s"
| "poll_send_frame tr Send_Finished wh s = (Ready (Ok ()), Send_Finished, wh, s)"

section \<open>Closing\<close>

text \<open>Polling \<open>poll_close\<close> a number of times, up to the first error.\<close>

fun close_polls ::
  "nat \<Rightarrow> 's transport \<Rightarrow> write_half \<Rightarrow> 's \<Rightarrow> unit res poll \<times> write_half \<times> 's"
where
  "close_polls 0 tr wh s = (Pending, wh, s)"
| "close_polls (Suc n) tr wh s =
    (case wh_poll_close tr wh s of
       (Ready (Err e), wh, s) \<Rightarrow> (Ready (Err e), wh, s)
     | (Ready (Ok u), wh, s) \<Rightarrow> (Ready (Ok u), wh, s)
     | (Pending, wh, s) \<Rightarrow> close_polls n tr wh s)"

text \<open>The frame a state of the handshake has still to send.\<close>

fun unsent_close :: "close_state option \<Rightarrow> frame list" where
  "unsent_close None = [close_frame Normal []]"
| "unsent_close (Some (Sending f)) = [f]"
| "unsent_close _ = []"

context frame_sink
begin

text \<open>One poll: what is sent plus what is to be sent does not change, unless the send fails.\<close>

lemma poll_close_conserves:
  assumes "wh_poll_close tr wh s = (r, wh', s')"
  shows "if \<exists>e. r = Ready (Err e) then sent s' = sent s \<and> close_state wh' = None \<and> 3 \<le> close_rank (close_state wh)
         else sent s' @ unsent_close (close_state wh') = sent s @ unsent_close (close_state wh) \<and>
           (r = Ready (Ok ()) \<longleftrightarrow> close_state wh' = Some Done)"
  using assms
proof (induction "close_rank (close_state wh)" arbitrary: wh s rule: less_induct)
  case less
  note IH = less.hyps and step = less.prems [unfolded wh_poll_close.simps [of tr wh s]]
  show ?case
  proof (cases "close_state wh")
    case None
    then show ?thesis using step IH [of "wh\<lparr>close_state := Some (Sending (close_frame Normal []))\<rparr>" s] by simp
  next
    case (Some c)
    show ?thesis
    proof (cases c)
      case (Sending f)
      obtain q s1 where q: "tr_ready tr s = (q, s1)" by fastforce
      obtain p s2 where p: "tr_send tr f s1 = (p, s2)" by fastforce
      have "sent s2 = sent s @ (if is_ok p then [f] else [])"
        using send_sent [OF p] ready_sent [OF q] by simp
      then show ?thesis
        using step Some Sending q p ready_sent [OF q] IH [of "wh\<lparr>close_state := Some Flushing\<rparr>" s2]
        by (cases q; cases p) auto
    next
      case Flushing
      obtain q s1 where q: "tr_flush tr s = (q, s1)" by fastforce
      then show ?thesis
        using step Some Flushing flush_sent [OF q] IH [of "wh\<lparr>close_state := Some Closing\<rparr>" s1]
        by (cases q) auto
    next
      case Closing
      obtain q s1 where q: "tr_close tr s = (q, s1)" by fastforce
      then show ?thesis
        using step Some Closing close_sent [OF q] IH [of "wh\<lparr>close_state := Some Done\<rparr>" s1]
        by (cases q) auto
    next
      case Done
      then show ?thesis using step Some by auto
    qed
  qed
qed

lemma close_polls_conserves:
  assumes "close_polls n tr wh s = (r, wh', s')" "\<nexists>e. r = Ready (Err e)" "0 < n"
  shows "sent s' @ unsent_close (close_state wh') = sent s @ unsent_close (close_state wh) \<and>
    (r = Ready (Ok ()) \<longleftrightarrow> close_state wh' = Some Done)"
  using assms
proof (induction n arbitrary: wh s)
  case (Suc n)
  obtain q wh1 s1 where q: "wh_poll_close tr wh s = (q, wh1, s1)" by (metis prod_cases3)
  note one = poll_close_conserves [OF q]
  show ?case
  proof (cases q)
    case Pending
    then have one': "sent s1 @ unsent_close (close_state wh1) = sent s @ unsent_close (close_state wh)"
      "close_state wh1 \<noteq> Some Done" using one by auto
    show ?thesis
    proof (cases n)
      case 0
      then show ?thesis using Suc.prems q Pending one' by simp
    next
      case (Suc m)
      then show ?thesis using Suc.prems Suc.IH [of wh1 s1] q Pending one' by simp
    qed
  next
    case (Ready u)
    then show ?thesis using Suc.prems one q by (cases u) auto
  qed
qed simp

end

section \<open>Properties\<close>

text \<open>
  C27. The close handshake over any transport that keeps the sink contract: however
  often \<open>poll_close\<close> is polled, the Close frame (status 1000, no reason) is handed to
  the transport at most once, and it has been handed over by the time the close
  reports success; the report and the state \<open>Done\<close> come together.
\<close>

theorem close_sends_one_close:
  assumes "frame_sink tr sent" "close_state wh = None" "0 < n"
    and "close_polls n tr wh s = (r, wh', s')" "\<nexists>e. r = Ready (Err e)"
  shows "(sent s' = sent s \<or> sent s' = sent s @ [close_frame Normal []]) \<and>
    (r = Ready (Ok ()) \<longleftrightarrow> close_state wh' = Some Done) \<and>
    (r = Ready (Ok ()) \<longrightarrow> sent s' = sent s @ [close_frame Normal []])"
proof -
  have "sent s' @ unsent_close (close_state wh') = sent s @ unsent_close (close_state wh) \<and>
    (r = Ready (Ok ()) \<longleftrightarrow> close_state wh' = Some Done)"
    by (rule frame_sink.close_polls_conserves [OF assms(1,4,5,3)])
  then show ?thesis using assms(2)
    by (cases "close_state wh'" rule: unsent_close.cases) auto
qed

definition demo_framed :: framed where
  "demo_framed = \<lparr>fr_hw = \<lparr>hw_arch = X86 True, hw_addr = 0\<rparr>,
     fr_codec = codec_of (decoder_new Server 100, Server), fr_read = [], fr_input = [], fr_eof = False,
     fr_write = [], fr_out = [], fr_log = [], fr_random = (\<lambda>_. (0, 0, 0, 0)), fr_boundary = 8\<rparr>"

theorem close_sends_one_close_witness:
  "\<exists>wh' s'. close_polls 1 framed_transport write_half_new demo_framed = (Ready (Ok ()), wh', s') \<and>
    close_state wh' = Some Done \<and> fr_log s' = fr_log demo_framed @ [close_frame Normal []]"
proof -
  have "encode \<lparr>hw_arch = X86 True, hw_addr = 0\<rparr> (\<lambda>_. 0) (0, 0, 0, 0) Server (close_frame Normal []) []
      = Some [0x88, 2, 3, 0xE8]"
    by code_simp
  then have run: "close_polls 1 framed_transport write_half_new demo_framed
    = (Ready (Ok ()), \<lparr>streaming = False, close_state = Some Done\<rparr>,
       demo_framed\<lparr>fr_out := [0x88, 2, 3, 0xE8], fr_log := [close_frame Normal []]\<rparr>)"
    by (simp add: wh_poll_close.simps write_half_new_def framed_transport_def framed_ready_def
        framed_send_def framed_flush_def demo_framed_def codec_encode_def codec_of_def)
  show ?thesis
    using run close_sends_one_close [OF framed.frame_sink_axioms _ _ run]
    by (simp add: write_half_new_def)
qed

text \<open>Reading a sequence of frames.\<close>

fun read_all :: "frame list \<Rightarrow> read_half \<Rightarrow> frame list \<times> read_half" where
  "read_all [] rh = ([], rh)"
| "read_all (f # fs) rh =
    (case on_incoming f rh of (g, rh) \<Rightarrow> (case read_all fs rh of (gs, rh) \<Rightarrow> (g # gs, rh)))"

text \<open>The frame as \<open>poll_frame\<close> delivers it inside a message whose first frame has RSV1 = \<open>cmp\<close>.\<close>

definition delivered :: "bool \<Rightarrow> frame \<Rightarrow> frame" where
  "delivered cmp f =
    f\<lparr>mask_key := None, is_compressed := (if is_control (opcode f) then is_compressed f else cmp)\<rparr>"

lemma on_incoming_control:
  "is_control (opcode f) \<Longrightarrow>
   on_incoming f rh = (delivered cmp f, if opcode f = Close then rh\<lparr>is_closed := True\<rparr> else rh)"
  by (cases "opcode f") (simp_all add: on_incoming_def Let_def delivered_def)

lemma on_incoming_continuation:
  assumes "opcode f = Continuation" "\<not> is_compressed f"
  shows "on_incoming f rh = (delivered (compressed_stream rh) f,
    if fin f then rh\<lparr>compressed_stream := False\<rparr> else rh)"
  using assms by (simp add: on_incoming_def Let_def delivered_def)

lemma on_incoming_first:
  assumes "opcode f \<in> {Text, Binary}" "\<not> compressed_stream rh"
  shows "on_incoming f rh = (delivered (is_compressed f) f,
    if \<not> fin f then rh\<lparr>compressed_stream := is_compressed f\<rparr> else rh)"
  using assms by (cases rh) (auto simp: on_incoming_def Let_def delivered_def)

text \<open>Control frames leave the tracking of the message alone.\<close>

lemma read_all_controls:
  "data_frames fs = [] \<Longrightarrow> fst (read_all fs rh) = map (delivered cmp) fs \<and>
   compressed_stream (snd (read_all fs rh)) = compressed_stream rh"
proof (induction fs arbitrary: rh)
  case (Cons f fs)
  then have "is_control (opcode f)" "data_frames fs = []" by (auto split: if_splits)
  then show ?case using Cons.IH [of "if opcode f = Close then rh\<lparr>is_closed := True\<rparr> else rh"]
    by (auto simp: on_incoming_control [of f rh cmp] split: prod.splits)
qed simp

lemma read_all_rest:
  assumes "data_frames fs = gs" "gs \<noteq> []" "list_all (\<lambda>g. opcode g = Continuation \<and> \<not> is_compressed g) gs"
    "map fin gs = replicate (length gs - 1) False @ [True]"
  shows "fst (read_all fs rh) = map (delivered (compressed_stream rh)) fs \<and>
    \<not> compressed_stream (snd (read_all fs rh))"
  using assms
proof (induction fs arbitrary: gs rh)
  case (Cons f fs)
  show ?case
  proof (cases "is_control (opcode f)")
    case True
    then have "data_frames fs = gs" using Cons.prems(1) by simp
    then show ?thesis
      using Cons.IH [of gs "if opcode f = Close then rh\<lparr>is_closed := True\<rparr> else rh"] Cons.prems True
      by (auto simp: on_incoming_control [of f rh "compressed_stream rh"] split: prod.splits)
  next
    case False
    then obtain hs where gs: "gs = f # hs" and hs: "data_frames fs = hs"
      using Cons.prems(1) by auto
    have f: "opcode f = Continuation" "\<not> is_compressed f" using Cons.prems(3) gs by auto
    show ?thesis
    proof (cases "hs = []")
      case True
      then have "fin f" using Cons.prems(4) gs by simp
      then show ?thesis
        using read_all_controls [of fs "rh\<lparr>compressed_stream := False\<rparr>" "compressed_stream rh"] hs True
        by (auto simp: on_incoming_continuation [OF f] split: prod.splits)
    next
      case more: False
      then have "\<not> fin f" "map fin hs = replicate (length hs - 1) False @ [True]"
        using Cons.prems(4) gs by (cases hs; simp)+
      then show ?thesis using Cons.IH [of hs rh] hs more Cons.prems(3) gs
        by (auto simp: on_incoming_continuation [OF f] split: prod.splits)
    qed
  qed
qed simp

text \<open>
  RSV1 belongs to the message: every data frame of a fragmented message is
  delivered with the compression flag of its first frame, whatever control frames
  come in between (which keep their own flag), no mask is left on any of them, and
  the next message starts untainted.
\<close>

lemma compressed_message_flags:
  assumes "data_frames fs = g # gs" "opcode g \<in> {Text, Binary}" "\<not> fin g" "gs \<noteq> []"
    and "list_all (\<lambda>h. opcode h = Continuation \<and> \<not> is_compressed h) gs"
    and "map fin gs = replicate (length gs - 1) False @ [True]"
    and "\<not> compressed_stream rh"
  shows "fst (read_all fs rh) = map (delivered (is_compressed g)) fs \<and>
    \<not> compressed_stream (snd (read_all fs rh))"
  using assms(1,7)
proof (induction fs arbitrary: rh)
  case (Cons f fs)
  show ?case
  proof (cases "is_control (opcode f)")
    case True
    then show ?thesis
      using Cons.IH [of "if opcode f = Close then rh\<lparr>is_closed := True\<rparr> else rh"] Cons.prems
      by (auto simp: on_incoming_control [of f rh "is_compressed g"] split: prod.splits)
  next
    case False
    then have f: "f = g" and fs: "data_frames fs = gs" using Cons.prems(1) by auto
    show ?thesis
      using read_all_rest [OF fs assms(4,5,6), of "rh\<lparr>compressed_stream := is_compressed g\<rparr>"] assms(3)
      by (auto simp: f on_incoming_first [OF assms(2) Cons.prems(2)] split: prod.splits)
  qed
qed simp

text \<open>
  Closed is final: once \<open>poll_frame\<close> has delivered a Close frame or reported the
  end of the stream, every later poll reports \<open>ConnectionClosed\<close> and does not touch
  the transport.
\<close>

lemma read_closed_final:
  assumes "poll_frame tr rh s = (Ready r, rh', s')"
    and "r = Err ConnectionClosed \<and> (\<forall>t. tr_next tr s \<noteq> (Ready (Some (Err ConnectionClosed)), t))
         \<or> (\<exists>f. r = Ok f \<and> opcode f = Close)"
  shows "poll_frame tr' rh' t = (Ready (Err ConnectionClosed), rh', t)"
proof -
  have "is_closed rh'"
    using assms
    by (auto simp: poll_frame_def on_incoming_def Let_def split: if_splits prod.splits poll.splits
        option.splits sum.splits)
  then show ?thesis by (simp add: poll_frame_def)
qed

end
