(* ===== verification/Wake_Proxy.thy ===== *)
theory Wake_Proxy
  imports Prelude
begin

text \<open>
  The waker proxy of a connection (\<open>WakeProxy\<close> in \<open>src/native/mod.rs\<close>): it keeps one
  waker for reading and one for writing, and wakes both when the transport wakes it.
  A waker is the number of the task it wakes.
\<close>

datatype context_kind = Read | Write

record wake_proxy =
  read_waker :: "nat option"
  write_waker :: "nat option"

definition wake_proxy_default :: wake_proxy where
  "wake_proxy_default = \<lparr>read_waker = None, write_waker = None\<rparr>"

text \<open>\<open>wake_by_ref\<close>: the tasks woken, in order, and both slots emptied.\<close>

definition wake_by_ref :: "wake_proxy \<Rightarrow> nat list \<times> wake_proxy" where
  "wake_by_ref p =
    ((case (read_waker p, write_waker p) of
        (Some r, Some w) \<Rightarrow> (if r \<noteq> w then [w] else []) @ [r]
      | (Some r, None) \<Rightarrow> [r]
      | (None, Some w) \<Rightarrow> [w]
      | (None, None) \<Rightarrow> []),
     \<lparr>read_waker = None, write_waker = None\<rparr>)"

definition set_waker :: "context_kind \<Rightarrow> nat \<Rightarrow> wake_proxy \<Rightarrow> wake_proxy" where
  "set_waker k w p = (case k of Read \<Rightarrow> p\<lparr>read_waker := Some w\<rparr> | Write \<Rightarrow> p\<lparr>write_waker := Some w\<rparr>)"

text \<open>
  \<open>poll_with_context\<close>: poll; when that is pending, register the waker and poll
  again, so that a wake between the first poll and the registration is not lost.
\<close>

definition poll_with_context ::
  "context_kind \<Rightarrow> nat \<Rightarrow> ('s \<Rightarrow> 'a poll \<times> 's) \<Rightarrow> wake_proxy \<Rightarrow> 's \<Rightarrow> 'a poll \<times> wake_proxy \<times> 's"
where
  "poll_with_context k w f p s =
    (case f s of
       (Ready v, s) \<Rightarrow> (Ready v, p, s)
     | (Pending, s) \<Rightarrow> (case f s of (r, s) \<Rightarrow> (r, set_waker k w p, s)))"

text \<open>What one poll keeps, the double poll keeps.\<close>

lemma poll_with_context_cases:
  assumes "poll_with_context k w f p s = (r, p', s')"
  obtains (once) v where "f s = (Ready v, s')" "r = Ready v" "p' = p"
  | (twice) s1 where "f s = (Pending, s1)" "f s1 = (r, s')" "p' = set_waker k w p"
  using assms by (auto simp: poll_with_context_def split: prod.splits poll.splits)



end
