(* ===== verification/Streaming.thy ===== *)
theory Streaming
  imports Split_Half Wake_Proxy
begin

text \<open>
  The streaming connection (\<open>src/native/streaming.rs\<close>): frames over a framed
  transport with compression, automatic replies to Ping and Close, and a Close with
  the right status code when reading fails.

  The transport is the record of \<open>Transport\<close>; the compressor and the decompressor
  (\<open>src/compression.rs\<close>, over flate2) are functions on abstract states.  The waker of
  the calling task is an argument of every poll.
\<close>

section \<open>State\<close>

record ('s, 'c, 'd) world =
  w_tr :: "'s transport"
  w_compress :: "bytes \<Rightarrow> bool \<Rightarrow> 'c \<Rightarrow> bytes res \<times> 'c"
  w_decompress :: "bytes \<Rightarrow> bool \<Rightarrow> nat \<Rightarrow> 'd \<Rightarrow> bytes res \<times> 'd"

record ('s, 'c, 'd) conn =
  stream :: 's
  read_half :: read_half
  write_half :: write_half
  wake_proxy :: wake_proxy
  obligated_sends :: "frame list"
  flush_sends :: bool
  deflate :: "'c option"
  inflate :: "'d option"
  max_payload_read :: nat
  compression_threshold :: nat
  read_buffer_capacity :: nat
  write_buffer_capacity :: nat
  write_buffer_grown :: bool

definition conn_new :: "'s \<Rightarrow> 'c option \<Rightarrow> 'd option \<Rightarrow> nat \<Rightarrow> nat \<Rightarrow> nat \<Rightarrow> nat \<Rightarrow> ('s, 'c, 'd) conn" where
  "conn_new s c d max_read threshold rcap wcap =
    \<lparr>stream = s, read_half = read_half_new, write_half = write_half_new,
     wake_proxy = wake_proxy_default, obligated_sends = [], flush_sends = False,
     deflate = c, inflate = d, max_payload_read = max_read, compression_threshold = threshold,
     read_buffer_capacity = rcap, write_buffer_capacity = wcap, write_buffer_grown = False\<rparr>"

section \<open>Buffers\<close>

definition release_read_buffer :: "('s, 'c, 'd) world \<Rightarrow> nat \<Rightarrow> ('s, 'c, 'd) conn \<Rightarrow> ('s, 'c, 'd) conn" where
  "release_read_buffer w frame_len cn =
    (if frame_len > read_buffer_capacity cn \<and> tr_read_len (w_tr w) (stream cn) \<le> read_buffer_capacity cn
     then cn\<lparr>stream := tr_resize_read (w_tr w) (read_buffer_capacity cn) (stream cn)\<rparr>
     else cn)"

definition release_write_buffer :: "('s, 'c, 'd) world \<Rightarrow> ('s, 'c, 'd) conn \<Rightarrow> ('s, 'c, 'd) conn" where
  "release_write_buffer w cn =
    (if write_buffer_grown cn \<and> tr_write_len (w_tr w) (stream cn) = 0
     then cn\<lparr>stream := tr_resize_write (w_tr w) (write_buffer_capacity cn) (stream cn),
          write_buffer_grown := False\<rparr>
     else cn)"

section \<open>Replies\<close>

definition emit_close :: "frame \<Rightarrow> ('s, 'c, 'd) conn \<Rightarrow> ('s, 'c, 'd) conn" where
  "emit_close f cn =
    cn\<lparr>obligated_sends := obligated_sends cn @ [f], read_half := (read_half cn)\<lparr>is_closed := True\<rparr>\<rparr>"

definition on_ping :: "frame \<Rightarrow> ('s, 'c, 'd) conn \<Rightarrow> ('s, 'c, 'd) conn" where
  "on_ping f cn = cn\<lparr>obligated_sends := obligated_sends cn @ [pong_frame (payload f)]\<rparr>"

text \<open>The checks of \<open>on_close\<close>; \<open>expect\<close> cannot fail, since there are two bytes.\<close>

definition check_close :: "frame \<Rightarrow> unit res" where
  "check_close f =
    (if length (payload f) = 0 then Ok ()
     else if length (payload f) = 1 then Err InvalidCloseFrame
     else case close_reason f of
       Err e \<Rightarrow> Err e
     | Ok _ \<Rightarrow>
         if is_allowed (the (frame_close_code f)) then Ok () else Err InvalidCloseCode)"

definition on_close :: "frame \<Rightarrow> ('s, 'c, 'd) conn \<Rightarrow> unit res \<times> ('s, 'c, 'd) conn" where
  "on_close f cn =
    (case check_close f of
       Err e \<Rightarrow> (Err e, cn)
     | Ok _ \<Rightarrow> (Ok (), emit_close (close_raw (payload f)) cn))"

section \<open>Reading\<close>

definition decompress_frame ::
  "('s, 'c, 'd) world \<Rightarrow> frame \<Rightarrow> nat \<Rightarrow> ('s, 'c, 'd) conn \<Rightarrow> frame res \<times> ('s, 'c, 'd) conn"
where
  "decompress_frame w f limit cn =
    (if is_compressed f then
       case inflate cn of
         None \<Rightarrow> (Err CompressionNotSupported, cn)
       | Some z \<Rightarrow>
           (case w_decompress w (payload f) (fin f) limit z of
              (Err e, z) \<Rightarrow> (Err e, cn\<lparr>inflate := Some z\<rparr>)
            | (Ok p, z) \<Rightarrow> (Ok (f\<lparr>payload := p, is_compressed := False\<rparr>), cn\<lparr>inflate := Some z\<rparr>))
     else (Ok f, cn))"

definition on_data ::
  "('s, 'c, 'd) world \<Rightarrow> frame \<Rightarrow> nat \<Rightarrow> ('s, 'c, 'd) conn \<Rightarrow> frame res \<times> ('s, 'c, 'd) conn"
where
  "on_data w f max_buf cn =
    (let limit = (if \<not> fin f \<or> opcode f = Continuation then min (max_payload_read cn) max_buf
                  else max_payload_read cn)
     in case decompress_frame w f limit cn of
          (Err e, cn) \<Rightarrow> (Err e, cn)
        | (Ok f, cn) \<Rightarrow> if length (payload f) \<ge> limit then (Err FrameTooLarge, cn) else (Ok f, cn))"

definition on_frame ::
  "('s, 'c, 'd) world \<Rightarrow> frame \<Rightarrow> nat \<Rightarrow> ('s, 'c, 'd) conn \<Rightarrow> frame res \<times> ('s, 'c, 'd) conn"
where
  "on_frame w f max_buf cn =
    (case opcode f of
       Ping \<Rightarrow> (Ok f, on_ping f cn)
     | Close \<Rightarrow> (case on_close f cn of (Err e, cn) \<Rightarrow> (Err e, cn) | (Ok _, cn) \<Rightarrow> (Ok f, cn))
     | Pong \<Rightarrow> (Ok f, cn)
     | _ \<Rightarrow> on_data w f max_buf cn)"

text \<open>The loop of \<open>poll_flush_obligated\<close> over the frames that wait.\<close>

fun flush_loop ::
  "('s, 'c, 'd) world \<Rightarrow> frame list \<Rightarrow> ('s, 'c, 'd) conn \<Rightarrow> unit res poll \<times> ('s, 'c, 'd) conn"
where
  "flush_loop w [] cn =
    (if flush_sends cn then
       case wh_poll_flush (w_tr w) (stream cn) of
         (Pending, s) \<Rightarrow> (Pending, cn\<lparr>stream := s\<rparr>)
       | (Ready (Err e), s) \<Rightarrow> (Ready (Err e), cn\<lparr>stream := s\<rparr>)
       | (Ready (Ok _), s) \<Rightarrow> (Ready (Ok ()), cn\<lparr>stream := s, flush_sends := False\<rparr>)
     else (Ready (Ok ()), cn))"
| "flush_loop w (f # fs) cn =
    (case wh_poll_ready (w_tr w) (write_half cn) (stream cn) of
       (Pending, s) \<Rightarrow> (Pending, cn\<lparr>stream := s\<rparr>)
     | (Ready (Err e), s) \<Rightarrow> (Ready (Err e), cn\<lparr>stream := s\<rparr>)
     | (Ready (Ok _), s) \<Rightarrow>
         (case wh_start_send (w_tr w) f (write_half cn) s of
            (Err e, wh, s) \<Rightarrow> (Ready (Err e), cn\<lparr>stream := s, write_half := wh, obligated_sends := fs\<rparr>)
          | (Ok _, wh, s) \<Rightarrow>
              flush_loop w fs (cn\<lparr>stream := s, write_half := wh, obligated_sends := fs, flush_sends := True\<rparr>)))"

text \<open>A poll of the connection that leaves its waker proxy to \<open>poll_with_context\<close>.\<close>

definition with_proxy ::
  "context_kind \<Rightarrow> nat \<Rightarrow> (('s, 'c, 'd) conn \<Rightarrow> 'a poll \<times> ('s, 'c, 'd) conn) \<Rightarrow>
   ('s, 'c, 'd) conn \<Rightarrow> 'a poll \<times> ('s, 'c, 'd) conn"
where
  "with_proxy k waker f cn =
    (case poll_with_context k waker f (wake_proxy cn) cn of (r, p, cn) \<Rightarrow> (r, cn\<lparr>wake_proxy := p\<rparr>))"

definition poll_flush_obligated ::
  "('s, 'c, 'd) world \<Rightarrow> context_kind \<Rightarrow> nat \<Rightarrow> ('s, 'c, 'd) conn \<Rightarrow> unit res poll \<times> ('s, 'c, 'd) conn"
where
  "poll_flush_obligated w k waker cn =
    (if obligated_sends cn = [] \<and> \<not> flush_sends cn then (Ready (Ok ()), cn)
     else with_proxy k waker (\<lambda>cn. flush_loop w (obligated_sends cn) cn) cn)"

text \<open>The status code of the Close that answers an error.\<close>

fun error_close_code :: "ws_error \<Rightarrow> close_code" where
  "error_close_code FrameTooLarge = Size"
| "error_close_code InvalidUTF8 = Invalid"
| "error_close_code (InvalidOpCode _) = Unsupported"
| "error_close_code ReservedBitsNotZero = Protocol"
| "error_close_code ControlFrameFragmented = Protocol"
| "error_close_code PingFrameTooLarge = Protocol"
| "error_close_code InvalidFragment = Protocol"
| "error_close_code InvalidCloseFrame = Protocol"
| "error_close_code InvalidCloseCode = Protocol"
| "error_close_code FragmentTimeout = Protocol"
| "error_close_code InvalidContinuationFrame = Protocol"
| "error_close_code CompressionNotSupported = Protocol"
| "error_close_code _ = Error"

definition read_poll ::
  "('s, 'c, 'd) world \<Rightarrow> ('s, 'c, 'd) conn \<Rightarrow> frame res poll \<times> ('s, 'c, 'd) conn"
where
  "read_poll w cn =
    (case poll_frame (w_tr w) (read_half cn) (stream cn) of
       (r, rh, s) \<Rightarrow> (r, cn\<lparr>read_half := rh, stream := s\<rparr>))"

definition poll_read_half ::
  "('s, 'c, 'd) world \<Rightarrow> nat \<Rightarrow> ('s, 'c, 'd) conn \<Rightarrow> frame res poll \<times> ('s, 'c, 'd) conn"
where
  "poll_read_half w waker cn =
    (if tr_read_len (w_tr w) (stream cn) = 0 then
       read_poll w (cn\<lparr>wake_proxy := set_waker Read waker (wake_proxy cn)\<rparr>)
     else with_proxy Read waker (read_poll w) cn)"

text \<open>
  \<open>poll_next_frame_with_limit\<close> in its two parts: getting a frame and processing it,
  then what becomes of the outcome.
\<close>

definition read_step ::
  "('s, 'c, 'd) world \<Rightarrow> nat \<Rightarrow> nat \<Rightarrow> ('s, 'c, 'd) conn \<Rightarrow> frame res poll \<times> ('s, 'c, 'd) conn"
where
  "read_step w waker limit cn =
    (case poll_read_half w waker cn of
       (Ready (Ok f), cn) \<Rightarrow>
         (case on_frame w f limit (release_read_buffer w (length (payload f)) cn) of
            (q, cn) \<Rightarrow> (Ready q, cn))
     | (r, cn) \<Rightarrow> (r, cn))"

definition finish_read ::
  "('s, 'c, 'd) world \<Rightarrow> nat \<Rightarrow> frame res poll \<Rightarrow> ('s, 'c, 'd) conn \<Rightarrow> frame res poll \<times> ('s, 'c, 'd) conn"
where
  "finish_read w waker r cn =
    (case r of
       Ready (Ok f) \<Rightarrow> (Ready (Ok f), cn)
     | Ready (Err e) \<Rightarrow>
         if e = ConnectionClosed then
           (case poll_flush_obligated w Read waker cn of
              (Pending, cn) \<Rightarrow> (Pending, cn)
            | (Ready (Err e'), cn) \<Rightarrow> (Ready (Err e'), cn)
            | (Ready (Ok _), cn) \<Rightarrow> (Ready (Err ConnectionClosed), cn))
         else (Ready (Err e), emit_close (close_frame (error_close_code e) (str_bytes (ws_error_text e))) cn)
     | Pending \<Rightarrow>
         (case poll_flush_obligated w Read waker cn of
            (Ready (Err e), cn) \<Rightarrow> (Ready (Err e), cn)
          | (_, cn) \<Rightarrow> (Pending, cn)))"

definition poll_next_frame_with_limit ::
  "('s, 'c, 'd) world \<Rightarrow> nat \<Rightarrow> nat \<Rightarrow> ('s, 'c, 'd) conn \<Rightarrow> frame res poll \<times> ('s, 'c, 'd) conn"
where
  "poll_next_frame_with_limit w waker limit cn =
    (case read_step w waker limit cn of (r, cn) \<Rightarrow> finish_read w waker r cn)"

definition poll_next_frame ::
  "('s, 'c, 'd) world \<Rightarrow> nat \<Rightarrow> ('s, 'c, 'd) conn \<Rightarrow> frame res poll \<times> ('s, 'c, 'd) conn"
where
  "poll_next_frame w waker cn = poll_next_frame_with_limit w waker (max_payload_read cn) cn"

text \<open>\<open>Stream::poll_next\<close>: any error ends the stream.\<close>

definition stream_poll_next ::
  "('s, 'c, 'd) world \<Rightarrow> nat \<Rightarrow> ('s, 'c, 'd) conn \<Rightarrow> frame option poll \<times> ('s, 'c, 'd) conn"
where
  "stream_poll_next w waker cn =
    (case poll_next_frame w waker cn of
       (Pending, cn) \<Rightarrow> (Pending, cn)
     | (Ready (Ok f), cn) \<Rightarrow> (Ready (Some f), cn)
     | (Ready (Err _), cn) \<Rightarrow> (Ready None, cn))"

section \<open>Writing\<close>

definition poll_ready ::
  "('s, 'c, 'd) world \<Rightarrow> nat \<Rightarrow> ('s, 'c, 'd) conn \<Rightarrow> unit res poll \<times> ('s, 'c, 'd) conn"
where
  "poll_ready w waker cn =
    (if obligated_sends cn = [] \<and> \<not> flush_sends cn \<and>
        tr_write_len (w_tr w) (stream cn) < tr_boundary (w_tr w) (stream cn) then
       (case wh_poll_ready (w_tr w) (write_half cn) (stream cn) of (r, s) \<Rightarrow> (r, cn\<lparr>stream := s\<rparr>))
     else
       case poll_flush_obligated w Write waker (cn\<lparr>wake_proxy := set_waker Write waker (wake_proxy cn)\<rparr>) of
         (Pending, cn) \<Rightarrow> (Pending, cn)
       | (Ready (Err e), cn) \<Rightarrow> (Ready (Err e), cn)
       | (Ready (Ok _), cn) \<Rightarrow>
           (case wh_poll_ready (w_tr w) (write_half cn) (stream cn) of (r, s) \<Rightarrow> (r, cn\<lparr>stream := s\<rparr>)))"

definition should_compress :: "('s, 'c, 'd) conn \<Rightarrow> frame \<Rightarrow> bool" where
  "should_compress cn f \<longleftrightarrow>
     \<not> is_control (opcode f) \<and>
     \<not> (opcode f \<noteq> Continuation \<and> fin f \<and> length (payload f) < compression_threshold cn)"

definition compress_frame ::
  "('s, 'c, 'd) world \<Rightarrow> frame \<Rightarrow> ('s, 'c, 'd) conn \<Rightarrow> frame res \<times> ('s, 'c, 'd) conn"
where
  "compress_frame w f cn =
    (if should_compress cn f then
       case deflate cn of
         None \<Rightarrow> (Ok f, cn)
       | Some z \<Rightarrow>
           (case w_compress w (payload f) (fin f) z of
              (Err e, z) \<Rightarrow> (Err e, cn\<lparr>deflate := Some z\<rparr>)
            | (Ok p, z) \<Rightarrow>
                (Ok (f\<lparr>is_compressed := \<not> streaming (write_half cn), payload := p\<rparr>), cn\<lparr>deflate := Some z\<rparr>))
     else (Ok f, cn))"

definition start_send ::
  "('s, 'c, 'd) world \<Rightarrow> frame \<Rightarrow> ('s, 'c, 'd) conn \<Rightarrow> unit res \<times> ('s, 'c, 'd) conn"
where
  "start_send w f cn =
    (case compress_frame w f cn of
       (Err e, cn) \<Rightarrow> (Err e, cn)
     | (Ok f, cn) \<Rightarrow>
         (case wh_start_send (w_tr w) f (write_half cn) (stream cn) of
            (Err e, wh, s) \<Rightarrow> (Err e, cn\<lparr>write_half := wh, stream := s\<rparr>)
          | (Ok _, wh, s) \<Rightarrow>
              let cn = cn\<lparr>write_half := wh, stream := s\<rparr>;
                  usual = max (write_buffer_capacity cn) (tr_boundary (w_tr w) s)
              in (Ok (), if tr_write_len (w_tr w) s > usual then cn\<lparr>write_buffer_grown := True\<rparr> else cn)))"

definition poll_flush ::
  "('s, 'c, 'd) world \<Rightarrow> nat \<Rightarrow> ('s, 'c, 'd) conn \<Rightarrow> unit res poll \<times> ('s, 'c, 'd) conn"
where
  "poll_flush w waker cn =
    (let cn = cn\<lparr>wake_proxy := set_waker Write waker (wake_proxy cn)\<rparr> in
     case wh_poll_flush (w_tr w) (stream cn) of
       (Pending, s) \<Rightarrow> (Pending, cn\<lparr>stream := s\<rparr>)
     | (Ready (Err e), s) \<Rightarrow> (Ready (Err e), cn\<lparr>stream := s\<rparr>)
     | (Ready (Ok _), s) \<Rightarrow> (Ready (Ok ()), release_write_buffer w (cn\<lparr>stream := s\<rparr>)))"

definition poll_close ::
  "('s, 'c, 'd) world \<Rightarrow> nat \<Rightarrow> ('s, 'c, 'd) conn \<Rightarrow> unit res poll \<times> ('s, 'c, 'd) conn"
where
  "poll_close w waker cn =
    (let cn = cn\<lparr>wake_proxy := set_waker Write waker (wake_proxy cn)\<rparr> in
     case wh_poll_close (w_tr w) (write_half cn) (stream cn) of
       (r, wh, s) \<Rightarrow> (r, cn\<lparr>write_half := wh, stream := s\<rparr>))"

section \<open>Obligations\<close>

text \<open>The replies a received frame obliges the connection to send.\<close>

definition replies :: "frame \<Rightarrow> frame list" where
  "replies f =
    (case opcode f of
       Ping \<Rightarrow> [pong_frame (payload f)]
     | Close \<Rightarrow> [close_raw (payload f)]
     | _ \<Rightarrow> [])"

text \<open>Everything sent and everything that waits to be sent, in order.\<close>

definition out_frames :: "('s \<Rightarrow> frame list) \<Rightarrow> ('s, 'c, 'd) conn \<Rightarrow> frame list" where
  "out_frames sent cn = sent (stream cn) @ obligated_sends cn"

locale streaming_conn = frame_sink "w_tr w" sent
  for w :: "('s, 'c, 'd) world" and sent :: "'s \<Rightarrow> frame list"
begin

lemma wh_ready_sent: "wh_poll_ready (w_tr w) wh s = (r, s') \<Longrightarrow> sent s' = sent s"
  by (auto simp: wh_poll_ready_def split: if_splits dest: ready_sent)

lemma wh_send_sent:
  "wh_start_send (w_tr w) f wh s = (r, wh', s') \<Longrightarrow> sent s' = sent s @ (if is_ok r then [f] else [])"
  by (auto simp: wh_start_send_def Let_def split: prod.splits dest: send_sent)

lemma flush_loop_output:
  assumes "flush_loop w fs cn = (r, cn')" "\<nexists>e. r = Ready (Err e)" "obligated_sends cn = fs"
  shows "out_frames sent cn' = out_frames sent cn \<and> read_half cn' = read_half cn \<and>
    (r = Ready (Ok ()) \<longrightarrow> obligated_sends cn' = [] \<and> \<not> flush_sends cn')"
  using assms
proof (induction fs arbitrary: cn)
  case Nil
  obtain q s where q: "wh_poll_flush (w_tr w) (stream cn) = (q, s)" by fastforce
  then have "sent s = sent (stream cn)" unfolding wh_poll_flush_def by (rule flush_sent)
  then show ?case using Nil q
    by (auto simp: out_frames_def split: if_splits poll.splits sum.splits)
next
  case (Cons f fs)
  obtain q s where q: "wh_poll_ready (w_tr w) (write_half cn) (stream cn) = (q, s)" by fastforce
  obtain p wh t where p: "wh_start_send (w_tr w) f (write_half cn) s = (p, wh, t)" by (metis prod_cases3)
  note sent = wh_ready_sent [OF q] wh_send_sent [OF p]
  show ?case
  proof (cases q)
    case Pending
    then show ?thesis using Cons.prems q sent by (auto simp: out_frames_def)
  next
    case (Ready u)
    then obtain v where u: "u = Ok v" using Cons.prems(1,2) q by (cases u) auto
    then obtain v' where v': "p = Ok v'" using Cons.prems(1,2) q p Ready by (cases p) auto
    let ?cn = "cn\<lparr>stream := t, write_half := wh, obligated_sends := fs, flush_sends := True\<rparr>"
    have "flush_loop w fs ?cn = (r, cn')" using Cons.prems(1) q p Ready u v' by simp
    then have "out_frames sent cn' = out_frames sent ?cn \<and> read_half cn' = read_half ?cn \<and>
        (r = Ready (Ok ()) \<longrightarrow> obligated_sends cn' = [] \<and> \<not> flush_sends cn')"
      using Cons.prems(2) by (intro Cons.IH) auto
    then show ?thesis using sent v' Cons.prems(3) by (auto simp: out_frames_def)
  qed
qed

lemma poll_flush_obligated_output:
  assumes "poll_flush_obligated w k waker cn = (r, cn')" "\<nexists>e. r = Ready (Err e)"
  shows "out_frames sent cn' = out_frames sent cn \<and> read_half cn' = read_half cn \<and>
    (r = Ready (Ok ()) \<longrightarrow> obligated_sends cn' = [])"
proof (cases "obligated_sends cn = [] \<and> \<not> flush_sends cn")
  case True
  then show ?thesis using assms by (auto simp: poll_flush_obligated_def)
next
  case False
  let ?f = "\<lambda>cn. flush_loop w (obligated_sends cn) cn"
  obtain px cn1 where pw: "poll_with_context k waker ?f (wake_proxy cn) cn = (r, px, cn1)"
    and cn': "cn' = cn1\<lparr>wake_proxy := px\<rparr>"
    using assms(1) False by (auto simp: poll_flush_obligated_def with_proxy_def split: prod.splits)
  have out: "out_frames sent cn' = out_frames sent cn1" "read_half cn' = read_half cn1"
    "obligated_sends cn' = obligated_sends cn1" by (simp_all add: cn' out_frames_def)
  from pw show ?thesis
  proof (cases rule: poll_with_context_cases)
    case (once v)
    then show ?thesis using flush_loop_output [OF once(1) _ refl] assms(2) out by auto
  next
    case (twice s1)
    then show ?thesis
      using flush_loop_output [OF twice(1) _ refl] flush_loop_output [OF twice(2) assms(2) refl] out by auto
  qed
qed

text \<open>Reading a frame sends nothing by itself.\<close>

lemma read_poll_output: "read_poll w cn = (r, cn') \<Longrightarrow> out_frames sent cn' = out_frames sent cn"
  by (auto simp: read_poll_def poll_frame_def out_frames_def on_incoming_def Let_def
      split: prod.splits if_splits poll.splits option.splits sum.splits dest: next_sent)

lemma poll_read_half_output: "poll_read_half w waker cn = (r, cn') \<Longrightarrow> out_frames sent cn' = out_frames sent cn"
proof -
  assume a: "poll_read_half w waker cn = (r, cn')"
  show ?thesis
  proof (cases "tr_read_len (w_tr w) (stream cn) = 0")
    case True
    then have "out_frames sent cn' = out_frames sent (cn\<lparr>wake_proxy := set_waker Read waker (wake_proxy cn)\<rparr>)"
      using a by (intro read_poll_output) (simp add: poll_read_half_def)
    then show ?thesis by (simp add: out_frames_def)
  next
    case False
    then obtain px cn1 where pw: "poll_with_context Read waker (read_poll w) (wake_proxy cn) cn = (r, px, cn1)"
      and cn': "cn' = cn1\<lparr>wake_proxy := px\<rparr>"
      using a by (auto simp: poll_read_half_def with_proxy_def split: prod.splits)
    have "out_frames sent cn1 = out_frames sent cn"
      using pw
    proof (cases rule: poll_with_context_cases)
      case (once v)
      then show ?thesis by (simp add: read_poll_output [OF once(1)])
    next
      case (twice s1)
      then show ?thesis using read_poll_output [OF twice(1)] read_poll_output [OF twice(2)] by simp
    qed
    then show ?thesis by (simp add: cn' out_frames_def)
  qed
qed

lemma release_read_buffer_output: "out_frames sent (release_read_buffer w n cn) = out_frames sent cn"
  by (simp add: release_read_buffer_def out_frames_def resize_sent)

text \<open>Processing a frame queues its replies, and nothing else.\<close>

lemma decompress_frame_output:
  "decompress_frame w f limit cn = (r, cn') \<Longrightarrow>
   out_frames sent cn' = out_frames sent cn \<and> (\<forall>g. r = Ok g \<longrightarrow> opcode g = opcode f \<and> fin g = fin f)"
  by (auto simp: decompress_frame_def out_frames_def split: if_splits option.splits prod.splits sum.splits)

lemma on_frame_output:
  assumes "on_frame w f limit cn = (r, cn')"
  shows "out_frames sent cn' = out_frames sent cn @ (if is_ok r then replies f else [])"
    and "r = Ok g \<Longrightarrow> replies g = replies f"
proof -
  have d: "out_frames sent cn2 = out_frames sent cn \<and> (\<forall>g. q = Ok g \<longrightarrow> opcode g = opcode f)"
    if "on_data w f limit cn = (q, cn2)" for q cn2
  proof -
    define lim where "lim = (if \<not> fin f \<or> opcode f = Continuation then min (max_payload_read cn) limit
      else max_payload_read cn)"
    obtain p cn1 where p: "decompress_frame w f lim cn = (p, cn1)" by fastforce
    have "on_data w f limit cn = (case p of Err e \<Rightarrow> (Err e, cn1)
        | Ok g \<Rightarrow> if length (payload g) \<ge> lim then (Err FrameTooLarge, cn1) else (Ok g, cn1))"
      unfolding on_data_def Let_def lim_def [symmetric] p by (simp split: sum.split)
    then have "cn2 = cn1" "q = Ok g \<Longrightarrow> p = Ok g" for g
      using that by (auto split: sum.splits if_splits)
    then show ?thesis using decompress_frame_output [OF p] by blast
  qed
  have "out_frames sent cn' = out_frames sent cn @ (if is_ok r then replies f else []) \<and>
    (\<forall>g. r = Ok g \<longrightarrow> replies g = replies f)"
  proof (cases "is_control (opcode f)")
    case True
    then show ?thesis using assms
      by (cases "opcode f")
        (auto simp: on_frame_def on_close_def emit_close_def on_ping_def out_frames_def replies_def
          split: sum.splits)
  next
    case False
    then have nil: "opcode g = opcode f \<Longrightarrow> replies g = []" for g
      by (cases "opcode f") (simp_all add: replies_def)
    have "on_data w f limit cn = (r, cn')"
      using assms False by (cases "opcode f") (simp_all add: on_frame_def)
    note d [OF this]
    then show ?thesis using nil [of f] nil by (cases r) auto
  qed
  then show "out_frames sent cn' = out_frames sent cn @ (if is_ok r then replies f else [])"
    and "r = Ok g \<Longrightarrow> replies g = replies f" by auto
qed

lemma read_step_output:
  assumes "read_step w waker limit cn = (r, cn')"
  shows "out_frames sent cn' = out_frames sent cn @ (case r of Ready (Ok f) \<Rightarrow> replies f | _ \<Rightarrow> [])"
proof -
  obtain q cn1 where q: "poll_read_half w waker cn = (q, cn1)" by fastforce
  note o1 = poll_read_half_output [OF q]
  show ?thesis
  proof (cases "\<exists>f. q = Ready (Ok f)")
    case True
    then obtain f where f: "q = Ready (Ok f)" by auto
    obtain p cn2 where p: "on_frame w f limit (release_read_buffer w (length (payload f)) cn1) = (p, cn2)"
      by fastforce
    have "r = Ready p" "cn' = cn2" using assms q f p by (simp_all add: read_step_def)
    then show ?thesis
      using on_frame_output [OF p] o1 release_read_buffer_output by (cases p) auto
  next
    case False
    then show ?thesis using assms q o1
      by (cases q) (auto simp: read_step_def split: sum.splits)
  qed
qed

lemma poll_next_frame_output:
  assumes "poll_next_frame_with_limit w waker limit cn = (r, cn')" "\<nexists>e. r = Ready (Err e)"
  shows "out_frames sent cn' = out_frames sent cn @ (case r of Ready (Ok f) \<Rightarrow> replies f | _ \<Rightarrow> [])"
proof -
  obtain q cn1 where q: "read_step w waker limit cn = (q, cn1)" by fastforce
  note o1 = read_step_output [OF q]
  obtain p cn2 where p: "poll_flush_obligated w Read waker cn1 = (p, cn2)" by fastforce
  have fin: "finish_read w waker q cn1 = (r, cn')"
    using assms(1) q by (simp add: poll_next_frame_with_limit_def)
  show ?thesis
  proof (cases "\<exists>e. p = Ready (Err e)")
    case True
    then show ?thesis using fin o1 p assms(2)
      by (auto simp: finish_read_def split: poll.splits sum.splits if_splits)
  next
    case False
    then have "out_frames sent cn2 = out_frames sent cn1" using poll_flush_obligated_output [OF p] by simp
    then show ?thesis using fin o1 p assms(2)
      by (auto simp: finish_read_def split: poll.splits sum.splits if_splits)
  qed
qed

end

text \<open>What reading leaves alone.\<close>

lemma poll_frame_closed: "is_closed rh \<Longrightarrow> poll_frame tr rh s = (Ready (Err ConnectionClosed), rh, s)"
  by (simp add: poll_frame_def)

lemma read_poll_keeps:
  "read_poll w cn = (r, cn') \<Longrightarrow>
   write_half cn' = write_half cn \<and> max_payload_read cn' = max_payload_read cn"
  by (auto simp: read_poll_def split: prod.splits)

lemma poll_read_half_keeps:
  assumes "poll_read_half w waker cn = (r, cn')"
  shows "write_half cn' = write_half cn \<and> max_payload_read cn' = max_payload_read cn"
proof (cases "tr_read_len (w_tr w) (stream cn) = 0")
  case True
  then show ?thesis using assms read_poll_keeps [of w _ r cn'] by (auto simp: poll_read_half_def)
next
  case False
  then obtain px cn1 where pw: "poll_with_context Read waker (read_poll w) (wake_proxy cn) cn = (r, px, cn1)"
    and cn': "cn' = cn1\<lparr>wake_proxy := px\<rparr>"
    using assms by (auto simp: poll_read_half_def with_proxy_def split: prod.splits)
  have "write_half cn1 = write_half cn \<and> max_payload_read cn1 = max_payload_read cn"
    using pw
  proof (cases rule: poll_with_context_cases)
    case (once v)
    then show ?thesis using read_poll_keeps [OF once(1)] by simp
  next
    case (twice s1)
    then show ?thesis using read_poll_keeps [OF twice(1)] read_poll_keeps [OF twice(2)] by simp
  qed
  then show ?thesis by (simp add: cn')
qed

lemma decompress_frame_keeps:
  "decompress_frame w f limit cn = (r, cn') \<Longrightarrow>
   write_half cn' = write_half cn \<and> (\<forall>g. r = Ok g \<longrightarrow> opcode g = opcode f \<and> fin g = fin f)"
  by (auto simp: decompress_frame_def split: if_splits option.splits prod.splits sum.splits)

definition within_limits :: "('s, 'c, 'd) conn \<Rightarrow> nat \<Rightarrow> frame \<Rightarrow> bool" where
  "within_limits cn limit g \<longleftrightarrow> is_control (opcode g) \<or> length (payload g) < max_payload_read cn \<and>
     (\<not> fin g \<or> opcode g = Continuation \<longrightarrow> length (payload g) < limit)"

lemma on_data_result:
  assumes "on_data w f limit cn = (r, cn')"
  shows "write_half cn' = write_half cn" "r = Ok g \<Longrightarrow> within_limits cn limit g"
proof -
  define lim where "lim = (if \<not> fin f \<or> opcode f = Continuation then min (max_payload_read cn) limit
    else max_payload_read cn)"
  obtain p cn1 where p: "decompress_frame w f lim cn = (p, cn1)" by fastforce
  note keep = decompress_frame_keeps [OF p]
  have eq: "on_data w f limit cn = (case p of Err e \<Rightarrow> (Err e, cn1)
      | Ok g \<Rightarrow> if length (payload g) \<ge> lim then (Err FrameTooLarge, cn1) else (Ok g, cn1))"
    unfolding on_data_def Let_def lim_def [symmetric] p by (simp split: sum.split)
  then have "cn' = cn1" using assms by (cases p) (auto split: if_splits)
  then show "write_half cn' = write_half cn" using keep by simp
  assume r: "r = Ok g"
  then have g: "p = Ok g" "length (payload g) < lim"
    using assms eq by (cases p; simp split: if_splits)+
  then have "opcode g = opcode f" "fin g = fin f" using keep by simp_all
  then show "within_limits cn limit g" using g(2) by (simp add: within_limits_def lim_def split: if_splits)
qed

lemma on_frame_result:
  assumes "on_frame w f limit cn = (r, cn')"
  shows "write_half cn' = write_half cn" "r = Ok g \<Longrightarrow> within_limits cn limit g"
proof -
  have "write_half cn' = write_half cn \<and> (r = Ok g \<longrightarrow> within_limits cn limit g)"
  proof (cases "is_control (opcode f)")
    case True
    then show ?thesis using assms
      by (cases "opcode f")
        (auto simp: on_frame_def on_close_def emit_close_def on_ping_def within_limits_def split: sum.splits)
  next
    case False
    then have "on_data w f limit cn = (r, cn')"
      using assms by (cases "opcode f") (simp_all add: on_frame_def)
    then show ?thesis using on_data_result by blast
  qed
  then show "write_half cn' = write_half cn" "r = Ok g \<Longrightarrow> within_limits cn limit g" by simp_all
qed

lemma read_step_result:
  assumes "read_step w waker limit cn = (r, cn')"
  shows "write_half cn' = write_half cn" "r = Ready (Ok g) \<Longrightarrow> within_limits cn limit g"
proof -
  obtain q cn1 where q: "poll_read_half w waker cn = (q, cn1)" by fastforce
  note k = poll_read_half_keeps [OF q]
  have "write_half cn' = write_half cn \<and> (r = Ready (Ok g) \<longrightarrow> within_limits cn limit g)"
  proof (cases "\<exists>f. q = Ready (Ok f)")
    case True
    then obtain f where f: "q = Ready (Ok f)" by auto
    let ?cn = "release_read_buffer w (length (payload f)) cn1"
    have rel: "write_half ?cn = write_half cn1" "max_payload_read ?cn = max_payload_read cn1"
      by (simp_all add: release_read_buffer_def)
    obtain p cn2 where p: "on_frame w f limit ?cn = (p, cn2)" by fastforce
    have "r = Ready p" "cn' = cn2" using assms q f p by (simp_all add: read_step_def)
    then show ?thesis using on_frame_result [OF p] k rel by (simp add: within_limits_def)
  next
    case False
    then show ?thesis using assms q k by (cases q) (auto simp: read_step_def split: sum.splits)
  qed
  then show "write_half cn' = write_half cn" "r = Ready (Ok g) \<Longrightarrow> within_limits cn limit g" by simp_all
qed

text \<open>A transport whose write side never blocks nor fails.\<close>

definition prompt :: "'s transport \<Rightarrow> bool" where
  "prompt tr \<longleftrightarrow> (\<forall>s. fst (tr_ready tr s) = Ready (Ok ())) \<and> (\<forall>f s. fst (tr_send tr f s) = Ok ()) \<and>
     (\<forall>s. fst (tr_flush tr s) = Ready (Ok ()))"

lemma prompt_ready: "prompt tr \<Longrightarrow> tr_ready tr s = (Ready (Ok ()), snd (tr_ready tr s))"
  and prompt_send: "prompt tr \<Longrightarrow> tr_send tr f s = (Ok (), snd (tr_send tr f s))"
  and prompt_flush: "prompt tr \<Longrightarrow> tr_flush tr s = (Ready (Ok ()), snd (tr_flush tr s))"
  by (simp_all add: prompt_def prod_eq_iff)

lemma flush_loop_prompt:
  assumes p: "prompt (w_tr w)" and "close_state (write_half cn) \<noteq> Some Done"
  shows "fst (flush_loop w fs cn) = Ready (Ok ())"
  using assms(2)
proof (induction fs arbitrary: cn)
  case Nil
  obtain s where "tr_flush (w_tr w) (stream cn) = (Ready (Ok ()), s)" using prompt_flush [OF p] by blast
  then show ?case by (simp add: wh_poll_flush_def)
next
  case (Cons f fs)
  define s where "s = snd (tr_ready (w_tr w) (stream cn))"
  define wh where "wh = (let h = (if opcode f = Close then (write_half cn)\<lparr>close_state := Some Flushing\<rparr>
      else write_half cn) in if \<not> is_control (opcode f) then h\<lparr>streaming := \<not> fin f\<rparr> else h)"
  have q: "wh_poll_ready (w_tr w) (write_half cn) (stream cn) = (Ready (Ok ()), s)"
    using prompt_ready [OF p, of "stream cn"] Cons.prems by (simp add: wh_poll_ready_def s_def)
  obtain t where "tr_send (w_tr w) f s = (Ok (), t)" using prompt_send [OF p] by blast
  then have r: "wh_start_send (w_tr w) f (write_half cn) s = (Ok (), wh, t)"
    by (simp add: wh_start_send_def wh_def Let_def)
  have "close_state wh \<noteq> Some Done" using Cons.prems by (simp add: wh_def Let_def)
  then show ?case
    using Cons.IH [of "cn\<lparr>stream := t, write_half := wh, obligated_sends := fs, flush_sends := True\<rparr>"] q r by simp
qed

lemma poll_flush_obligated_prompt:
  assumes "prompt (w_tr w)" "close_state (write_half cn) \<noteq> Some Done"
  shows "fst (poll_flush_obligated w k waker cn) = Ready (Ok ())"
  using flush_loop_prompt [OF assms, of "obligated_sends cn"]
  by (auto simp: poll_flush_obligated_def with_proxy_def poll_with_context_def split: prod.splits poll.splits)

section \<open>Properties\<close>

text \<open>Polling for frames a number of times, up to the first error; the list gives the wakers.\<close>

fun read_polls ::
  "('s, 'c, 'd) world \<Rightarrow> nat list \<Rightarrow> ('s, 'c, 'd) conn \<Rightarrow> frame list \<times> ws_error option \<times> ('s, 'c, 'd) conn"
where
  "read_polls w [] cn = ([], None, cn)"
| "read_polls w (k # ks) cn =
    (case poll_next_frame w k cn of
       (Pending, cn) \<Rightarrow> read_polls w ks cn
     | (Ready (Err e), cn) \<Rightarrow> ([], Some e, cn)
     | (Ready (Ok f), cn) \<Rightarrow> (case read_polls w ks cn of (fs, e, cn) \<Rightarrow> (f # fs, e, cn)))"

text \<open>
  C11. Obligations are met in order: over any transport that keeps the sink contract
  and any sequence of reads without error, what has been sent together with what is
  queued grows by exactly the replies the delivered frames call for: a Pong with the
  same payload for every Ping, the echo for the Close, nothing else, in order.
\<close>

theorem obligations_met:
  assumes "frame_sink (w_tr w) sent" "read_polls w ks cn = (fs, None, cn')"
  shows "out_frames sent cn' = out_frames sent cn @ concat (map replies fs)"
  using assms(2)
proof (induction ks arbitrary: cn fs)
  case (Cons k ks)
  obtain r cn1 where r: "poll_next_frame w k cn = (r, cn1)" by fastforce
  then have ok: "\<nexists>e. r = Ready (Err e)" using Cons.prems by (cases r) auto
  have "out_frames sent cn1 = out_frames sent cn @ (case r of Ready (Ok f) \<Rightarrow> replies f | _ \<Rightarrow> [])"
    by (rule streaming_conn.poll_next_frame_output [OF streaming_conn.intro [OF assms(1)]
          r [unfolded poll_next_frame_def] ok])
  then show ?case using Cons.prems r ok Cons.IH [of cn1]
    by (auto split: poll.splits sum.splits prod.splits)
qed simp

interpretation framed_conn:
  streaming_conn "\<lparr>w_tr = framed_transport, w_compress = c, w_decompress = d\<rparr>" fr_log for c d
  by (rule streaming_conn.intro) (simp add: framed.frame_sink_axioms)

text \<open>A connection over the in-memory transport, for the witnesses: \<open>input\<close> is what the peer sent.\<close>

definition demo_world :: "(framed, unit, unit) world" where
  "demo_world = \<lparr>w_tr = framed_transport, w_compress = (\<lambda>p f z. (Ok p, z)),
     w_decompress = (\<lambda>p f n z. (Ok p, z))\<rparr>"

definition demo_conn :: "bytes list \<Rightarrow> (framed, unit, unit) conn" where
  "demo_conn input = conn_new (demo_framed\<lparr>fr_input := input\<rparr>) None None 100 0 8192 8192"

theorem obligations_met_witness:
  "case read_polls demo_world [1] (demo_conn [[0x89, 0x81, 0, 0, 0, 0, 7]]) of
     (fs, e, cn) \<Rightarrow> fs = [ping_frame [7]] \<and> e = None \<and>
       out_frames fr_log cn = out_frames fr_log (demo_conn [[0x89, 0x81, 0, 0, 0, 0, 7]])
         @ concat (map replies [ping_frame [7]])"
proof -
  obtain fs e cn where r: "read_polls demo_world [1] (demo_conn [[0x89, 0x81, 0, 0, 0, 0, 7]]) = (fs, e, cn)"
    by (metis prod_cases3)
  moreover have "fst (read_polls demo_world [1] (demo_conn [[0x89, 0x81, 0, 0, 0, 0, 7]])) = [ping_frame [7]]"
    by code_simp
  moreover have "fst (snd (read_polls demo_world [1] (demo_conn [[0x89, 0x81, 0, 0, 0, 0, 7]]))) = None"
    by code_simp
  moreover have "frame_sink (w_tr demo_world) fr_log"
    using framed.frame_sink_axioms by (simp add: demo_world_def)
  ultimately show ?thesis
    using obligations_met [of demo_world fr_log "[1]" "demo_conn [[0x89, 0x81, 0, 0, 0, 0, 7]]" fs cn] by simp
qed

text \<open>
  C12. A read error ends the connection with the right Close: the poll that fails
  reports the error, and over a transport that accepts writes the next poll has sent
  everything queued and then a Close with the status code of the error and its text
  as reason, and reports \<open>ConnectionClosed\<close> without reading on.
\<close>

theorem read_error_closes:
  assumes "frame_sink (w_tr w) sent" "prompt (w_tr w)"
    and "read_step w k limit cn = (Ready (Err e), cn0)" "e \<noteq> ConnectionClosed"
    and "close_state (write_half cn) \<noteq> Some Done"
  shows "\<exists>cn1 cn2. poll_next_frame_with_limit w k limit cn = (Ready (Err e), cn1) \<and>
    poll_next_frame_with_limit w k' limit' cn1 = (Ready (Err ConnectionClosed), cn2) \<and>
    sent (stream cn2) =
      out_frames sent cn @ [close_frame (error_close_code e) (str_bytes (ws_error_text e))] \<and>
    obligated_sends cn2 = [] \<and> is_closed (read_half cn2)"
proof -
  have loc: "streaming_conn w sent" by (rule streaming_conn.intro) (rule assms(1))
  let ?close = "close_frame (error_close_code e) (str_bytes (ws_error_text e))"
  define cn1 where "cn1 = emit_close ?close cn0"
  have p1: "poll_next_frame_with_limit w k limit cn = (Ready (Err e), cn1)"
    using assms(3,4) by (simp add: poll_next_frame_with_limit_def finish_read_def cn1_def)
  have closed: "is_closed (read_half cn1)" by (simp add: cn1_def emit_close_def)
  have out1: "out_frames sent cn1 = out_frames sent cn @ [?close]"
    using streaming_conn.read_step_output [OF loc assms(3)]
    by (simp add: cn1_def emit_close_def out_frames_def)
  have wh: "close_state (write_half cn1) \<noteq> Some Done"
    using read_step_result(1) [OF assms(3)] assms(5) by (simp add: cn1_def emit_close_def)
  define px where "px = (if tr_read_len (w_tr w) (stream cn1) = 0 then set_waker Read k' (wake_proxy cn1)
      else wake_proxy cn1)"
  have rd: "read_step w k' limit' cn1 = (Ready (Err ConnectionClosed), cn1\<lparr>wake_proxy := px\<rparr>)"
    using closed
    by (cases cn1) (simp add: read_step_def poll_read_half_def read_poll_def poll_frame_closed with_proxy_def
        poll_with_context_def px_def)
  let ?cn = "cn1\<lparr>wake_proxy := px\<rparr>"
  obtain cn2 where fl: "poll_flush_obligated w Read k' ?cn = (Ready (Ok ()), cn2)"
    using poll_flush_obligated_prompt [OF assms(2), of ?cn Read k'] wh
    by (cases "poll_flush_obligated w Read k' ?cn") simp
  have p2: "poll_next_frame_with_limit w k' limit' cn1 = (Ready (Err ConnectionClosed), cn2)"
    using rd fl by (simp add: poll_next_frame_with_limit_def finish_read_def)
  have f2: "out_frames sent cn2 = out_frames sent ?cn \<and> read_half cn2 = read_half ?cn \<and>
      obligated_sends cn2 = []"
    using streaming_conn.poll_flush_obligated_output [OF loc fl] by simp
  then have "sent (stream cn2) = out_frames sent cn @ [?close]"
    using out1 by (auto simp: out_frames_def)
  then show ?thesis using p1 p2 f2 closed by auto
qed

lemma framed_prompt: "prompt framed_transport"
  by (simp add: prompt_def framed_transport_def framed_ready_def framed_flush_def framed_send_def
      codec_encode_def encode_wire)

theorem read_error_closes_witness:
  "\<exists>cn1 cn2. poll_next_frame_with_limit demo_world 1 100 (demo_conn [[0xB1, 0x80]]) = (Ready (Err ReservedBitsNotZero), cn1) \<and>
    poll_next_frame_with_limit demo_world 1 100 cn1 = (Ready (Err ConnectionClosed), cn2) \<and>
    fr_log (stream cn2) = out_frames fr_log (demo_conn [[0xB1, 0x80]])
      @ [close_frame (error_close_code ReservedBitsNotZero) (str_bytes (ws_error_text ReservedBitsNotZero))] \<and>
    obligated_sends cn2 = [] \<and> is_closed (read_half cn2)"
proof -
  have "fst (read_step demo_world 1 100 (demo_conn [[0xB1, 0x80]])) = Ready (Err ReservedBitsNotZero)"
    by code_simp
  then obtain cn0 where r: "read_step demo_world 1 100 (demo_conn [[0xB1, 0x80]]) = (Ready (Err ReservedBitsNotZero), cn0)"
    by (metis prod.collapse)
  show ?thesis
    by (rule read_error_closes [OF _ _ r])
      (use framed.frame_sink_axioms framed_prompt in
        \<open>simp_all add: demo_world_def demo_conn_def conn_new_def write_half_new_def\<close>)
qed

text \<open>
  Size limits hold after decompression: a data frame that is delivered is
  shorter than the payload limit, and a fragment is shorter than what the
  reassembly buffer has left, whatever the decompressor returned.
\<close>

lemma delivered_within_limits:
  assumes "poll_next_frame_with_limit w k limit cn = (Ready (Ok f), cn')"
  shows "is_control (opcode f) \<or> length (payload f) < max_payload_read cn \<and>
    (\<not> fin f \<or> opcode f = Continuation \<longrightarrow> length (payload f) < limit)"
proof -
  obtain r cn1 where r: "read_step w k limit cn = (r, cn1)" by fastforce
  have "r = Ready (Ok f)"
    using assms r by (auto simp: poll_next_frame_with_limit_def finish_read_def
        split: poll.splits sum.splits if_splits prod.splits)
  then show ?thesis using read_step_result(2) [OF r, of f] by (simp add: within_limits_def)
qed

section \<open>Compressed messages\<close>

text \<open>Sending frames one after the other, up to the first error.\<close>

fun send_all ::
  "('s, 'c, 'd) world \<Rightarrow> frame list \<Rightarrow> ('s, 'c, 'd) conn \<Rightarrow> unit res \<times> ('s, 'c, 'd) conn"
where
  "send_all w [] cn = (Ok (), cn)"
| "send_all w (f # fs) cn =
    (case start_send w f cn of
       (Err e, cn) \<Rightarrow> (Err e, cn)
     | (Ok _, cn) \<Rightarrow> send_all w fs cn)"

text \<open>
  What one send hands to the transport, on a connection with a compressor: the frame
  with another payload and RSV1 as the state of the write half demands.
\<close>

definition sent_as :: "bool \<Rightarrow> frame \<Rightarrow> frame \<Rightarrow> bool" where
  "sent_as rsv1 f g \<longleftrightarrow> fin g = fin f \<and> opcode g = opcode f \<and> mask_key g = mask_key f \<and>
     (if is_control (opcode f) then g = f else is_compressed g = rsv1)"

lemma start_send_sent:
  assumes "frame_sink (w_tr w) sent" "start_send w f cn = (Ok u, cn')" "deflate cn \<noteq> None"
    "is_control (opcode f) \<or> should_compress cn f"
  shows "\<exists>g. sent (stream cn') = sent (stream cn) @ [g] \<and>
      sent_as (\<not> streaming (write_half cn)) f g \<and>
      streaming (write_half cn') = (if is_control (opcode f) then streaming (write_half cn) else \<not> fin f) \<and>
      deflate cn' \<noteq> None \<and> compression_threshold cn' = compression_threshold cn"
proof -
  obtain r cn1 where c: "compress_frame w f cn = (r, cn1)" by fastforce
  then obtain g where g: "r = Ok g" using assms(2) by (cases r) (auto simp: start_send_def)
  have sa: "sent_as (\<not> streaming (write_half cn)) f g" and keep: "write_half cn1 = write_half cn"
    "stream cn1 = stream cn" "deflate cn1 \<noteq> None" "compression_threshold cn1 = compression_threshold cn"
    using c g assms(3,4)
    by (auto simp: compress_frame_def should_compress_def sent_as_def
        split: if_splits option.splits prod.splits sum.splits)
  obtain q wh s where p: "wh_start_send (w_tr w) g (write_half cn1) (stream cn1) = (q, wh, s)"
    by (metis prod_cases3)
  then obtain v where q: "q = Ok v" using assms(2) c g by (cases q) (auto simp: start_send_def)
  have "sent s = sent (stream cn1) @ [g]"
    using streaming_conn.wh_send_sent [OF streaming_conn.intro [OF assms(1)] p] q by simp
  moreover have "streaming wh = (if is_control (opcode f) then streaming (write_half cn) else \<not> fin f)"
    using p sa keep by (auto simp: wh_start_send_def Let_def sent_as_def split: prod.splits if_splits)
  moreover have "stream cn' = s" "write_half cn' = wh" "deflate cn' = deflate cn1"
    "compression_threshold cn' = compression_threshold cn1"
    using assms(2) c g p q by (auto simp: start_send_def Let_def split: if_splits)
  ultimately show ?thesis using sa keep by auto
qed

text \<open>
  The frames of a fragmented message after its first one: continuations without RSV1,
  with control frames unchanged between them.
\<close>

lemma send_all_rest:
  assumes "frame_sink (w_tr w) sent" "send_all w fs cn = (Ok u, cn')" "deflate cn \<noteq> None"
    "data_frames fs = gs" "list_all (\<lambda>g. opcode g = Continuation) gs"
    "map fin gs = replicate (length gs) False \<or> (gs \<noteq> [] \<and> map fin gs = replicate (length gs - 1) False @ [True])"
    "gs \<noteq> [] \<Longrightarrow> streaming (write_half cn)"
  shows "\<exists>hs. sent (stream cn') = sent (stream cn) @ hs \<and> list_all2 (sent_as False) fs hs"
  using assms
proof (induction fs arbitrary: cn gs)
  case (Cons f fs)
  obtain cn1 where s: "start_send w f cn = (Ok (), cn1)" and rest: "send_all w fs cn1 = (Ok u, cn')"
    using Cons.prems(2) by (auto split: prod.splits sum.splits)
  have "is_control (opcode f) \<or> should_compress cn f"
    using Cons.prems(4,5) by (auto simp: should_compress_def split: if_splits)
  then obtain g where g: "sent (stream cn1) = sent (stream cn) @ [g]"
    "sent_as (\<not> streaming (write_half cn)) f g"
    "streaming (write_half cn1) = (if is_control (opcode f) then streaming (write_half cn) else \<not> fin f)"
    "deflate cn1 \<noteq> None"
    using start_send_sent [OF Cons.prems(1) s Cons.prems(3)] by auto
  have rsv: "sent_as False f g"
    using g(2) Cons.prems(4,7) by (auto simp: sent_as_def split: if_splits)
  define ks where "ks = data_frames fs"
  have "\<exists>hs. sent (stream cn') = sent (stream cn1) @ hs \<and> list_all2 (sent_as False) fs hs"
  proof (rule Cons.IH [OF Cons.prems(1) rest g(4) ks_def [symmetric]])
    show "list_all (\<lambda>g. opcode g = Continuation) ks"
      using Cons.prems(4,5) by (auto simp: ks_def split: if_splits)
    show "map fin ks = replicate (length ks) False \<or>
        (ks \<noteq> [] \<and> map fin ks = replicate (length ks - 1) False @ [True])"
      using Cons.prems(4,6) by (cases ks) (auto simp: ks_def split: if_splits)
    show "streaming (write_half cn1)" if "ks \<noteq> []"
      using that g(3) Cons.prems(4,6,7) by (cases ks) (auto simp: ks_def split: if_splits)
  qed
  then show ?case using g(1) rsv by (auto simp: list_all2_Cons1)
qed simp

lemma sent_as_all:
  assumes "list_all2 (sent_as False) fs hs"
  shows "map is_compressed (data_frames hs) = replicate (length (data_frames fs)) False \<and>
    control_frames hs = control_frames fs \<and> map opcode hs = map opcode fs \<and> map fin hs = map fin fs"
  using assms by (induction fs hs rule: list_all2_induct) (auto simp: sent_as_def split: if_splits)

text \<open>
  C28. RSV1 marks the first frame of a compressed message only: when a fragmented
  message is sent over a connection with a compressor, with any control frames in
  between, the frames handed to the transport keep their order, opcodes and FIN bits,
  the first data frame has RSV1 set, no continuation has, and control frames go out
  untouched.
\<close>

theorem rsv1_on_first_frame_only:
  assumes "frame_sink (w_tr w) sent" "send_all w fs cn = (Ok u, cn')" "deflate cn \<noteq> None"
    and "\<not> streaming (write_half cn)" "data_frames fs = g # gs" "opcode g \<in> {Text, Binary}" "\<not> fin g"
    and "gs \<noteq> []" "list_all (\<lambda>h. opcode h = Continuation) gs"
    and "map fin gs = replicate (length gs - 1) False @ [True]"
  shows "\<exists>hs. sent (stream cn') = sent (stream cn) @ hs \<and>
    map opcode hs = map opcode fs \<and> map fin hs = map fin fs \<and>
    map is_compressed (data_frames hs) = True # replicate (length gs) False \<and>
    control_frames hs = control_frames fs"
  using assms(2-5)
proof (induction fs arbitrary: cn)
  case (Cons f fs)
  obtain cn1 where s: "start_send w f cn = (Ok (), cn1)" and rest: "send_all w fs cn1 = (Ok u, cn')"
    using Cons.prems(1) by (auto split: prod.splits sum.splits)
  have "is_control (opcode f) \<or> should_compress cn f"
    using Cons.prems(4) assms(7) by (auto simp: should_compress_def split: if_splits)
  then obtain h where h: "sent (stream cn1) = sent (stream cn) @ [h]" "sent_as True f h"
    "streaming (write_half cn1) = (if is_control (opcode f) then streaming (write_half cn) else \<not> fin f)"
    "deflate cn1 \<noteq> None"
    using start_send_sent [OF assms(1) s Cons.prems(2)] Cons.prems(3) by auto
  show ?case
  proof (cases "is_control (opcode f)")
    case True
    then obtain hs where "sent (stream cn') = sent (stream cn1) @ hs" "map opcode hs = map opcode fs"
      "map fin hs = map fin fs" "map is_compressed (data_frames hs) = True # replicate (length gs) False"
      "control_frames hs = control_frames fs"
      using Cons.IH [OF rest h(4)] Cons.prems(3,4) h(3) by auto
    then show ?thesis using True h(1,2) by (intro exI [of _ "h # hs"]) (auto simp: sent_as_def)
  next
    case False
    then have f: "f = g" and fs: "data_frames fs = gs" using Cons.prems(4) by auto
    obtain hs where hs: "sent (stream cn') = sent (stream cn1) @ hs" "list_all2 (sent_as False) fs hs"
      using send_all_rest [OF assms(1) rest h(4) fs assms(9)] assms(7,8,10) h(3) False f by auto
    show ?thesis using False h(1,2) hs(1) sent_as_all [OF hs(2)] fs
      by (intro exI [of _ "h # hs"]) (auto simp: sent_as_def)
  qed
qed simp

theorem rsv1_on_first_frame_only_witness:
  "\<exists>u cn' hs. send_all demo_world [with_fin False (text_frame [1]), ping_frame [], continuation_frame [2]]
       ((demo_conn [])\<lparr>deflate := Some ()\<rparr>) = (Ok u, cn') \<and>
    fr_log (stream cn') = fr_log (stream ((demo_conn [])\<lparr>deflate := Some ()\<rparr>)) @ hs \<and>
    map opcode hs = map opcode [with_fin False (text_frame [1]), ping_frame [], continuation_frame [2]] \<and>
    map fin hs = map fin [with_fin False (text_frame [1]), ping_frame [], continuation_frame [2]] \<and>
    map is_compressed (data_frames hs) = True # replicate (length [continuation_frame [2]]) False \<and>
    control_frames hs = control_frames [with_fin False (text_frame [1]), ping_frame [], continuation_frame [2]]"
proof -
  let ?fs = "[with_fin False (text_frame [1]), ping_frame [], continuation_frame [2]]"
  let ?cn = "(demo_conn [])\<lparr>deflate := Some ()\<rparr>"
  have "is_ok (fst (send_all demo_world ?fs ?cn))" by code_simp
  then obtain u cn' where r: "send_all demo_world ?fs ?cn = (Ok u, cn')"
    by (cases "send_all demo_world ?fs ?cn"; cases "fst (send_all demo_world ?fs ?cn)") auto
  have sink: "frame_sink (w_tr demo_world) fr_log"
    using framed.frame_sink_axioms by (simp add: demo_world_def)
  have "\<exists>hs. fr_log (stream cn') = fr_log (stream ?cn) @ hs \<and> map opcode hs = map opcode ?fs \<and>
      map fin hs = map fin ?fs \<and>
      map is_compressed (data_frames hs) = True # replicate (length [continuation_frame [2]]) False \<and>
      control_frames hs = control_frames ?fs"
    by (rule rsv1_on_first_frame_only [OF sink r, where g = "with_fin False (text_frame [1])"])
      (simp_all add: frame_simps demo_conn_def conn_new_def write_half_new_def)
  then show ?thesis by (intro exI [of _ u] exI [of _ cn']) (simp only: r simp_thms)
qed

text \<open>Sending without compression over a transport that accepts writes.\<close>

lemma start_send_plain:
  assumes "frame_sink (w_tr w) sent" "prompt (w_tr w)" "deflate cn = None"
  shows "\<exists>cn'. start_send w f cn = (Ok (), cn') \<and> sent (stream cn') = sent (stream cn) @ [f] \<and>
    deflate cn' = None \<and> obligated_sends cn' = obligated_sends cn \<and>
    close_state (write_half cn') = (if opcode f = Close then Some Flushing else close_state (write_half cn))"
proof -
  obtain t where t: "tr_send (w_tr w) f (stream cn) = (Ok (), t)" using prompt_send [OF assms(2)] by blast
  then have "sent t = sent (stream cn) @ [f]" using frame_sink.send_ok [OF assms(1)] by blast
  then show ?thesis using t assms(3)
    by (auto simp: start_send_def compress_frame_def wh_start_send_def Let_def)
qed

lemma poll_ready_prompt:
  assumes "frame_sink (w_tr w) sent" "prompt (w_tr w)" "obligated_sends cn = []"
    "close_state (write_half cn) \<noteq> Some Done"
  shows "\<exists>cn'. poll_ready w k cn = (Ready (Ok ()), cn') \<and> sent (stream cn') = sent (stream cn) \<and>
    deflate cn' = deflate cn \<and> write_half cn' = write_half cn \<and> obligated_sends cn' = [] \<and>
    compression_threshold cn' = compression_threshold cn"
proof -
  have ready: "\<exists>t. wh_poll_ready (w_tr w) wh s = (Ready (Ok ()), t) \<and> sent t = sent s"
    if "close_state wh \<noteq> Some Done" for wh s
  proof -
    obtain t where "tr_ready (w_tr w) s = (Ready (Ok ()), t)" using prompt_ready [OF assms(2)] by blast
    then show ?thesis using that frame_sink.ready_sent [OF assms(1)] by (auto simp: wh_poll_ready_def)
  qed
  have flush: "\<exists>cn'. poll_flush_obligated w Write k c = (Ready (Ok ()), cn') \<and>
      sent (stream cn') = sent (stream c) \<and> write_half cn' = write_half c \<and> deflate cn' = deflate c \<and>
      obligated_sends cn' = [] \<and> compression_threshold cn' = compression_threshold c"
    if "obligated_sends c = []" for c
  proof -
    obtain t where t: "tr_flush (w_tr w) (stream c) = (Ready (Ok ()), t)" using prompt_flush [OF assms(2)] by blast
    then show ?thesis using that frame_sink.flush_sent [OF assms(1) t]
      by (auto simp: poll_flush_obligated_def with_proxy_def poll_with_context_def wh_poll_flush_def)
  qed
  show ?thesis
  proof (cases "\<not> flush_sends cn \<and> tr_write_len (w_tr w) (stream cn) < tr_boundary (w_tr w) (stream cn)")
    case True
    obtain t where "wh_poll_ready (w_tr w) (write_half cn) (stream cn) = (Ready (Ok ()), t)" "sent t = sent (stream cn)"
      using ready [OF assms(4)] by blast
    then show ?thesis using True assms(3) by (auto simp: poll_ready_def)
  next
    case False
    let ?c = "cn\<lparr>wake_proxy := set_waker Write k (wake_proxy cn)\<rparr>"
    obtain c1 where c1: "poll_flush_obligated w Write k ?c = (Ready (Ok ()), c1)"
      "sent (stream c1) = sent (stream cn)" "write_half c1 = write_half cn" "deflate c1 = deflate cn"
      "obligated_sends c1 = []" "compression_threshold c1 = compression_threshold cn"
      using flush [of ?c] assms(3) by auto
    obtain t where "wh_poll_ready (w_tr w) (write_half c1) (stream c1) = (Ready (Ok ()), t)" "sent t = sent (stream c1)"
      using ready [of "write_half c1" "stream c1"] assms(4) c1(3) by auto
    then show ?thesis using False assms(3) c1 by (auto simp: poll_ready_def)
  qed
qed

text \<open>
  C39. Nothing stops data after a Close: once a Close frame has been handed to the
  transport, the connection still accepts a text frame and hands it over after the
  Close.
\<close>

theorem data_sent_after_close:
  assumes "frame_sink (w_tr w) sent" "prompt (w_tr w)" "deflate cn = None" "obligated_sends cn = []"
    and "start_send w (close_frame code reason) cn = (Ok (), cn1)"
  shows "\<exists>cn2 cn3. poll_ready w k cn1 = (Ready (Ok ()), cn2) \<and>
    start_send w (text_frame p) cn2 = (Ok (), cn3) \<and>
    sent (stream cn3) = sent (stream cn) @ [close_frame code reason, text_frame p]"
proof -
  obtain cn1' where c1: "start_send w (close_frame code reason) cn = (Ok (), cn1')"
    "sent (stream cn1') = sent (stream cn) @ [close_frame code reason]" "deflate cn1' = None"
    "obligated_sends cn1' = []" "close_state (write_half cn1') = Some Flushing"
    using start_send_plain [OF assms(1-3), of "close_frame code reason"] assms(4)
    by (auto simp: close_frame_def)
  then have "cn1' = cn1" using assms(5) by simp
  note c1 = c1 [unfolded this]
  obtain cn2 where c2: "poll_ready w k cn1 = (Ready (Ok ()), cn2)" "sent (stream cn2) = sent (stream cn1)"
    "deflate cn2 = None"
    using poll_ready_prompt [OF assms(1,2) c1(4), of k] c1(3,5) by auto
  obtain cn3 where "start_send w (text_frame p) cn2 = (Ok (), cn3)"
    "sent (stream cn3) = sent (stream cn2) @ [text_frame p]"
    using start_send_plain [OF assms(1,2) c2(3), of "text_frame p"] by auto
  then show ?thesis using c1(2) c2(1,2) by auto
qed

theorem data_sent_after_close_witness:
  "\<exists>cn1 cn2 cn3. start_send demo_world (close_frame Normal []) (demo_conn []) = (Ok (), cn1) \<and>
    poll_ready demo_world 1 cn1 = (Ready (Ok ()), cn2) \<and>
    start_send demo_world (text_frame [0x48]) cn2 = (Ok (), cn3) \<and>
    fr_log (stream cn3) = fr_log (stream (demo_conn [])) @ [close_frame Normal [], text_frame [0x48]]"
proof -
  have sink: "frame_sink (w_tr demo_world) fr_log" and pr: "prompt (w_tr demo_world)"
    using framed.frame_sink_axioms framed_prompt by (simp_all add: demo_world_def)
  have c: "deflate (demo_conn []) = None" "obligated_sends (demo_conn []) = []"
    by (simp_all add: demo_conn_def conn_new_def)
  obtain cn1 where s: "start_send demo_world (close_frame Normal []) (demo_conn []) = (Ok (), cn1)"
    using start_send_plain [OF sink pr c(1)] by blast
  show ?thesis
    using s data_sent_after_close [OF sink pr c s, of 1 "[0x48]"] by blast
qed

end
