(* ===== verification/Framed_Read.thy ===== *)
theory Framed_Read
  imports Transport
begin

text \<open>
  What reading from a transport promises: the interface \<open>finite_source\<close> of a
  transport that holds finitely many bytes, so that every frame it returns leaves
  less to read, and the frames the in-memory transport returns for a given byte
  stream, however the stream is cut into reads.
\<close>

section \<open>Finite input\<close>

locale finite_source =
  fixes tr :: "'s transport" and avail :: "'s \<Rightarrow> nat" and live :: "'s \<Rightarrow> bool"
  assumes next_live: "live s \<Longrightarrow> tr_next tr s = (r, s') \<Longrightarrow> live s'"
    and next_wait: "live s \<Longrightarrow> tr_next tr s = (Pending, s') \<Longrightarrow> avail s' \<le> avail s"
    and next_less: "live s \<Longrightarrow> tr_next tr s = (Ready (Some (Ok f)), s') \<Longrightarrow> avail s' < avail s"
    and ready_live: "live s \<Longrightarrow> live (snd (tr_ready tr s))"
    and send_live: "live s \<Longrightarrow> live (snd (tr_send tr f s))"
    and flush_live: "live s \<Longrightarrow> live (snd (tr_flush tr s))"
    and resize_live: "live (tr_resize_read tr n s) = live s" "avail (tr_resize_read tr n s) = avail s"

section \<open>The in-memory transport\<close>

definition framed_avail :: "framed \<Rightarrow> nat" where
  "framed_avail s = length (fr_read s) + length (concat (fr_input s))"

definition framed_live :: "framed \<Rightarrow> bool" where
  "framed_live s \<longleftrightarrow> decoder_wf (codec_decoder (fr_codec s))"

lemma framed_next_avail:
  assumes "decoder_wf (codec_decoder (fr_codec s))" "framed_next input s = (r, s')"
  shows "framed_live s' \<and>
    (r = Pending \<longrightarrow> framed_avail s' \<le> length (fr_read s) + length (concat input)) \<and>
    (\<forall>f. r = Ready (Some (Ok f)) \<longrightarrow> framed_avail s' < length (fr_read s) + length (concat input))"
  using assms
proof (induction input arbitrary: s)
  case Nil
  obtain q d buf where d: "decode (fr_hw s) (codec_decoder (fr_codec s)) (fr_read s) = (q, d, buf)"
    by (metis prod_cases3)
  note facts = dec.step_inv [OF Nil.prems(1) d] dec.step_wait_le [OF Nil.prems(1)] dec.step_item_less [OF Nil.prems(1)]
    dec.step_defined [OF Nil.prems(1), of "fr_hw s" "fr_read s"]
  show ?case using Nil.prems(2) d facts
    by (cases q) (auto simp: framed_next.simps [of "[]"] codec_decode_def framed_live_def framed_avail_def
        split: if_splits)
next
  case (Cons chunk input)
  obtain q d buf where d: "decode (fr_hw s) (codec_decoder (fr_codec s)) (fr_read s) = (q, d, buf)"
    by (metis prod_cases3)
  note facts = dec.step_inv [OF Cons.prems(1) d] dec.step_wait_le [OF Cons.prems(1)]
    dec.step_item_less [OF Cons.prems(1)] dec.step_defined [OF Cons.prems(1), of "fr_hw s" "fr_read s"]
  let ?s = "s\<lparr>fr_codec := (fr_codec s)\<lparr>codec_decoder := d\<rparr>, fr_read := buf @ chunk\<rparr>"
  show ?case
  proof (cases q)
    case Need_More
    then have "framed_next input ?s = (r, s')"
      using Cons.prems(2) d by (simp add: framed_next.simps [of "chunk # input"] codec_decode_def)
    then show ?thesis using Cons.IH [of ?s] facts d Need_More by fastforce
  qed (use Cons.prems(2) d facts in
      \<open>auto simp: framed_next.simps [of "chunk # input"] codec_decode_def framed_live_def framed_avail_def\<close>)
qed

interpretation framed_source: finite_source framed_transport framed_avail framed_live
proof unfold_locales
  fix s s' :: framed and r
  assume "framed_live s" "tr_next framed_transport s = (r, s')"
  then have *: "framed_live s' \<and> (r = Pending \<longrightarrow> framed_avail s' \<le> framed_avail s) \<and>
      (\<forall>f. r = Ready (Some (Ok f)) \<longrightarrow> framed_avail s' < framed_avail s)"
    using framed_next_avail [of s "fr_input s" r s']
    by (simp add: framed_live_def framed_avail_def framed_transport_def)
  then show "framed_live s'" by blast
next
  fix s :: framed and f
  assume "framed_live s"
  then show "framed_live (snd (tr_ready framed_transport s))" "framed_live (snd (tr_send framed_transport f s))"
    "framed_live (snd (tr_flush framed_transport s))"
    by (auto simp: framed_live_def framed_transport_def framed_ready_def framed_flush_def framed_send_def
        split: option.split)
qed (use framed_next_avail in \<open>fastforce simp: framed_live_def framed_avail_def framed_transport_def\<close>)+

text \<open>
  When the decoder, given all bytes that are still to come, yields a frame, the
  transport returns this frame, however these bytes are cut, and keeps the rest.
\<close>

lemma framed_next_item:
  assumes "decoder_wf (codec_decoder (fr_codec s))"
    "decode (fr_hw s) (codec_decoder (fr_codec s)) (fr_read s @ concat input) = (Item f, d, rest)"
  shows "\<exists>buf input'. buf @ concat input' = rest \<and> framed_next input s =
    (Ready (Some (Ok f)), s\<lparr>fr_codec := (fr_codec s)\<lparr>codec_decoder := d\<rparr>, fr_read := buf, fr_input := input'\<rparr>)"
  using assms
proof (induction input arbitrary: s)
  case Nil
  then show ?case
    by (intro exI [of _ rest] exI [of _ "[]"]) (simp add: framed_next.simps [of "[]"] codec_decode_def)
next
  case (Cons chunk input)
  obtain q d1 buf where d: "decode (fr_hw s) (codec_decoder (fr_codec s)) (fr_read s) = (q, d1, buf)"
    by (metis prod_cases3)
  let ?s = "s\<lparr>fr_codec := (fr_codec s)\<lparr>codec_decoder := d1\<rparr>, fr_read := buf @ chunk\<rparr>"
  show ?case
  proof (cases q)
    case Need_More
    then have "decode (fr_hw s) d1 (buf @ concat (chunk # input)) = (Item f, d, rest)"
      using dec.step_wait [OF Cons.prems(1), of "fr_hw s" "fr_read s" d1 buf] d Cons.prems(2) by simp
    then obtain buf' input' where "buf' @ concat input' = rest" "framed_next input ?s =
        (Ready (Some (Ok f)), ?s\<lparr>fr_codec := (fr_codec s)\<lparr>codec_decoder := d\<rparr>, fr_read := buf', fr_input := input'\<rparr>)"
      using Cons.IH [of ?s] dec.step_inv [OF Cons.prems(1) d] by auto
    then show ?thesis using d Need_More
      by (auto simp: framed_next.simps [of "chunk # input"] codec_decode_def)
  next
    case (Item g)
    then have "decode (fr_hw s) (codec_decoder (fr_codec s)) (fr_read s @ concat (chunk # input))
        = (Item g, d1, buf @ concat (chunk # input))"
      using dec.step_item [OF Cons.prems(1), of "fr_hw s" "fr_read s" g d1 buf] d by simp
    then show ?thesis using d Item Cons.prems(2)
      by (intro exI [of _ buf] exI [of _ "chunk # input"])
        (auto simp: framed_next.simps [of "chunk # input"] codec_decode_def)
  next
    case (Failure e)
    then show ?thesis using dec.step_fail [OF Cons.prems(1), of "fr_hw s" "fr_read s" e d1 buf] d Cons.prems(2)
      by auto
  next
    case Undefined
    then show ?thesis using dec.step_defined [OF Cons.prems(1), of "fr_hw s" "fr_read s"] d by simp
  qed
qed

end
