(* ===== verification/Web_Socket.thy ===== *)
theory Web_Socket
  imports Streaming Fragment Framed_Read
begin

text \<open>
  The message layer (\<open>WebSocket\<close> in \<open>src/native/mod.rs\<close>): a streaming connection
  with the fragment layer on top, so that a reader gets whole messages and a
  writer may have its messages fragmented.

  The loop of \<open>poll_next_frame\<close> runs as long as fragments of an unfinished message
  arrive, which the peer decides; it is a partial function whose value \<open>None\<close> means
  that the poll never returns.  \<open>clock i\<close> is what \<open>Instant::now\<close> shows in its \<open>i\<close>-th
  round.
\<close>

section \<open>State\<close>

record ('s, 'c, 'd) web_socket =
  ws_streaming :: "('s, 'c, 'd) conn"
  check_utf8 :: bool
  ws_layer :: fragment_layer

definition into_streaming :: "('s, 'c, 'd) web_socket \<Rightarrow> ('s, 'c, 'd) conn" where
  "into_streaming ws = ws_streaming ws"

section \<open>Reading\<close>

definition ws_on_frame ::
  "nat \<Rightarrow> frame \<Rightarrow> ('s, 'c, 'd) web_socket \<Rightarrow> frame option res \<times> ('s, 'c, 'd) web_socket"
where
  "ws_on_frame now f ws =
    (case assemble_incoming now f (ws_layer ws) of
       (Err e, l) \<Rightarrow> (Err e, ws\<lparr>ws_layer := l\<rparr>)
     | (Ok None, l) \<Rightarrow> (Ok None, ws\<lparr>ws_layer := l\<rparr>)
     | (Ok (Some m), l) \<Rightarrow>
         if opcode m = Text \<and> check_utf8 ws \<and> from_utf8 (payload m) = None
         then (Err InvalidUTF8, ws\<lparr>ws_layer := l\<rparr>)
         else (Ok (Some m), ws\<lparr>ws_layer := l\<rparr>))"

partial_function (option) ws_poll_loop ::
  "('s, 'c, 'd) world \<Rightarrow> nat \<Rightarrow> (nat \<Rightarrow> nat) \<Rightarrow> nat \<Rightarrow> ('s, 'c, 'd) web_socket \<Rightarrow>
   (frame res poll \<times> ('s, 'c, 'd) web_socket) option"
where
  "ws_poll_loop w waker clock i ws =
    (case poll_next_frame_with_limit w waker (remaining_read_capacity (ws_layer ws)) (ws_streaming ws) of
       (Pending, cn) \<Rightarrow> Some (Pending, ws\<lparr>ws_streaming := cn\<rparr>)
     | (Ready (Err e), cn) \<Rightarrow> Some (Ready (Err e), ws\<lparr>ws_streaming := cn\<rparr>)
     | (Ready (Ok f), cn) \<Rightarrow>
         (case ws_on_frame (clock i) f (ws\<lparr>ws_streaming := cn\<rparr>) of
            (Err e, ws) \<Rightarrow> Some (Ready (Err e), ws)
          | (Ok (Some m), ws) \<Rightarrow> Some (Ready (Ok m), ws)
          | (Ok None, ws) \<Rightarrow> ws_poll_loop w waker clock (Suc i) ws))"

declare ws_poll_loop.simps [code]

lemmas ws_poll_loop_induct = ws_poll_loop.raw_induct [rotated, consumes 1, case_names step]

definition ws_poll_next_frame ::
  "('s, 'c, 'd) world \<Rightarrow> nat \<Rightarrow> (nat \<Rightarrow> nat) \<Rightarrow> ('s, 'c, 'd) web_socket \<Rightarrow>
   (frame res poll \<times> ('s, 'c, 'd) web_socket) option"
where
  "ws_poll_next_frame w waker clock ws = ws_poll_loop w waker clock 0 ws"

definition ws_poll_next ::
  "('s, 'c, 'd) world \<Rightarrow> nat \<Rightarrow> (nat \<Rightarrow> nat) \<Rightarrow> ('s, 'c, 'd) web_socket \<Rightarrow>
   (frame option poll \<times> ('s, 'c, 'd) web_socket) option"
where
  "ws_poll_next w waker clock ws =
    map_option (\<lambda>(r, ws).
      (case r of
         Pending \<Rightarrow> Pending
       | Ready (Ok f) \<Rightarrow> Ready (Some f)
       | Ready (Err _) \<Rightarrow> Ready None, ws)) (ws_poll_next_frame w waker clock ws)"

section \<open>Writing\<close>

function poll_flush_fragments ::
  "('s, 'c, 'd) world \<Rightarrow> nat \<Rightarrow> ('s, 'c, 'd) web_socket \<Rightarrow> unit res poll \<times> ('s, 'c, 'd) web_socket"
where
  "poll_flush_fragments w waker ws =
    (if has_outgoing_fragments (ws_layer ws) then
       (case poll_ready w waker (ws_streaming ws) of
          (Pending, cn) \<Rightarrow> (Pending, ws\<lparr>ws_streaming := cn\<rparr>)
        | (Ready (Err e), cn) \<Rightarrow> (Ready (Err e), ws\<lparr>ws_streaming := cn\<rparr>)
        | (Ready (Ok _), cn) \<Rightarrow>
            (case pop_outgoing_fragment (ws_layer ws) of
               (None, l) \<Rightarrow> poll_flush_fragments w waker (ws\<lparr>ws_streaming := cn, ws_layer := l\<rparr>)
             | (Some f, l) \<Rightarrow>
                 (case start_send w f cn of
                    (Err e, cn) \<Rightarrow> (Ready (Err e), ws\<lparr>ws_streaming := cn, ws_layer := l\<rparr>)
                  | (Ok _, cn) \<Rightarrow> poll_flush_fragments w waker (ws\<lparr>ws_streaming := cn, ws_layer := l\<rparr>))))
     else (Ready (Ok ()), ws))"
  by pat_completeness auto
termination
  by (relation "measure (\<lambda>(w, k, ws). length (outgoing_fragments (ws_layer ws)))")
    (auto simp: has_outgoing_fragments_def pop_outgoing_fragment_def split: list.splits)

declare poll_flush_fragments.simps [simp del]

definition ws_poll_ready ::
  "('s, 'c, 'd) world \<Rightarrow> nat \<Rightarrow> ('s, 'c, 'd) web_socket \<Rightarrow> unit res poll \<times> ('s, 'c, 'd) web_socket"
where
  "ws_poll_ready w waker ws =
    (case poll_flush_fragments w waker ws of
       (Pending, ws) \<Rightarrow> (Pending, ws)
     | (Ready (Err e), ws) \<Rightarrow> (Ready (Err e), ws)
     | (Ready (Ok _), ws) \<Rightarrow>
         (case poll_ready w waker (ws_streaming ws) of (r, cn) \<Rightarrow> (r, ws\<lparr>ws_streaming := cn\<rparr>)))"

definition ws_start_send ::
  "('s, 'c, 'd) world \<Rightarrow> frame \<Rightarrow> ('s, 'c, 'd) web_socket \<Rightarrow> (unit res \<times> ('s, 'c, 'd) web_socket) exec"
where
  "ws_start_send w f ws =
    (if fragment_size (ws_layer ws) = None then
       (case start_send w f (ws_streaming ws) of (r, cn) \<Rightarrow> Finished (r, ws\<lparr>ws_streaming := cn\<rparr>))
     else
       case fragment_outgoing f (ws_layer ws) of
         Finished l \<Rightarrow> Finished (Ok (), ws\<lparr>ws_layer := l\<rparr>)
       | Panic \<Rightarrow> Panic
       | Diverges \<Rightarrow> Diverges)"

definition ws_poll_flush ::
  "('s, 'c, 'd) world \<Rightarrow> nat \<Rightarrow> ('s, 'c, 'd) web_socket \<Rightarrow> unit res poll \<times> ('s, 'c, 'd) web_socket"
where
  "ws_poll_flush w waker ws =
    (case poll_flush_fragments w waker ws of
       (Pending, ws) \<Rightarrow> (Pending, ws)
     | (Ready (Err e), ws) \<Rightarrow> (Ready (Err e), ws)
     | (Ready (Ok _), ws) \<Rightarrow>
         (case poll_flush w waker (ws_streaming ws) of (r, cn) \<Rightarrow> (r, ws\<lparr>ws_streaming := cn\<rparr>)))"

definition ws_poll_close ::
  "('s, 'c, 'd) world \<Rightarrow> nat \<Rightarrow> ('s, 'c, 'd) web_socket \<Rightarrow> unit res poll \<times> ('s, 'c, 'd) web_socket"
where
  "ws_poll_close w waker ws =
    (case poll_close w waker (ws_streaming ws) of (r, cn) \<Rightarrow> (r, ws\<lparr>ws_streaming := cn\<rparr>))"

section \<open>A poll returns\<close>

lemma decompress_frame_stream: "decompress_frame w f limit cn = (q, cn') \<Longrightarrow> stream cn' = stream cn"
  by (cases "inflate cn") (auto simp: decompress_frame_def split: if_splits prod.splits sum.splits)

lemma on_data_stream: "on_data w f limit cn = (q, cn') \<Longrightarrow> stream cn' = stream cn"
  by (auto simp: on_data_def Let_def split: prod.splits sum.splits if_splits dest!: decompress_frame_stream)

lemma on_frame_stream: "on_frame w f limit cn = (q, cn') \<Longrightarrow> stream cn' = stream cn"
  by (cases "opcode f")
    (auto simp: on_frame_def on_ping_def on_close_def emit_close_def split: sum.splits dest: on_data_stream)

lemma next_cases:
  fixes q :: "frame res option poll"
  obtains "q = Pending" | "q = Ready None" | e where "q = Ready (Some (Err e))" | f where "q = Ready (Some (Ok f))"
  by (metis poll.exhaust option.exhaust sum.exhaust)

text \<open>A transport over the world's transport record, with finite input.\<close>

context finite_source
begin

lemma read_poll_avail:
  assumes "w_tr w = tr" "live (stream cn)" "read_poll w cn = (r, cn')"
  shows "live (stream cn') \<and> (r = Pending \<longrightarrow> avail (stream cn') \<le> avail (stream cn)) \<and>
    (\<forall>f. r = Ready (Ok f) \<longrightarrow> avail (stream cn') < avail (stream cn))"
proof (cases "is_closed (read_half cn)")
  case True
  then show ?thesis using assms by (auto simp: read_poll_def poll_frame_def)
next
  case False
  obtain q s where q: "tr_next tr (stream cn) = (q, s)" by fastforce
  have "stream cn' = s \<and> (r = Pending \<longrightarrow> q = Pending) \<and> (\<forall>f. r = Ready (Ok f) \<longrightarrow> (\<exists>g. q = Ready (Some (Ok g))))"
    using assms(1,3) q False
    by (cases q rule: next_cases) (auto simp: read_poll_def poll_frame_def split: prod.splits)
  then show ?thesis
    using next_live [OF assms(2) q] next_wait [OF assms(2), of s] next_less [OF assms(2), of _ s] q by auto
qed

lemma poll_read_half_avail:
  assumes "w_tr w = tr" "live (stream cn)" "poll_read_half w k cn = (r, cn')"
  shows "live (stream cn') \<and> (\<forall>f. r = Ready (Ok f) \<longrightarrow> avail (stream cn') < avail (stream cn))"
proof (cases "tr_read_len (w_tr w) (stream cn) = 0")
  case True
  then have "read_poll w (cn\<lparr>wake_proxy := set_waker Read k (wake_proxy cn)\<rparr>) = (r, cn')"
    using assms(3) by (simp add: poll_read_half_def)
  then show ?thesis using read_poll_avail [OF assms(1), of "cn\<lparr>wake_proxy := set_waker Read k (wake_proxy cn)\<rparr>"] assms(2) by simp
next
  case False
  then obtain px cn1 where pw: "poll_with_context Read k (read_poll w) (wake_proxy cn) cn = (r, px, cn1)"
    and cn': "cn' = cn1\<lparr>wake_proxy := px\<rparr>"
    using assms(3) by (auto simp: poll_read_half_def with_proxy_def split: prod.splits)
  from pw show ?thesis
  proof (cases rule: poll_with_context_cases)
    case (once v)
    then show ?thesis using read_poll_avail [OF assms(1,2) once(1)] cn' by simp
  next
    case (twice s1)
    then show ?thesis using read_poll_avail [OF assms(1,2) twice(1)] read_poll_avail [OF assms(1) _ twice(2)] cn'
      by fastforce
  qed
qed

lemma read_frame_avail:
  assumes "w_tr w = tr" "live (stream cn)" "poll_next_frame_with_limit w k limit cn = (Ready (Ok f), cn')"
  shows "live (stream cn') \<and> avail (stream cn') < avail (stream cn)"
proof -
  obtain r cn1 where r: "read_step w k limit cn = (r, cn1)" by fastforce
  then have ok: "r = Ready (Ok f)" "cn' = cn1"
    using assms(3) by (auto simp: poll_next_frame_with_limit_def finish_read_def
        split: poll.splits sum.splits if_splits prod.splits)
  obtain g cn2 where p: "poll_read_half w k cn = (Ready (Ok g), cn2)"
    and o: "on_frame w g limit (release_read_buffer w (length (payload g)) cn2) = (Ok f, cn1)"
    using r ok by (auto simp: read_step_def split: prod.splits poll.splits sum.splits)
  show ?thesis
    using poll_read_half_avail [OF assms(1,2) p] on_frame_stream [OF o] ok resize_live assms(1)
    by (simp add: release_read_buffer_def split: if_splits)
qed

lemma flush_loop_live:
  assumes "w_tr w = tr" "live (stream cn)" "flush_loop w fs cn = (r, cn')"
  shows "live (stream cn')"
  using assms(2,3)
proof (induction fs arbitrary: cn)
  case Nil
  obtain q s where q: "tr_flush tr (stream cn) = (q, s)" by fastforce
  then show ?case using Nil flush_live [OF Nil.prems(1)] assms(1)
    by (auto simp: wh_poll_flush_def split: if_splits poll.splits sum.splits)
next
  case (Cons f fs)
  obtain q s where q: "wh_poll_ready (w_tr w) (write_half cn) (stream cn) = (q, s)" by fastforce
  obtain p wh t where p: "wh_start_send (w_tr w) f (write_half cn) s = (p, wh, t)" by (metis prod_cases3)
  have s: "live s" using q Cons.prems(1) ready_live [OF Cons.prems(1)] assms(1)
    by (auto simp: wh_poll_ready_def split: if_splits)
  have "t = snd (tr_send tr f s)" using p assms(1)
    by (simp add: wh_start_send_def Let_def case_prod_unfold split: if_splits)
  then have "live t" using send_live [OF s] by simp
  then show ?case
    using Cons.prems(2) q p s Cons.IH [of "cn\<lparr>stream := t, write_half := wh, obligated_sends := fs, flush_sends := True\<rparr>"]
    by (cases q; cases p) (auto split: sum.splits)
qed

lemma poll_flush_obligated_live:
  assumes "w_tr w = tr" "live (stream cn)" "poll_flush_obligated w c k cn = (r, cn')"
  shows "live (stream cn')"
proof (cases "obligated_sends cn = [] \<and> \<not> flush_sends cn")
  case False
  let ?f = "\<lambda>cn. flush_loop w (obligated_sends cn) cn"
  obtain px cn1 where pw: "poll_with_context c k ?f (wake_proxy cn) cn = (r, px, cn1)"
    and cn': "cn' = cn1\<lparr>wake_proxy := px\<rparr>"
    using assms False by (auto simp: poll_flush_obligated_def with_proxy_def split: prod.splits)
  from pw show ?thesis
  proof (cases rule: poll_with_context_cases)
    case (once v)
    then show ?thesis using flush_loop_live [OF assms(1,2) once(1)] cn' by simp
  next
    case (twice s1)
    then show ?thesis using flush_loop_live [OF assms(1) _ twice(2)] flush_loop_live [OF assms(1,2) twice(1)] cn'
      by simp
  qed
qed (use assms in \<open>auto simp: poll_flush_obligated_def\<close>)

lemma read_live:
  assumes "w_tr w = tr" "live (stream cn)" "poll_next_frame_with_limit w k limit cn = (r, cn')"
  shows "live (stream cn')"
proof -
  obtain q cn1 where q: "poll_read_half w k cn = (q, cn1)" by fastforce
  note live1 = poll_read_half_avail [OF assms(1,2) q]
  obtain p cn2 where p: "read_step w k limit cn = (p, cn2)" by fastforce
  have "live (stream cn2)"
  proof (cases "\<exists>f. q = Ready (Ok f)")
    case True
    then obtain f where f: "q = Ready (Ok f)" by blast
    then have "on_frame w f limit (release_read_buffer w (length (payload f)) cn1) = (case p of Ready v \<Rightarrow> v, cn2)"
      using p q by (auto simp: read_step_def split: prod.splits)
    from on_frame_stream [OF this] show ?thesis
      using live1 resize_live(1) assms(1) by (simp add: release_read_buffer_def split: if_splits)
  next
    case False
    then show ?thesis using p q live1 by (auto simp: read_step_def split: poll.splits sum.splits)
  qed
  moreover obtain u cn3 where u: "poll_flush_obligated w Read k cn2 = (u, cn3)" by fastforce
  ultimately show ?thesis using assms(3) p u poll_flush_obligated_live [OF assms(1) _ u]
    by (auto simp: poll_next_frame_with_limit_def finish_read_def emit_close_def
        split: poll.splits sum.splits if_splits)
qed

text \<open>The loop of the message layer ends.\<close>

lemma ws_loop_returns:
  assumes "w_tr w = tr" "live (stream (ws_streaming ws))"
  shows "\<exists>r ws'. ws_poll_loop w k clock i ws = Some (r, ws') \<and> live (stream (ws_streaming ws'))"
  using assms
proof (induction "avail (stream (ws_streaming ws))" arbitrary: ws i rule: less_induct)
  case less
  obtain r cn where p: "poll_next_frame_with_limit w k (remaining_read_capacity (ws_layer ws)) (ws_streaming ws) = (r, cn)"
    by fastforce
  show ?case
  proof (cases "\<exists>f. r = Ready (Ok f)")
    case True
    then obtain f where f: "r = Ready (Ok f)" by blast
    obtain q ws1 where q: "ws_on_frame (clock i) f (ws\<lparr>ws_streaming := cn\<rparr>) = (q, ws1)" by fastforce
    then have "ws_streaming ws1 = cn"
      by (auto simp: ws_on_frame_def split: prod.splits sum.splits option.splits if_splits)
    then have "\<exists>r ws'. ws_poll_loop w k clock (Suc i) ws1 = Some (r, ws') \<and> live (stream (ws_streaming ws'))"
      using less.hyps [of ws1 "Suc i"] read_frame_avail [OF less.prems p [unfolded f]] less.prems(1) by simp
    then show ?thesis using p f q \<open>ws_streaming ws1 = cn\<close> read_live [OF less.prems p]
      by (subst ws_poll_loop.simps) (auto split: sum.split option.split)
  next
    case False
    then show ?thesis using p read_live [OF less.prems p] by (subst ws_poll_loop.simps) (auto split: poll.split sum.split)
  qed
qed

end

section \<open>Messages\<close>

text \<open>What the streaming connection delivers to the message layer.\<close>

definition plain_frame :: "frame \<Rightarrow> bool" where
  "plain_frame f \<longleftrightarrow> mask_key f = None \<and> (is_control (opcode f) \<or> \<not> is_compressed f)"

lemma poll_read_half_unmasked:
  assumes "poll_read_half w k cn = (Ready (Ok f), cn')"
  shows "mask_key f = None"
proof -
  have *: "mask_key g = None" if "read_poll w cn1 = (Ready (Ok g), cn2)" for g cn1 cn2
    using that by (auto simp: read_poll_def poll_frame_def on_incoming_def Let_def
        split: prod.splits if_splits poll.splits option.splits sum.splits)
  show ?thesis
  proof (cases "tr_read_len (w_tr w) (stream cn) = 0")
    case True
    then show ?thesis using assms * by (auto simp: poll_read_half_def)
  next
    case False
    then obtain px cn1 where "poll_with_context Read k (read_poll w) (wake_proxy cn) cn = (Ready (Ok f), px, cn1)"
      using assms by (auto simp: poll_read_half_def with_proxy_def split: prod.splits)
    then show ?thesis by (cases rule: poll_with_context_cases) (auto dest: *)
  qed
qed

lemma decompress_frame_plain:
  assumes "decompress_frame w f limit cn = (Ok g, cn')" "mask_key f = None"
  shows "mask_key g = None \<and> \<not> is_compressed g \<and> opcode g = opcode f \<and> max_payload_read cn' = max_payload_read cn"
  using assms by (cases "inflate cn") (auto simp: decompress_frame_def split: if_splits prod.splits sum.splits)

lemma on_data_plain:
  assumes "on_data w f limit cn = (Ok g, cn')" "mask_key f = None"
  shows "plain_frame g \<and> opcode g = opcode f \<and> max_payload_read cn' = max_payload_read cn"
proof -
  define lim where "lim = (if \<not> fin f \<or> opcode f = Continuation then min (max_payload_read cn) limit
    else max_payload_read cn)"
  have "decompress_frame w f lim cn = (Ok g, cn')"
    using assms(1) unfolding on_data_def Let_def lim_def [symmetric]
    by (auto split: prod.splits sum.splits if_splits)
  from decompress_frame_plain [OF this assms(2)] show ?thesis by (simp add: plain_frame_def)
qed

lemma on_frame_plain:
  assumes "on_frame w f limit cn = (Ok g, cn')" "mask_key f = None"
  shows "plain_frame g \<and> max_payload_read cn' = max_payload_read cn"
  using assms on_data_plain [of w f limit cn g cn']
  by (cases "opcode f")
    (auto simp: on_frame_def plain_frame_def on_ping_def on_close_def emit_close_def split: sum.splits)

lemma read_frame_plain:
  assumes "poll_next_frame_with_limit w k limit cn = (Ready (Ok f), cn')"
  shows "plain_frame f \<and> within_limits cn limit f \<and> max_payload_read cn' = max_payload_read cn"
proof -
  obtain r cn1 where r: "read_step w k limit cn = (r, cn1)" by fastforce
  then have ok: "r = Ready (Ok f)" "cn' = cn1"
    using assms by (auto simp: poll_next_frame_with_limit_def finish_read_def
        split: poll.splits sum.splits if_splits prod.splits)
  obtain g cn2 where p: "poll_read_half w k cn = (Ready (Ok g), cn2)"
    and o: "on_frame w g limit (release_read_buffer w (length (payload g)) cn2) = (Ok f, cn1)"
    using r ok by (auto simp: read_step_def split: prod.splits poll.splits sum.splits)
  have "max_payload_read (release_read_buffer w (length (payload g)) cn2) = max_payload_read cn2"
    by (simp add: release_read_buffer_def)
  then show ?thesis
    using on_frame_plain [OF o poll_read_half_unmasked [OF p]] poll_read_half_keeps [OF p]
      read_step_result(2) [OF r, of f] ok by simp
qed

text \<open>The invariant of the layer below a message: what is buffered was delivered decompressed.\<close>

definition ws_ok :: "('s, 'c, 'd) web_socket \<Rightarrow> bool" where
  "ws_ok ws \<longleftrightarrow> layer_ok (ws_layer ws) \<and>
     (case incoming_fragment (ws_layer ws) of None \<Rightarrow> True | Some s \<Rightarrow> \<not> frag_compressed s)"

text \<open>What a reader may rely on of a message.\<close>

definition message_ok :: "bool \<Rightarrow> nat \<Rightarrow> nat \<Rightarrow> frame \<Rightarrow> bool" where
  "message_ok utf8 max_payload max_buffer m \<longleftrightarrow> mask_key m = None \<and>
     (is_control (opcode m) \<or>
      opcode m \<in> {Text, Binary} \<and> fin m \<and> \<not> is_compressed m \<and>
      (length (payload m) < max_payload \<or> length (payload m) < max_buffer) \<and>
      (utf8 \<and> opcode m = Text \<longrightarrow> utf8_valid (payload m)))"

lemma assemble_incoming_plain:
  assumes "assemble_incoming now f l = (Ok r, l')" "plain_frame f" "layer_ok l"
    "case incoming_fragment l of None \<Rightarrow> True | Some s \<Rightarrow> \<not> frag_compressed s"
  shows "(case incoming_fragment l' of None \<Rightarrow> True | Some s \<Rightarrow> \<not> frag_compressed s) \<and>
    (case r of None \<Rightarrow> \<not> is_control (opcode f)
     | Some m \<Rightarrow> mask_key m = None \<and>
         (if is_control (opcode f) then m = f
          else opcode m \<in> {Text, Binary} \<and> fin m \<and> \<not> is_compressed m \<and>
            (m = f \<or> length (payload m) < max_read_buffer l)))"
  using assms
  by (cases "opcode f")
    (auto simp: assemble_incoming_def assemble_data_def assemble_continuation_def plain_frame_def layer_ok_def
      Let_def split: option.splits if_splits)

lemma ws_on_frame_ok:
  assumes "ws_on_frame now f ws = (q, ws')" "plain_frame f" "ws_ok ws"
    "is_control (opcode f) \<or> length (payload f) < max_payload_read (ws_streaming ws)"
  shows "ws_streaming ws' = ws_streaming ws \<and> check_utf8 ws' = check_utf8 ws \<and>
    max_read_buffer (ws_layer ws') = max_read_buffer (ws_layer ws) \<and>
    (\<forall>r. q = Ok r \<longrightarrow> ws_ok ws' \<and>
      (case r of None \<Rightarrow> \<not> is_control (opcode f)
       | Some m \<Rightarrow> (if is_control (opcode f) then m = f else \<not> is_control (opcode m)) \<and>
           message_ok (check_utf8 ws) (max_payload_read (ws_streaming ws)) (max_read_buffer (ws_layer ws)) m))"
proof -
  obtain p l where p: "assemble_incoming now f (ws_layer ws) = (p, l)" by fastforce
  note config = assemble_incoming_config [OF p]
  have lok: "layer_ok l" using assemble_incoming_ok [of "ws_layer ws" now f] assms(3) p by (simp add: ws_ok_def)
  show ?thesis
  proof (cases p)
    case (Inl e)
    then show ?thesis using assms(1) p config by (auto simp: ws_on_frame_def)
  next
    case (Inr r)
    note plain = assemble_incoming_plain [OF p [unfolded Inr] assms(2)]
    show ?thesis
    proof (cases r)
      case None
      then show ?thesis using assms(1,3) p Inr config plain lok by (auto simp: ws_on_frame_def ws_ok_def)
    next
      case (Some m)
      then have "ws' = ws\<lparr>ws_layer := l\<rparr>" using assms(1) p Inr by (auto simp: ws_on_frame_def split: if_splits)
      moreover have "q = Ok r \<or> q = Err InvalidUTF8" "q = Ok r \<Longrightarrow> opcode m = Text \<and> check_utf8 ws \<longrightarrow> utf8_valid (payload m)"
        using assms(1) p Inr Some by (auto simp: ws_on_frame_def from_utf8_def split: if_splits)
      ultimately show ?thesis using assms(3,4) config plain lok Some
        by (cases "is_control (opcode f)") (auto simp: ws_ok_def message_ok_def)
    qed
  qed
qed

lemma flush_loop_payload: "flush_loop w fs cn = (r, cn') \<Longrightarrow> max_payload_read cn' = max_payload_read cn"
proof (induction fs arbitrary: cn)
  case Nil
  then show ?case by (auto split: if_splits prod.splits poll.splits sum.splits)
next
  case (Cons f fs)
  obtain q s where q: "wh_poll_ready (w_tr w) (write_half cn) (stream cn) = (q, s)" by fastforce
  obtain p wh t where p: "wh_start_send (w_tr w) f (write_half cn) s = (p, wh, t)" by (metis prod_cases3)
  show ?case
    using Cons.prems q p Cons.IH [of "cn\<lparr>stream := t, write_half := wh, obligated_sends := fs, flush_sends := True\<rparr>"]
    by (cases q; cases p) (auto split: sum.splits)
qed

lemma poll_flush_obligated_payload:
  assumes "poll_flush_obligated w c k cn = (r, cn')"
  shows "max_payload_read cn' = max_payload_read cn"
proof (cases "obligated_sends cn = [] \<and> \<not> flush_sends cn")
  case False
  let ?f = "\<lambda>cn. flush_loop w (obligated_sends cn) cn"
  obtain px cn1 where pw: "poll_with_context c k ?f (wake_proxy cn) cn = (r, px, cn1)"
    and cn': "cn' = cn1\<lparr>wake_proxy := px\<rparr>"
    using assms False by (auto simp: poll_flush_obligated_def with_proxy_def split: prod.splits)
  from pw show ?thesis
    by (cases rule: poll_with_context_cases) (auto simp: cn' dest!: flush_loop_payload)
qed (use assms in \<open>auto simp: poll_flush_obligated_def\<close>)

lemma on_frame_payload:
  "on_frame w f limit cn = (q, cn') \<Longrightarrow> max_payload_read cn' = max_payload_read cn"
proof -
  assume a: "on_frame w f limit cn = (q, cn')"
  have d: "max_payload_read cn2 = max_payload_read cn" if "decompress_frame w f lim cn = (p, cn2)" for p cn2 lim
    using that by (cases "inflate cn") (auto simp: decompress_frame_def split: if_splits prod.splits sum.splits)
  have "max_payload_read cn2 = max_payload_read cn" if "on_data w f limit cn = (p, cn2)" for p cn2
    using that by (auto simp: on_data_def Let_def split: prod.splits sum.splits if_splits dest!: d)
  then show ?thesis using a
    by (cases "opcode f") (auto simp: on_frame_def on_ping_def on_close_def emit_close_def split: sum.splits)
qed

lemma read_payload:
  assumes "poll_next_frame_with_limit w k limit cn = (r, cn')"
  shows "max_payload_read cn' = max_payload_read cn"
proof -
  obtain q cn1 where q: "poll_read_half w k cn = (q, cn1)" by fastforce
  obtain p cn2 where p: "read_step w k limit cn = (p, cn2)" by fastforce
  obtain u cn3 where u: "poll_flush_obligated w Read k cn2 = (u, cn3)" by fastforce
  have "max_payload_read cn2 = max_payload_read cn"
  proof (cases "\<exists>f. q = Ready (Ok f)")
    case True
    then obtain f where f: "q = Ready (Ok f)" by blast
    then have "on_frame w f limit (release_read_buffer w (length (payload f)) cn1) = (case p of Ready v \<Rightarrow> v, cn2)"
      using p q by (auto simp: read_step_def split: prod.splits)
    from on_frame_payload [OF this] show ?thesis
      using poll_read_half_keeps [OF q] by (simp add: release_read_buffer_def split: if_splits)
  next
    case False
    then have "cn2 = cn1" using p q by (auto simp: read_step_def split: poll.splits sum.splits)
    then show ?thesis using poll_read_half_keeps [OF q] by simp
  qed
  then show ?thesis using assms p u poll_flush_obligated_payload [OF u]
    by (auto simp: poll_next_frame_with_limit_def finish_read_def emit_close_def
        split: poll.splits sum.splits if_splits)
qed

text \<open>One poll of the message layer: the invariant, the message, and the replies.\<close>

lemma ws_loop_ok:
  assumes "ws_poll_loop w k clock i ws = Some (r, ws')" "\<nexists>e. r = Ready (Err e)" "ws_ok ws"
  shows "ws_ok ws' \<and> check_utf8 ws' = check_utf8 ws \<and>
    max_read_buffer (ws_layer ws') = max_read_buffer (ws_layer ws) \<and>
    max_payload_read (ws_streaming ws') = max_payload_read (ws_streaming ws) \<and>
    (\<forall>m. r = Ready (Ok m) \<longrightarrow>
      message_ok (check_utf8 ws) (max_payload_read (ws_streaming ws)) (max_read_buffer (ws_layer ws)) m) \<and>
    (frame_sink (w_tr w) sent \<longrightarrow>
      out_frames sent (ws_streaming ws') = out_frames sent (ws_streaming ws) @
        (case r of Ready (Ok m) \<Rightarrow> replies m | _ \<Rightarrow> []))"
  using assms
proof (induction w k clock i ws "(r, ws')" rule: ws_poll_loop_induct)
  case (step loop w k clock i ws)
  note IH = step(1) and body = step(2) and noerr = step(3) and ok = step(4)
  obtain q cn where q: "poll_next_frame_with_limit w k (remaining_read_capacity (ws_layer ws)) (ws_streaming ws) = (q, cn)"
    by fastforce
  have out: "out_frames sent cn = out_frames sent (ws_streaming ws) @ (case q of Ready (Ok f) \<Rightarrow> replies f | _ \<Rightarrow> [])"
    if "frame_sink (w_tr w) sent" "\<nexists>e. q = Ready (Err e)"
    by (rule streaming_conn.poll_next_frame_output [OF streaming_conn.intro [OF that(1)] q that(2)])
  show ?case
  proof (cases "\<exists>f. q = Ready (Ok f)")
    case True
    then obtain f where f: "q = Ready (Ok f)" by blast
    note plain = read_frame_plain [OF q [unfolded f]]
    let ?ws = "ws\<lparr>ws_streaming := cn\<rparr>"
    obtain p ws1 where p: "ws_on_frame (clock i) f ?ws = (p, ws1)" by fastforce
    have pre: "ws_ok ?ws" "is_control (opcode f) \<or> length (payload f) < max_payload_read (ws_streaming ?ws)"
      using plain ok by (auto simp: ws_ok_def within_limits_def)
    note one = ws_on_frame_ok [OF p _ pre]
    have nil: "\<not> is_control (opcode g) \<Longrightarrow> replies g = []" for g
      by (cases "opcode g") (simp_all add: replies_def)
    show ?thesis
    proof (cases p)
      case (Inl e)
      then show ?thesis using body noerr q f p by auto
    next
      case (Inr u)
      show ?thesis
      proof (cases u)
        case None
        then have "loop w k clock (Suc i) ws1 = Some (r, ws')" using body q f p Inr by simp
        from IH [OF this noerr] show ?thesis using one Inr None plain out nil f by auto
      next
        case (Some m)
        then have "r = Ready (Ok m)" "ws' = ws1" using body q f p Inr by auto
        then show ?thesis using one Inr Some plain out nil [of f] nil [of m] f
          by (auto split: if_splits)
      qed
    qed
  next
    case False
    then have r: "r = Pending" "q = Pending" "ws' = ws\<lparr>ws_streaming := cn\<rparr>"
      using body noerr q by (auto split: poll.splits sum.splits)
    then show ?thesis using read_payload [OF q] out ok by (auto simp: ws_ok_def)
  qed
qed

text \<open>A data frame does not close the read half.\<close>

lemma read_poll_open:
  assumes "read_poll w cn = (r, cn')" "r = Pending \<or> (\<exists>f. r = Ready (Ok f) \<and> \<not> is_control (opcode f))"
  shows "is_closed (read_half cn') = is_closed (read_half cn)"
proof -
  obtain q s where q: "tr_next (w_tr w) (stream cn) = (q, s)" by fastforce
  then show ?thesis using assms
    by (cases q rule: next_cases)
      (auto simp: read_poll_def poll_frame_def on_incoming_def Let_def split: if_splits)
qed

lemma on_data_read_half: "on_data w f limit cn = (q, cn') \<Longrightarrow> read_half cn' = read_half cn"
proof -
  have "read_half cn2 = read_half cn" if "decompress_frame w f lim cn = (p, cn2)" for p cn2 lim
    using that by (cases "inflate cn") (auto simp: decompress_frame_def split: if_splits prod.splits sum.splits)
  then show "on_data w f limit cn = (q, cn') \<Longrightarrow> ?thesis"
    by (auto simp: on_data_def Let_def split: prod.splits sum.splits if_splits)
qed

lemma poll_read_half_open:
  assumes "poll_read_half w k cn = (Ready (Ok f), cn')" "\<not> is_control (opcode f)"
  shows "is_closed (read_half cn') = is_closed (read_half cn)"
proof (cases "tr_read_len (w_tr w) (stream cn) = 0")
  case True
  then show ?thesis using assms read_poll_open [of w "cn\<lparr>wake_proxy := set_waker Read k (wake_proxy cn)\<rparr>"]
    by (auto simp: poll_read_half_def)
next
  case False
  then obtain px cn1 where pw: "poll_with_context Read k (read_poll w) (wake_proxy cn) cn = (Ready (Ok f), px, cn1)"
    and cn': "cn' = cn1\<lparr>wake_proxy := px\<rparr>"
    using assms(1) by (auto simp: poll_read_half_def with_proxy_def split: prod.splits)
  from pw show ?thesis
  proof (cases rule: poll_with_context_cases)
    case (once v)
    then show ?thesis using read_poll_open [OF once(1)] assms(2) cn' by auto
  next
    case (twice s1)
    then show ?thesis using read_poll_open [OF twice(1)] read_poll_open [OF twice(2)] assms(2) cn' by auto
  qed
qed

lemma read_data_open:
  assumes "poll_next_frame_with_limit w k limit cn = (Ready (Ok f), cn')" "\<not> is_control (opcode f)"
  shows "is_closed (read_half cn') = is_closed (read_half cn)"
proof -
  obtain g cn2 where p: "poll_read_half w k cn = (Ready (Ok g), cn2)"
    and o: "on_frame w g limit (release_read_buffer w (length (payload g)) cn2) = (Ok f, cn')"
    using assms(1) by (auto simp: poll_next_frame_with_limit_def read_step_def finish_read_def
        split: prod.splits poll.splits sum.splits if_splits)
  have g: "\<not> is_control (opcode g)"
    using o assms(2) by (cases "opcode g") (auto simp: on_frame_def on_close_def split: sum.splits)
  then have "on_data w g limit (release_read_buffer w (length (payload g)) cn2) = (Ok f, cn')"
    using o by (cases "opcode g") (simp_all add: on_frame_def)
  from on_data_read_half [OF this] poll_read_half_open [OF p g] show ?thesis
    by (simp add: release_read_buffer_def split: if_splits)
qed

section \<open>Properties\<close>

text \<open>Polling for messages, with the waker and the clock of each poll, up to the first error.\<close>

fun ws_read_polls ::
  "('s, 'c, 'd) world \<Rightarrow> (nat \<times> (nat \<Rightarrow> nat)) list \<Rightarrow> ('s, 'c, 'd) web_socket \<Rightarrow>
   (frame list \<times> ws_error option \<times> ('s, 'c, 'd) web_socket) option"
where
  "ws_read_polls w [] ws = Some ([], None, ws)"
| "ws_read_polls w ((k, clock) # ks) ws =
    (case ws_poll_next_frame w k clock ws of
       None \<Rightarrow> None
     | Some (Pending, ws) \<Rightarrow> ws_read_polls w ks ws
     | Some (Ready (Err e), ws) \<Rightarrow> Some ([], Some e, ws)
     | Some (Ready (Ok m), ws) \<Rightarrow> map_option (\<lambda>(ms, r). (m # ms, r)) (ws_read_polls w ks ws))"


text \<open>
  C6. Reading always returns and answers: over a transport with finite input that
  keeps the sink contract no poll of the message layer loops for ever, and as long
  as no error is reported what was sent and is queued grows by exactly the replies
  the delivered messages call for, also when a Ping arrives between two fragments.
\<close>

theorem ws_reads_return:
  assumes "finite_source (w_tr w) avail live" "frame_sink (w_tr w) sent"
    and "live (stream (ws_streaming ws))" "ws_ok ws"
  shows "\<exists>ms e ws'. ws_read_polls w ks ws = Some (ms, e, ws') \<and>
    (e = None \<longrightarrow> out_frames sent (ws_streaming ws') = out_frames sent (ws_streaming ws) @ concat (map replies ms))"
  using assms(3,4)
proof (induction ks arbitrary: ws)
  case (Cons kc ks)
  obtain k clock where kc: "kc = (k, clock)" by fastforce
  obtain r ws1 where r: "ws_poll_loop w k clock 0 ws = Some (r, ws1)" "live (stream (ws_streaming ws1))"
    using finite_source.ws_loop_returns [OF assms(1) refl Cons.prems(1)] by blast
  show ?case
  proof (cases "\<exists>e. r = Ready (Err e)")
    case True
    then show ?thesis using r kc by (auto simp: ws_poll_next_frame_def)
  next
    case False
    note one = ws_loop_ok [OF r(1) False Cons.prems(2), of sent]
    obtain ms e ws' where "ws_read_polls w ks ws1 = Some (ms, e, ws')"
      "e = None \<longrightarrow> out_frames sent (ws_streaming ws') = out_frames sent (ws_streaming ws1) @ concat (map replies ms)"
      using Cons.IH [OF r(2)] one by blast
    then show ?thesis using one assms(2) r(1) kc False
      by (cases r) (auto simp: ws_poll_next_frame_def split: sum.splits)
  qed
qed simp

text \<open>A connection of the message layer over the in-memory transport, for the witnesses.\<close>

definition demo_ws :: "nat option \<Rightarrow> bytes list \<Rightarrow> (framed, unit, unit) web_socket" where
  "demo_ws sz input = \<lparr>ws_streaming = demo_conn input, check_utf8 = True,
     ws_layer = fragment_layer_new sz 200 None\<rparr>"

lemma demo_ws_ok: "ws_ok (demo_ws sz input)"
  by (simp add: demo_ws_def ws_ok_def fragment_layer_new_def layer_ok_def)

lemma demo_ws_live: "framed_live (stream (ws_streaming (demo_ws sz input)))"
  by (simp add: demo_ws_def demo_conn_def conn_new_def demo_framed_def framed_live_def codec_of_def)

lemma demo_world_sink: "frame_sink (w_tr demo_world) fr_log"
  and demo_world_source: "finite_source (w_tr demo_world) framed_avail framed_live"
  using framed.frame_sink_axioms framed_source.finite_source_axioms by (simp_all add: demo_world_def)

text \<open>A text in two fragments with a Ping in between.\<close>

definition demo_input :: "bytes list" where
  "demo_input = [[0x01, 0x81, 0, 0, 0, 0, 0x48, 0x89, 0x80], [0, 0, 0, 0, 0x80, 0x81, 0, 0, 0, 0, 0x69]]"

lemma demo_read:
  "map_option (\<lambda>(ms, e, ws). (ms, e)) (ws_read_polls demo_world [(1, \<lambda>_. 0), (1, \<lambda>_. 0)] (demo_ws None demo_input))
    = Some ([ping_frame [], text_frame [0x48, 0x69]], None)"
  by code_simp


theorem ws_reads_return_witness:
  "\<exists>ws'. ws_read_polls demo_world [(1, \<lambda>_. 0), (1, \<lambda>_. 0)] (demo_ws None demo_input)
      = Some ([ping_frame [], text_frame [0x48, 0x69]], None, ws') \<and>
    out_frames fr_log (ws_streaming ws') = out_frames fr_log (ws_streaming (demo_ws None demo_input))
      @ concat (map replies [ping_frame [], text_frame [0x48, 0x69]])"
  using ws_reads_return [OF demo_world_source demo_world_sink demo_ws_live demo_ws_ok,
      of "[(1, \<lambda>_. 0), (1, \<lambda>_. 0)]" None demo_input] demo_read
  by auto

text \<open>
  C32. An error of the message layer itself (bad UTF-8, a fragment out of sequence, a
  message that is too large or too slow) is reported to the caller, but the
  connection neither sends nor queues a Close for it, whatever status code
  \<open>error_close_code\<close> has for the error, and goes on reading.
\<close>

theorem layer_errors_keep_open:
  assumes "frame_sink (w_tr w) sent"
    and "poll_next_frame_with_limit w k (remaining_read_capacity (ws_layer ws)) (ws_streaming ws) = (Ready (Ok f), cn)"
    and "\<not> is_control (opcode f)" "ws_on_frame (clock 0) f (ws\<lparr>ws_streaming := cn\<rparr>) = (Err e, ws')"
  shows "ws_poll_next_frame w k clock ws = Some (Ready (Err e), ws') \<and> ws_streaming ws' = cn \<and>
    out_frames sent cn = out_frames sent (ws_streaming ws) \<and>
    is_closed (read_half cn) = is_closed (read_half (ws_streaming ws))"
proof -
  have "ws_streaming ws' = cn"
    using assms(4) by (auto simp: ws_on_frame_def split: prod.splits sum.splits option.splits if_splits)
  moreover have "replies f = []" using assms(3) by (cases "opcode f") (simp_all add: replies_def)
  then have "out_frames sent cn = out_frames sent (ws_streaming ws)"
    using streaming_conn.poll_next_frame_output [OF streaming_conn.intro [OF assms(1)] assms(2)] by simp
  ultimately show ?thesis
    using assms(2,4) read_data_open [OF assms(2,3)]
    by (simp add: ws_poll_next_frame_def ws_poll_loop.simps [of w k clock 0])
qed

theorem layer_errors_keep_open_witness:
  "\<exists>cn ws'. ws_poll_next_frame demo_world 1 (\<lambda>_. 0) (demo_ws None [[0x81, 0x81, 0, 0, 0, 0, 0xFF]])
      = Some (Ready (Err InvalidUTF8), ws') \<and> ws_streaming ws' = cn \<and>
    out_frames fr_log cn = out_frames fr_log (ws_streaming (demo_ws None [[0x81, 0x81, 0, 0, 0, 0, 0xFF]])) \<and>
    is_closed (read_half cn) =
      is_closed (read_half (ws_streaming (demo_ws None [[0x81, 0x81, 0, 0, 0, 0, 0xFF]])))"
proof -
  let ?ws = "demo_ws None [[0x81, 0x81, 0, 0, 0, 0, 0xFF]]"
  have "fst (poll_next_frame_with_limit demo_world 1 (remaining_read_capacity (ws_layer ?ws)) (ws_streaming ?ws))
      = Ready (Ok (text_frame [0xFF]))" by code_simp
  then obtain cn where cn: "poll_next_frame_with_limit demo_world 1 (remaining_read_capacity (ws_layer ?ws)) (ws_streaming ?ws)
      = (Ready (Ok (text_frame [0xFF])), cn)" by (metis prod.collapse)
  have "fst (ws_on_frame ((\<lambda>_. 0) 0) (text_frame [0xFF]) (?ws\<lparr>ws_streaming := cn\<rparr>)) = Err InvalidUTF8"
    by (simp add: demo_ws_def ws_on_frame_def assemble_incoming_def assemble_data_def text_frame_def
        fragment_layer_new_def from_utf8_def lead_len_def in_range_def)
  then obtain ws' where "ws_on_frame ((\<lambda>_. 0) 0) (text_frame [0xFF]) (?ws\<lparr>ws_streaming := cn\<rparr>) = (Err InvalidUTF8, ws')"
    by (metis prod.collapse)
  from layer_errors_keep_open [where clock = "\<lambda>_. 0", OF demo_world_sink cn _ this] show ?thesis by (simp add: text_frame_def)
qed

text \<open>
  C33. Closing drops what is queued: when \<open>poll_close\<close> of the message layer succeeds on
  a connection that was not closing yet, a Close frame and nothing else has been
  sent, the fragments that waited are still queued, and the connection takes no
  frame any more, so that they are never sent.
\<close>

theorem close_drops_fragments:
  assumes "frame_sink (w_tr w) sent" "close_state (write_half (ws_streaming ws)) = None"
    and "ws_poll_close w k ws = (Ready (Ok ()), ws')"
  shows "sent (stream (ws_streaming ws')) = sent (stream (ws_streaming ws)) @ [close_frame Normal []] \<and>
    outgoing_fragments (ws_layer ws') = outgoing_fragments (ws_layer ws) \<and>
    obligated_sends (ws_streaming ws') = obligated_sends (ws_streaming ws) \<and>
    fst (wh_poll_ready (w_tr w) (write_half (ws_streaming ws')) s) = Ready (Err ConnectionClosed)"
proof -
  let ?cn = "ws_streaming ws"
  obtain r wh s' where p: "wh_poll_close (w_tr w) (write_half ?cn) (stream ?cn) = (r, wh, s')" by (metis prod_cases3)
  then have "r = Ready (Ok ())" "ws_layer ws' = ws_layer ws" "stream (ws_streaming ws') = s'"
    "write_half (ws_streaming ws') = wh" "obligated_sends (ws_streaming ws') = obligated_sends ?cn"
    using assms(3) by (auto simp: ws_poll_close_def poll_close_def Let_def)
  moreover from this have "sent s' = sent (stream ?cn) @ [close_frame Normal []]" "close_state wh = Some Done"
    using frame_sink.poll_close_conserves [OF assms(1) p] assms(2) by auto
  ultimately show ?thesis by (simp add: wh_poll_ready_def)
qed

theorem close_drops_fragments_witness:
  "case ws_start_send demo_world (text_frame [1, 2, 3]) (demo_ws (Some 2) []) of
     Finished (_, ws) \<Rightarrow> outgoing_fragments (ws_layer ws) \<noteq> [] \<and>
       (\<exists>ws'. ws_poll_close demo_world 1 ws = (Ready (Ok ()), ws') \<and>
          fr_log (stream (ws_streaming ws')) = [close_frame Normal []] \<and>
          outgoing_fragments (ws_layer ws') = outgoing_fragments (ws_layer ws))
   | _ \<Rightarrow> False"
proof -
  let ?l = "(fragment_layer_new (Some 2) 200 None)\<lparr>outgoing_fragments :=
    [frame_new False Text None [1, 2], continuation_frame [3]]\<rparr>"
  let ?ws = "(demo_ws (Some 2) [])\<lparr>ws_layer := ?l\<rparr>"
  have send: "ws_start_send demo_world (text_frame [1, 2, 3]) (demo_ws (Some 2) []) = Finished (Ok (), ?ws)"
    by (simp add: ws_start_send_def demo_ws_def fragment_outgoing_def fragment_layer_new_def into_fragments_eq
        rest_fragments.simps text_frame_def frame_new_def continuation_frame_def)
  have "fst (ws_poll_close demo_world 1 ?ws) = Ready (Ok ())" by code_simp
  then obtain ws' where close: "ws_poll_close demo_world 1 ?ws = (Ready (Ok ()), ws')" by (metis prod.collapse)
  have "close_state (write_half (ws_streaming ?ws)) = None" "fr_log (stream (ws_streaming ?ws)) = []"
    by (simp_all add: demo_ws_def demo_conn_def conn_new_def write_half_new_def demo_framed_def)
  with close_drops_fragments [OF demo_world_sink _ close] show ?thesis
    using send close by auto
qed

end
