(* ===== verification/Extensions.thy ===== *)
theory Extensions
  imports Codec
begin

text \<open>
  Negotiation of permessage-deflate (\<open>src/compression.rs\<close>, \<open>src/compression/offer.rs\<close>
  and \<open>DeflateOptions\<close> of \<open>src/native/options.rs\<close>): the parameters, how they are
  printed in and parsed from the \<open>Sec-WebSocket-Extensions\<close> header on either side,
  how a server answers the offers of a client, and how both sides turn the answer
  into the settings of the two directions.

  Header values are strings of visible ASCII, as \<open>HeaderValue::to_str\<close> gives them; a
  value it refuses is \<open>None\<close>.  The Cargo feature \<open>zlib\<close> is an argument.  Window sizes
  are \<open>u8\<close> values, here natural numbers.
\<close>

section \<open>Data\<close>

record extensions =
  server_max_window_bits :: "nat option option"
  client_max_window_bits :: "nat option option"
  server_no_context_takeover :: bool
  client_no_context_takeover :: bool

definition extensions_default :: extensions where
  "extensions_default =
    \<lparr>server_max_window_bits = None, client_max_window_bits = None,
     server_no_context_takeover = False, client_no_context_takeover = False\<rparr>"

text \<open>\<open>CompressionLevel\<close> by its number; a pool by a handle, since clones share it.\<close>

record deflate_options =
  do_level :: nat
  do_server_max_window_bits :: "nat option"
  do_client_max_window_bits :: "nat option"
  do_server_no_context_takeover :: bool
  do_client_no_context_takeover :: bool
  do_compression_threshold :: nat
  do_pool :: "nat option"

definition WINDOW_BITS_start :: nat where "WINDOW_BITS_start = 9"
definition WINDOW_BITS_end :: nat where "WINDOW_BITS_end = 15"
definition NEGOTIABLE_start :: nat where "NEGOTIABLE_start = 8"
definition NEGOTIABLE_end :: nat where "NEGOTIABLE_end = 15"

lemmas window_consts = WINDOW_BITS_start_def WINDOW_BITS_end_def NEGOTIABLE_start_def NEGOTIABLE_end_def

definition negotiable :: "nat \<Rightarrow> bool" where
  "negotiable b \<longleftrightarrow> NEGOTIABLE_start \<le> b \<and> b \<le> NEGOTIABLE_end"

definition clamp :: "nat \<Rightarrow> nat \<Rightarrow> nat \<Rightarrow> nat" where
  "clamp lo hi b = (if b < lo then lo else if b > hi then hi else b)"

section \<open>Presets\<close>

definition low_latency :: deflate_options where
  "low_latency =
    \<lparr>do_level = 1, do_server_max_window_bits = None, do_client_max_window_bits = None,
     do_server_no_context_takeover = False, do_client_no_context_takeover = False,
     do_compression_threshold = 0, do_pool = None\<rparr>"

definition high_compression :: deflate_options where
  "high_compression =
    \<lparr>do_level = 9, do_server_max_window_bits = None, do_client_max_window_bits = None,
     do_server_no_context_takeover = False, do_client_no_context_takeover = False,
     do_compression_threshold = 0, do_pool = None\<rparr>"

definition balanced :: deflate_options where
  "balanced =
    \<lparr>do_level = 6, do_server_max_window_bits = None, do_client_max_window_bits = None,
     do_server_no_context_takeover = False, do_client_no_context_takeover = False,
     do_compression_threshold = 0, do_pool = None\<rparr>"

section \<open>Printing\<close>

definition PERMESSAGE_DEFLATE :: string where "PERMESSAGE_DEFLATE = ''permessage-deflate''"

definition extensions_of_options :: "bool \<Rightarrow> deflate_options \<Rightarrow> extensions" where
  "extensions_of_options zlib opts =
    \<lparr>server_max_window_bits = (if zlib then map_option Some (do_server_max_window_bits opts) else None),
     client_max_window_bits = (if zlib then map_option Some (do_client_max_window_bits opts) else None),
     server_no_context_takeover = do_server_no_context_takeover opts,
     client_no_context_takeover = do_client_no_context_takeover opts\<rparr>"

definition display_bits :: "string \<Rightarrow> nat option option \<Rightarrow> string" where
  "display_bits name v =
    (case v of
       None \<Rightarrow> ''''
     | Some None \<Rightarrow> ''; '' @ name
     | Some (Some bits) \<Rightarrow> if negotiable bits then ''; '' @ name @ ''='' @ dec bits else ''; '' @ name)"

definition display :: "extensions \<Rightarrow> string" where
  "display e =
    PERMESSAGE_DEFLATE
    @ display_bits ''server_max_window_bits'' (server_max_window_bits e)
    @ display_bits ''client_max_window_bits'' (client_max_window_bits e)
    @ (if server_no_context_takeover e then ''; server_no_context_takeover'' else '''')
    @ (if client_no_context_takeover e then ''; client_no_context_takeover'' else '''')"

section \<open>Parsing a response\<close>

definition is_digit :: "char \<Rightarrow> bool" where
  "is_digit c \<longleftrightarrow> 48 \<le> (of_char c :: nat) \<and> (of_char c :: nat) \<le> 57"

definition is_alnum :: "char \<Rightarrow> bool" where
  "is_alnum c \<longleftrightarrow> is_digit c \<or>
     (let n = (of_char c :: nat) in 65 \<le> n \<and> n \<le> 90 \<or> 97 \<le> n \<and> n \<le> 122)"

definition is_space :: "char \<Rightarrow> bool" where
  "is_space c \<longleftrightarrow> c = CHR '' '' \<or> c = CHR 0x09"

definition digit_value :: "string \<Rightarrow> nat" where
  "digit_value s = foldl (\<lambda>n c. 10 * n + (of_char c - 48)) 0 s"

text \<open>\<open>str::parse::<u8>\<close>: an optional plus sign, then digits, at most 255.\<close>

definition parse_u8 :: "string \<Rightarrow> nat option" where
  "parse_u8 s =
    (let ds = (case s of c # cs \<Rightarrow> if c = CHR ''+'' then cs else s | [] \<Rightarrow> []) in
     if ds = [] \<or> \<not> list_all is_digit ds then None
     else if digit_value ds \<le> 255 then Some (digit_value ds) else None)"

definition tag :: "string \<Rightarrow> string \<Rightarrow> string option" where
  "tag t s = (if take (length t) s = t then Some (drop (length t) s) else None)"

definition space0 :: "string \<Rightarrow> string" where
  "space0 s = dropWhile is_space s"

definition is_key_char :: "char \<Rightarrow> bool" where
  "is_key_char c \<longleftrightarrow> is_alnum c \<or> c = CHR ''_''"

text \<open>
  \<open>parse_extension\<close>: the key, the optional value, and the input that remains.  The
  value part backtracks to the end of the key when there is no equals sign.
\<close>

definition parse_extension :: "string \<Rightarrow> (string \<times> string \<times> string option) option" where
  "parse_extension s =
    (case tag '';'' (space0 s) of
       None \<Rightarrow> None
     | Some s \<Rightarrow>
         let s = space0 s; key = takeWhile is_key_char s; s = dropWhile is_key_char s in
         if key = [] then None
         else case tag ''='' (space0 s) of
           None \<Rightarrow> Some (s, key, None)
         | Some s \<Rightarrow>
             let s = space0 s; ds = takeWhile is_digit s in
             Some (dropWhile is_digit s, key, if ds = [] then None else Some ds))"

definition set_param :: "string \<Rightarrow> string option \<Rightarrow> extensions \<Rightarrow> extensions" where
  "set_param key v e =
    (if key = ''client_no_context_takeover'' then e\<lparr>client_no_context_takeover := True\<rparr>
     else if key = ''server_no_context_takeover'' then e\<lparr>server_no_context_takeover := True\<rparr>
     else if key = ''server_max_window_bits'' then e\<lparr>server_max_window_bits := Some (Option.bind v parse_u8)\<rparr>
     else if key = ''client_max_window_bits'' then e\<lparr>client_max_window_bits := Some (Option.bind v parse_u8)\<rparr>
     else e)"

lemma length_space0: "length (space0 s) \<le> length s"
  by (simp add: space0_def length_dropWhile_le)

lemma tag_length:
  assumes "tag t s = Some r"
  shows "length r + length t = length s"
proof -
  have t: "take (length t) s = t" and r: "r = drop (length t) s"
    using assms by (simp_all add: tag_def split: if_splits)
  have "length t \<le> length s" using arg_cong [OF t, of length] by simp
  then show ?thesis by (simp add: r)
qed

lemma parse_extension_shorter:
  assumes "parse_extension s = Some (r, kv)"
  shows "length r < length s"
proof -
  obtain s1 where s1: "tag '';'' (space0 s) = Some s1"
    using assms by (auto simp: parse_extension_def split: option.splits)
  have "length s1 < length s" using tag_length [OF s1] length_space0 [of s] by simp
  moreover have "length r \<le> length s1"
  proof -
    define s2 where "s2 = dropWhile is_key_char (space0 s1)"
    have s2: "length s2 \<le> length s1"
      unfolding s2_def by (rule le_trans [OF length_dropWhile_le length_space0])
    have eq: "parse_extension s = (if takeWhile is_key_char (space0 s1) = [] then None
        else case tag ''='' (space0 s2) of
          None \<Rightarrow> Some (s2, takeWhile is_key_char (space0 s1), None)
        | Some s3 \<Rightarrow> Some (dropWhile is_digit (space0 s3), takeWhile is_key_char (space0 s1),
            if takeWhile is_digit (space0 s3) = [] then None else Some (takeWhile is_digit (space0 s3))))"
      unfolding parse_extension_def s1 Let_def s2_def by (simp only: option.case)
    show ?thesis
    proof (cases "tag ''='' (space0 s2)")
      case None
      then have "r = s2" using assms unfolding eq by (simp split: if_splits)
      then show ?thesis using s2 by simp
    next
      case (Some s3)
      then have "r = dropWhile is_digit (space0 s3)" using assms unfolding eq by (simp split: if_splits)
      moreover have "length (dropWhile is_digit (space0 s3)) \<le> length s3"
        by (rule le_trans [OF length_dropWhile_le length_space0])
      ultimately show ?thesis using s2 tag_length [OF Some] length_space0 [of s2] by simp
    qed
  qed
  ultimately show ?thesis by simp
qed

function parse_extensions :: "string \<Rightarrow> extensions \<Rightarrow> extensions option" where
  "parse_extensions s e =
    (if s = [] then Some e
     else case parse_extension s of
       None \<Rightarrow> None
     | Some (r, key, v) \<Rightarrow> parse_extensions r (set_param key v e))"
  by auto
termination
  by (relation "measure (\<lambda>(s, e). length s)") (auto dest: parse_extension_shorter)

declare parse_extensions.simps [simp del]

definition from_str :: "string \<Rightarrow> extensions option" where
  "from_str s =
    (case tag PERMESSAGE_DEFLATE s of
       None \<Rightarrow> None
     | Some r \<Rightarrow> parse_extensions r extensions_default)"

text \<open>
  \<open>from_headers\<close>: the first header of that name, if there is one and it is visible
  ASCII.
\<close>

definition from_headers :: "string option list \<Rightarrow> extensions option" where
  "from_headers hs =
    (case hs of
       [] \<Rightarrow> None
     | h # _ \<Rightarrow> (case h of None \<Rightarrow> None | Some s \<Rightarrow> from_str s))"

section \<open>Parsing the offers of a client\<close>

definition is_tchar :: "char \<Rightarrow> bool" where
  "is_tchar c \<longleftrightarrow> is_alnum c \<or>
     c \<in> set (''!#$%&'' @ [CHR 0x27] @ ''*+-.^_'' @ [CHR 0x60] @ ''|~'')"

definition eat :: "char \<Rightarrow> string \<Rightarrow> bool \<times> string" where
  "eat c s = (case s of d # r \<Rightarrow> if d = c then (True, r) else (False, s) | [] \<Rightarrow> (False, s))"

definition token :: "string \<Rightarrow> (string \<times> string) option" where
  "token s = (if takeWhile is_tchar s = [] then None
     else Some (takeWhile is_tchar s, dropWhile is_tchar s))"

text \<open>The body of a quoted string after the opening quote: its value and the rest.\<close>

fun quoted :: "string \<Rightarrow> string \<Rightarrow> (string \<times> string) option" where
  "quoted [] acc = None"
| "quoted (c # cs) acc =
    (if c = CHR 0x22 then Some (acc, cs)
     else if c = CHR 0x5C then (case cs of [] \<Rightarrow> None | d # ds \<Rightarrow> quoted ds (acc @ [d]))
     else quoted cs (acc @ [c]))"

definition param_value :: "string \<Rightarrow> (string \<times> string) option" where
  "param_value s =
    (case eat (CHR 0x22) s of
       (False, s) \<Rightarrow> token s
     | (True, s) \<Rightarrow>
         (case quoted s [] of
            None \<Rightarrow> None
          | Some (v, r) \<Rightarrow> if v \<noteq> [] \<and> list_all is_tchar v then Some (v, r) else None))"

type_synonym params = "(string \<times> string option) list"

lemma eat_length: "eat c s = (b, r) \<Longrightarrow> length r = length s - of_bool b \<and> (b \<longrightarrow> s \<noteq> [])"
  by (auto simp: eat_def split: list.splits if_splits)

lemma eat_space_less: "eat c (space0 s) = (True, r) \<Longrightarrow> length r < length s"
  using length_space0 [of s] by (auto simp: eat_def split: list.splits if_splits)

lemma eat_space_le: "eat c (space0 s) = (b, r) \<Longrightarrow> length r \<le> length s"
  using length_space0 [of s] eat_length [of c "space0 s" b r] by simp

lemma token_length: "token s = Some (t, r) \<Longrightarrow> length r < length s"
proof -
  assume a: "token s = Some (t, r)"
  have "length (takeWhile is_tchar s) + length (dropWhile is_tchar s) = length s"
    by (metis length_append takeWhile_dropWhile_id)
  then show ?thesis using a by (cases "takeWhile is_tchar s") (auto simp: token_def split: if_splits)
qed

lemma quoted_length: "quoted s acc = Some (v, r) \<Longrightarrow> length r < length s"
  by (induction s acc rule: quoted.induct) (auto split: if_splits list.splits)

lemma param_value_length: "param_value s = Some (v, r) \<Longrightarrow> length r < length s"
  by (auto simp: param_value_def eat_def split: list.splits if_splits prod.splits option.splits
      dest!: quoted_length token_length)

text \<open>One parameter after its semicolon.\<close>

definition param :: "string \<Rightarrow> ((string \<times> string option) \<times> string) option" where
  "param s =
    (case token (space0 s) of
       None \<Rightarrow> None
     | Some (key, s) \<Rightarrow>
         (case eat (CHR ''='') (space0 s) of
            (False, s) \<Rightarrow> Some ((key, None), s)
          | (True, s) \<Rightarrow>
              (case param_value (space0 s) of
                 None \<Rightarrow> None
               | Some (v, s) \<Rightarrow> Some ((key, Some v), s))))"

lemma param_length:
  assumes "param s = Some (kv, r)"
  shows "length r < length s"
proof -
  obtain key s1 where t: "token (space0 s) = Some (key, s1)"
    using assms by (auto simp: param_def split: option.splits)
  obtain b s2 where e: "eat (CHR ''='') (space0 s1) = (b, s2)" by fastforce
  have "length s1 < length s" using token_length [OF t] length_space0 [of s] by simp
  moreover have "length s2 \<le> length s1" using eat_length [OF e] length_space0 [of s1] by simp
  moreover have "length r \<le> length s2"
    using assms t e length_space0 [of s2] param_value_length [of "space0 s2"]
    by (cases b) (fastforce simp: param_def split: option.splits)+
  ultimately show ?thesis by simp
qed

function parse_params :: "string \<Rightarrow> params \<Rightarrow> (params \<times> string) option" where
  "parse_params s acc =
    (case eat (CHR '';'') (space0 s) of
       (False, s) \<Rightarrow> Some (acc, s)
     | (True, s) \<Rightarrow>
         (case param s of
            None \<Rightarrow> None
          | Some (kv, s) \<Rightarrow> parse_params s (acc @ [kv])))"
  by auto
termination
proof (relation "measure (\<lambda>(s, acc). length s)", goal_cases)
  case (2 s acc b s1)
  then show ?case using eat_length [of "CHR '';''" "space0 s" True s1] length_space0 [of s]
      param_length [of s1] by fastforce
qed simp

declare parse_params.simps [simp del]

lemma parse_params_length: "parse_params s acc = Some (ps, r) \<Longrightarrow> length r \<le> length s"
proof (induction s acc rule: parse_params.induct)
  case (1 s acc)
  obtain b s1 where e: "eat (CHR '';'') (space0 s) = (b, s1)" by fastforce
  have le: "length s1 \<le> length s" using eat_length [OF e] length_space0 [of s] by simp
  show ?case
  proof (cases b)
    case True
    then obtain kv s2 where p: "param s1 = Some (kv, s2)" and r: "parse_params s2 (acc @ [kv]) = Some (ps, r)"
      using 1(2) e by (auto simp: parse_params.simps [of s] split: option.splits)
    have "length r \<le> length s2" using 1(1) [OF e [symmetric]] True p r by auto
    then show ?thesis using param_length [OF p] le by simp
  next
    case False
    then show ?thesis using 1(2) e le by (simp add: parse_params.simps [of s])
  qed
qed

lemma extension_shorter:
  assumes "eat c (space0 s) = (b, s1)" "token s1 = Some (name, s2)"
    "parse_params s2 [] = Some (ps, s3)" "eat c s3 = (d, s4)"
  shows "length s4 < length s"
  using eat_space_le [OF assms(1)] token_length [OF assms(2)] parse_params_length [OF assms(3)]
    eat_length [OF assms(4)] by simp

text \<open>The extensions named in a header value, each with its parameters; \<open>None\<close> off the grammar.\<close>

function parse_list :: "string \<Rightarrow> (string \<times> params) list \<Rightarrow> (string \<times> params) list option" where
  "parse_list s acc =
    (case eat (CHR '','') (space0 s) of
       (True, s) \<Rightarrow> parse_list s acc
     | (False, s) \<Rightarrow>
         if s = [] then Some acc
         else case token s of
           None \<Rightarrow> None
         | Some (name, s) \<Rightarrow>
             (case parse_params s [] of
                None \<Rightarrow> None
              | Some (ps, s) \<Rightarrow>
                  (case eat (CHR '','') s of
                     (True, s) \<Rightarrow> parse_list s (acc @ [(name, ps)])
                   | (False, s) \<Rightarrow> if s = [] then parse_list s (acc @ [(name, ps)]) else None)))"
  by auto
termination
  by (relation "measure (\<lambda>(s, acc). length s)")
    (auto simp: eat_space_less dest: extension_shorter [OF sym _ _ sym])

declare parse_list.simps [simp del]

definition window_bits :: "string \<Rightarrow> nat option" where
  "window_bits v =
    (case parse_u8 v of
       None \<Rightarrow> None
     | Some bits \<Rightarrow> if negotiable bits \<and> dec bits = v then Some bits else None)"

definition offer_param :: "string \<Rightarrow> string option \<Rightarrow> extensions \<Rightarrow> extensions option" where
  "offer_param name v e =
    (case v of
       None \<Rightarrow>
         if name = ''server_no_context_takeover'' then Some (e\<lparr>server_no_context_takeover := True\<rparr>)
         else if name = ''client_no_context_takeover'' then Some (e\<lparr>client_no_context_takeover := True\<rparr>)
         else if name = ''client_max_window_bits'' then Some (e\<lparr>client_max_window_bits := Some None\<rparr>)
         else None
     | Some v \<Rightarrow>
         if name = ''server_max_window_bits'' then
           (case window_bits v of None \<Rightarrow> None | Some b \<Rightarrow> Some (e\<lparr>server_max_window_bits := Some (Some b)\<rparr>))
         else if name = ''client_max_window_bits'' then
           (case window_bits v of None \<Rightarrow> None | Some b \<Rightarrow> Some (e\<lparr>client_max_window_bits := Some (Some b)\<rparr>))
         else None)"

text \<open>The loop of \<open>offer\<close>: \<open>earlier\<close> are the names read so far.\<close>

fun offer_loop :: "string list \<Rightarrow> params \<Rightarrow> extensions \<Rightarrow> extensions option" where
  "offer_loop earlier [] e = Some e"
| "offer_loop earlier ((name, v) # ps) e =
    (if name \<in> set earlier then None
     else case offer_param name v e of
       None \<Rightarrow> None
     | Some e \<Rightarrow> offer_loop (earlier @ [name]) ps e)"

definition offer :: "params \<Rightarrow> extensions option" where
  "offer ps = offer_loop [] ps extensions_default"

fun offers_loop :: "string option list \<Rightarrow> extensions list \<Rightarrow> extensions list" where
  "offers_loop [] acc = acc"
| "offers_loop (h # hs) acc =
    (case Option.bind h (\<lambda>s. parse_list s []) of
       None \<Rightarrow> []
     | Some exts \<Rightarrow>
         offers_loop hs (acc @ List.map_filter (\<lambda>(name, ps). offer ps)
           (filter (\<lambda>(name, ps). name = PERMESSAGE_DEFLATE) exts)))"

definition offers :: "string option list \<Rightarrow> extensions list" where
  "offers hs = offers_loop hs []"

section \<open>Answering\<close>

definition merge_bits :: "nat option option \<Rightarrow> nat option \<Rightarrow> nat option option \<Rightarrow> nat option option" where
  "merge_bits offered pref absent =
    (case offered of
       Some (Some c) \<Rightarrow> (case pref of Some s \<Rightarrow> Some (Some (min c s)) | None \<Rightarrow> Some (Some c))
     | Some None \<Rightarrow> (case pref of Some s \<Rightarrow> Some (Some s) | None \<Rightarrow> Some (Some 9))
     | None \<Rightarrow> absent)"

definition merge :: "bool \<Rightarrow> deflate_options \<Rightarrow> extensions \<Rightarrow> extensions" where
  "merge zlib opts offered =
    (let server_preference = map_option (clamp WINDOW_BITS_start WINDOW_BITS_end) (do_server_max_window_bits opts);
         client_preference = map_option (clamp NEGOTIABLE_start NEGOTIABLE_end) (do_client_max_window_bits opts)
     in \<lparr>server_max_window_bits =
          (if zlib then merge_bits (server_max_window_bits offered) server_preference
             (map_option Some server_preference)
           else server_max_window_bits offered),
        client_max_window_bits =
          (if zlib then merge_bits (client_max_window_bits offered) client_preference None else None),
        server_no_context_takeover =
          server_no_context_takeover offered \<or> do_server_no_context_takeover opts,
        client_no_context_takeover =
          client_no_context_takeover offered \<or> do_client_no_context_takeover opts\<rparr>)"

definition smallest_window :: "bool \<Rightarrow> nat" where
  "smallest_window zlib = (if zlib then WINDOW_BITS_start else WINDOW_BITS_end)"

definition can_honor :: "bool \<Rightarrow> extensions \<Rightarrow> bool" where
  "can_honor zlib e =
    (case server_max_window_bits e of Some (Some bits) \<Rightarrow> \<not> bits < smallest_window zlib | _ \<Rightarrow> True)"

definition agree :: "bool \<Rightarrow> deflate_options option \<Rightarrow> extensions list \<Rightarrow> extensions option" where
  "agree zlib server os =
    (case server of
       None \<Rightarrow> None
     | Some opts \<Rightarrow> map_option (merge zlib opts) (find (can_honor zlib) os))"

section \<open>Settings of the two directions\<close>

record half_config =
  no_context_takeover :: bool
  half_window_bits :: "nat option"

record compression_config =
  cc_level :: nat
  cc_outgoing :: half_config
  cc_incoming :: half_config
  cc_pool :: "nat option"

definition clamp_bits :: "nat option option \<Rightarrow> nat option" where
  "clamp_bits v = map_option (clamp WINDOW_BITS_start WINDOW_BITS_end) (Option.bind v id)"

definition resolve ::
  "extensions option \<Rightarrow> nat option \<Rightarrow> role \<Rightarrow> ws_error + compression_config option"
where
  "resolve exts level rl =
    (case exts of
       None \<Rightarrow> Ok None
     | Some e \<Rightarrow>
         (case level of
            None \<Rightarrow> Err CompressionNotSupported
          | Some lv \<Rightarrow>
              let client = \<lparr>no_context_takeover = client_no_context_takeover e,
                    half_window_bits = clamp_bits (client_max_window_bits e)\<rparr>;
                  server = \<lparr>no_context_takeover = server_no_context_takeover e,
                    half_window_bits = clamp_bits (server_max_window_bits e)\<rparr>;
                  (outgoing, incoming) =
                    (case rl of Client \<Rightarrow> (client, server) | Server \<Rightarrow> (server, client))
              in Ok (Some \<lparr>cc_level = lv, cc_outgoing = outgoing, cc_incoming = incoming, cc_pool = None\<rparr>)))"

definition with_pool :: "nat option \<Rightarrow> compression_config \<Rightarrow> compression_config" where
  "with_pool p c = c\<lparr>cc_pool := p\<rparr>"

section \<open>Printing and parsing\<close>

lemma dec_not_Nil [simp]: "dec n \<noteq> []"
  by (subst dec.simps) simp

lemma is_digit_char: "(n :: nat) < 10 \<Longrightarrow> is_digit (char_of (48 + n))"
  by (simp add: is_digit_def of_char_of)

lemma dec_digits: "list_all is_digit (dec n)"
proof (induction n rule: dec.induct)
  case (1 n)
  then show ?case using is_digit_char [of n] is_digit_char [of "n mod 10"]
    by (subst dec.simps) simp
qed

lemma digit_value_dec [simp]: "digit_value (dec n) = n"
proof (induction n rule: dec.induct)
  case (1 n)
  show ?case
  proof (cases "n < 10")
    case True
    then show ?thesis by (subst dec.simps) (simp add: digit_value_def of_char_of)
  next
    case False
    have "n mod 10 < 10" by simp
    then have "digit_value (dec n) = 10 * digit_value (dec (n div 10)) + n mod 10"
      using False by (subst dec.simps) (simp add: digit_value_def of_char_of)
    then show ?thesis using 1 False by simp
  qed
qed

lemma dec_hd_digit: "is_digit (hd (dec n))"
  using dec_digits [of n] dec_not_Nil [of n] by (cases "dec n") simp_all

lemma parse_u8_dec: "b \<le> 255 \<Longrightarrow> parse_u8 (dec b) = Some b"
proof -
  assume b: "b \<le> 255"
  have "hd (dec b) \<noteq> CHR ''+''" using dec_hd_digit [of b] by (auto simp: is_digit_def)
  then have "(case dec b of c # cs \<Rightarrow> if c = CHR ''+'' then cs else dec b | [] \<Rightarrow> []) = dec b"
    by (cases "dec b") auto
  then show ?thesis using b dec_digits [of b] by (simp add: parse_u8_def)
qed

lemma negotiable_le: "negotiable b \<Longrightarrow> b \<le> 255"
  by (simp add: negotiable_def window_consts)

text \<open>A parameter is followed by nothing or by the next one.\<close>

definition at_end :: "string \<Rightarrow> bool" where
  "at_end s \<longleftrightarrow> s = [] \<or> hd s = CHR '';''"

lemma at_end_cases: "at_end s \<Longrightarrow> s = [] \<or> (\<exists>r. s = CHR '';'' # r)"
  by (cases s) (auto simp: at_end_def)

lemma key_char_facts: "is_key_char c \<Longrightarrow> \<not> is_space c" "\<not> is_key_char (CHR '';'')"
  "\<not> is_key_char (CHR ''='')" "\<not> is_space (CHR '';'')" "\<not> is_space (CHR ''='')"
  "is_digit c \<Longrightarrow> \<not> is_space c" "\<not> is_digit (CHR '';'')"
  by (auto simp: is_key_char_def is_alnum_def is_digit_def is_space_def Let_def)

lemma space0_key: "list_all is_key_char key \<Longrightarrow> key \<noteq> [] \<Longrightarrow> space0 (CHR '' '' # key @ r) = key @ r"
  using key_char_facts(1) by (cases key) (auto simp: space0_def is_space_def)

lemma parse_extension_key:
  assumes "list_all is_key_char key" "key \<noteq> []" "r = [] \<or> hd r = CHR '';'' \<or> hd r = CHR ''=''"
  shows "parse_extension (''; '' @ key @ r) =
    (case tag ''='' (space0 r) of
       None \<Rightarrow> Some (r, key, None)
     | Some s \<Rightarrow>
         let s = space0 s; ds = takeWhile is_digit s in
         Some (dropWhile is_digit s, key, if ds = [] then None else Some ds))"
proof -
  have "takeWhile is_key_char (key @ r) = key \<and> dropWhile is_key_char (key @ r) = r"
    using assms key_char_facts(2,3)
    by (cases r) (auto simp: takeWhile_append dropWhile_append list_all_iff)
  moreover have "tag '';'' (space0 (''; '' @ key @ r)) = Some (CHR '' '' # key @ r)"
    using key_char_facts(4) by (simp add: space0_def tag_def)
  ultimately show ?thesis
    using assms(1,2) space0_key [OF assms(1,2), of r]
    by (simp add: parse_extension_def Let_def split: option.split)
qed

lemma parse_extension_flag:
  assumes "list_all is_key_char key" "key \<noteq> []" "at_end r"
  shows "parse_extension (''; '' @ key @ r) = Some (r, key, None)"
proof -
  have "tag ''='' (space0 r) = None"
    using at_end_cases [OF assms(3)] key_char_facts(4) by (auto simp: tag_def space0_def)
  then show ?thesis using parse_extension_key [of key r] assms by (auto simp: at_end_def)
qed

lemma parse_extension_value:
  assumes "list_all is_key_char key" "key \<noteq> []" "at_end r"
  shows "parse_extension (''; '' @ key @ ''='' @ dec b @ r) = Some (r, key, Some (dec b))"
proof -
  have "takeWhile is_digit (dec b @ r) = dec b \<and> dropWhile is_digit (dec b @ r) = r"
    using at_end_cases [OF assms(3)] dec_digits [of b] key_char_facts(7)
    by (auto simp: takeWhile_append dropWhile_append list_all_iff)
  moreover have "space0 (dec b @ r) = dec b @ r"
    using dec_hd_digit [of b] key_char_facts(6) by (cases "dec b") (auto simp: space0_def)
  ultimately show ?thesis
    using parse_extension_key [of key "''='' @ dec b @ r"] assms key_char_facts(5)
    by (simp add: tag_def space0_def [of "CHR ''='' # _"] Let_def)
qed

text \<open>Parameters with a value that may be named in a header.\<close>

definition valid_bits :: "nat option option \<Rightarrow> bool" where
  "valid_bits v = (case v of Some (Some b) \<Rightarrow> negotiable b | _ \<Rightarrow> True)"

definition valid_extensions :: "extensions \<Rightarrow> bool" where
  "valid_extensions e \<longleftrightarrow> valid_bits (server_max_window_bits e) \<and> valid_bits (client_max_window_bits e)"

lemma parse_extensions_Cons:
  "parse_extensions (''; '' @ s) e =
    (case parse_extension (''; '' @ s) of
       None \<Rightarrow> None
     | Some (r, key, v) \<Rightarrow> parse_extensions r (set_param key v e))"
  by (simp add: parse_extensions.simps [of "CHR '';'' # _"])

lemma parse_extensions_bits:
  assumes "valid_bits v" "at_end r" "list_all is_key_char name" "name \<noteq> []"
  shows "parse_extensions (display_bits name v @ r) e =
    (case v of
       None \<Rightarrow> parse_extensions r e
     | Some w \<Rightarrow> parse_extensions r (set_param name (map_option dec w) e))"
proof (cases v)
  case None
  then show ?thesis by (simp add: display_bits_def)
next
  case (Some w)
  show ?thesis
  proof (cases w)
    case None
    then show ?thesis using Some parse_extensions_Cons [of "name @ r" e] parse_extension_flag [OF assms(3,4,2)]
      by (simp add: display_bits_def)
  next
    case (Some b)
    then show ?thesis
      using \<open>v = Some w\<close> assms(1) parse_extensions_Cons [of "name @ ''='' @ dec b @ r" e]
        parse_extension_value [OF assms(3,4,2), of b]
      by (simp add: display_bits_def valid_bits_def)
  qed
qed

lemma parse_extensions_flag:
  assumes "at_end r" "list_all is_key_char key" "key \<noteq> []"
  shows "parse_extensions ((if b then ''; '' @ key else []) @ r) e =
    parse_extensions r (if b then set_param key None e else e)"
  using parse_extension_flag [OF assms(2,3,1)] parse_extensions_Cons [of "key @ r" e] by simp

lemma param_names:
  "list_all is_key_char ''server_max_window_bits''" "list_all is_key_char ''client_max_window_bits''"
  "list_all is_key_char ''server_no_context_takeover''" "list_all is_key_char ''client_no_context_takeover''"
  by (simp_all add: is_key_char_def is_alnum_def is_digit_def)

lemma bind_parse_u8_dec: "valid_bits (Some w) \<Longrightarrow> Option.bind (map_option dec w) parse_u8 = w"
  by (auto simp: valid_bits_def parse_u8_dec negotiable_le split: option.splits)

lemma at_end_bits: "at_end r \<Longrightarrow> at_end (display_bits name v @ r)"
  by (auto simp: display_bits_def at_end_def split: option.splits)

lemma from_str_display:
  assumes "valid_extensions e"
  shows "from_str (display e) = Some e"
proof -
  define s4 where "s4 = (if client_no_context_takeover e then ''; '' @ ''client_no_context_takeover'' else [])"
  define s3 where "s3 = (if server_no_context_takeover e then ''; '' @ ''server_no_context_takeover'' else [])"
  define s2 where "s2 = display_bits ''client_max_window_bits'' (client_max_window_bits e)"
  define s1 where "s1 = display_bits ''server_max_window_bits'' (server_max_window_bits e)"
  have v: "valid_bits (server_max_window_bits e)" "valid_bits (client_max_window_bits e)"
    using assms by (simp_all add: valid_extensions_def)
  have e4: "at_end s4" and e3: "at_end (s3 @ s4)" by (auto simp: at_end_def s3_def s4_def)
  have e2: "at_end (s2 @ s3 @ s4)" unfolding s2_def using e3 by (rule at_end_bits)
  define x1 where "x1 = (case server_max_window_bits e of None \<Rightarrow> extensions_default
      | Some w \<Rightarrow> extensions_default\<lparr>server_max_window_bits := Some w\<rparr>)"
  define x2 where "x2 = (case client_max_window_bits e of None \<Rightarrow> x1
      | Some w \<Rightarrow> x1\<lparr>client_max_window_bits := Some w\<rparr>)"
  define x3 where "x3 = (if server_no_context_takeover e then x2\<lparr>server_no_context_takeover := True\<rparr> else x2)"
  have "from_str (display e) = parse_extensions (s1 @ s2 @ s3 @ s4) extensions_default"
    by (simp add: from_str_def display_def tag_def s1_def s2_def s3_def s4_def)
  also have "\<dots> = parse_extensions (s2 @ s3 @ s4) x1"
    unfolding s1_def parse_extensions_bits [OF v(1) e2 param_names(1) list.distinct(2)] x1_def
    using v(1) by (auto simp: set_param_def bind_parse_u8_dec split: option.split)
  also have "\<dots> = parse_extensions (s3 @ s4) x2"
    unfolding s2_def parse_extensions_bits [OF v(2) e3 param_names(2) list.distinct(2)] x2_def
    using v(2) by (auto simp: set_param_def bind_parse_u8_dec split: option.split)
  also have "\<dots> = parse_extensions s4 x3"
    unfolding s3_def parse_extensions_flag [OF e4 param_names(3) list.distinct(2)] x3_def
    by (simp add: set_param_def)
  also have "\<dots> = parse_extensions [] (if client_no_context_takeover e
      then x3\<lparr>client_no_context_takeover := True\<rparr> else x3)"
    using parse_extensions_flag [of "[]" "''client_no_context_takeover''" "client_no_context_takeover e" x3]
      param_names(4) by (simp add: s4_def set_param_def at_end_def)
  also have "\<dots> = Some e"
    by (cases e) (auto simp: x1_def x2_def x3_def parse_extensions.simps [of "[]"] extensions_default_def
        split: option.splits)
  finally show ?thesis .
qed

section \<open>Offers and answers\<close>

text \<open>An offer that RFC 7692 allows: windows from 8 to 15, a server window only with a value.\<close>

definition valid_offer :: "extensions \<Rightarrow> bool" where
  "valid_offer e \<longleftrightarrow> valid_extensions e \<and> server_max_window_bits e \<noteq> Some None"

lemma window_bits_negotiable: "window_bits v = Some b \<Longrightarrow> negotiable b"
  by (auto simp: window_bits_def split: option.splits if_splits)

lemma offer_param_valid: "offer_param name v e = Some e' \<Longrightarrow> valid_offer e \<Longrightarrow> valid_offer e'"
  by (auto simp: offer_param_def valid_offer_def valid_extensions_def valid_bits_def
      split: option.splits if_splits dest: window_bits_negotiable)

lemma offer_loop_valid: "offer_loop earlier ps e = Some e' \<Longrightarrow> valid_offer e \<Longrightarrow> valid_offer e'"
  by (induction earlier ps e rule: offer_loop.induct)
    (auto split: if_splits option.splits dest: offer_param_valid)

lemma offer_valid: "offer ps = Some e \<Longrightarrow> valid_offer e"
  unfolding offer_def
  by (erule offer_loop_valid)
    (simp add: valid_offer_def valid_extensions_def valid_bits_def extensions_default_def)

lemma map_filter_offer_valid: "list_all valid_offer (List.map_filter (\<lambda>(name, ps). offer ps) xs)"
  by (induction xs) (auto simp: map_filter_simps dest: offer_valid split: option.splits)

lemma offers_loop_valid: "list_all valid_offer acc \<Longrightarrow> list_all valid_offer (offers_loop hs acc)"
proof (induction hs acc rule: offers_loop.induct)
  case (2 h hs acc)
  then show ?case by (auto simp: map_filter_offer_valid split: option.split)
qed simp

lemma offers_valid: "list_all valid_offer (offers hs)"
  by (simp add: offers_def offers_loop_valid)

lemma clamp_range: "lo \<le> hi \<Longrightarrow> lo \<le> clamp lo hi b \<and> clamp lo hi b \<le> hi"
  by (simp add: clamp_def)

text \<open>
  What RFC 7692 asks of an answer to an offer: a client window only if offered, a
  limit on the server window kept and repeated, no context takeover granted when
  asked for, and windows from 8 to 15, the one of the server large enough for the
  compressor.
\<close>

definition rfc_answer :: "bool \<Rightarrow> extensions \<Rightarrow> extensions \<Rightarrow> bool" where
  "rfc_answer zlib off ans \<longleftrightarrow>
     (client_max_window_bits off = None \<longrightarrow> client_max_window_bits ans = None) \<and>
     (case (client_max_window_bits off, client_max_window_bits ans) of
        (Some (Some b), Some (Some a)) \<Rightarrow> a \<le> b | _ \<Rightarrow> True) \<and>
     (case server_max_window_bits off of
        Some (Some b) \<Rightarrow> (case server_max_window_bits ans of Some (Some a) \<Rightarrow> a \<le> b | _ \<Rightarrow> False)
      | _ \<Rightarrow> True) \<and>
     (server_no_context_takeover off \<longrightarrow> server_no_context_takeover ans) \<and>
     (client_no_context_takeover off \<longrightarrow> client_no_context_takeover ans) \<and>
     valid_extensions ans \<and>
     (case server_max_window_bits ans of
        Some (Some a) \<Rightarrow> smallest_window zlib \<le> a | Some None \<Rightarrow> False | None \<Rightarrow> True)"

lemma merge_bits_le:
  "merge_bits (Some (Some c)) pref absent = Some (Some a) \<Longrightarrow> a \<le> c"
  "\<exists>a. merge_bits (Some w) pref absent = Some (Some a)"
  by (auto simp: merge_bits_def split: option.splits)

lemma merge_rfc_answer:
  assumes "valid_offer off" "can_honor zlib off"
  shows "rfc_answer zlib off (merge zlib opts off)"
proof (cases zlib)
  case True
  have "\<And>b. 8 \<le> clamp 9 15 b \<and> 9 \<le> clamp 9 15 b \<and> clamp 9 15 b \<le> 15" "\<And>b. 8 \<le> clamp 8 15 b \<and> clamp 8 15 b \<le> 15"
    by (simp_all add: clamp_def)
  then show ?thesis using assms True
    by (auto simp: rfc_answer_def merge_def Let_def merge_bits_def can_honor_def smallest_window_def
        valid_offer_def valid_extensions_def valid_bits_def negotiable_def window_consts min_le_iff_disj
        split: option.splits)
next
  case False
  then show ?thesis using assms
    by (auto simp: rfc_answer_def merge_def Let_def can_honor_def smallest_window_def
        valid_offer_def valid_extensions_def valid_bits_def split: option.splits)
qed

lemma agree_obtains:
  assumes "agree zlib server os = Some ans"
  obtains opts off where "server = Some opts" "off \<in> set os" "can_honor zlib off" "ans = merge zlib opts off"
  using assms by (auto simp: agree_def find_Some_iff split: option.splits) (metis nth_mem)

section \<open>Properties\<close>

text \<open>
  C25. The answer of a server obeys RFC 7692: whatever the headers of the client hold
  and whatever the server is configured with, an answer is an answer to one of the
  offers, never names a client window that was not offered, keeps every limit the
  offer set, grants the takeover restrictions, and names only usable windows.
\<close>

theorem agree_obeys_rfc7692:
  assumes "agree zlib server (offers hs) = Some ans"
  shows "\<exists>off \<in> set (offers hs). rfc_answer zlib off ans"
proof -
  obtain opts off where "off \<in> set (offers hs)" "can_honor zlib off" "ans = merge zlib opts off"
    using assms by (rule agree_obtains)
  then show ?thesis
    using merge_rfc_answer [of off zlib opts] offers_valid [of hs] by (auto simp: list_all_iff)
qed

theorem agree_obeys_rfc7692_witness:
  "\<exists>off \<in> set (offers [Some ''permessage-deflate; server_max_window_bits=8, permessage-deflate; server_max_window_bits=10'']).
     rfc_answer True off \<lparr>server_max_window_bits = Some (Some 10), client_max_window_bits = None,
       server_no_context_takeover = False, client_no_context_takeover = False\<rparr>"
  by (rule agree_obeys_rfc7692 [where server = "Some balanced"]) code_simp

text \<open>
  Both ends agree on the negotiated parameters: the client parses the header the
  server prints back to the very parameters the server agreed to, and resolving
  them on the two sides gives mirrored settings, what one end compresses with being
  what the other decompresses with.
\<close>

lemma negotiation_agrees:
  assumes "agree zlib server (offers hs) = Some ans"
  shows "from_headers [Some (display ans)] = Some ans \<and>
    (\<exists>c s. resolve (Some ans) (Some client_level) Client = Ok (Some c) \<and>
       resolve (Some ans) (Some server_level) Server = Ok (Some s) \<and>
       cc_outgoing c = cc_incoming s \<and> cc_incoming c = cc_outgoing s)"
proof -
  obtain opts off where "off \<in> set (offers hs)" "can_honor zlib off" "ans = merge zlib opts off"
    using assms by (rule agree_obtains)
  then have "rfc_answer zlib off ans"
    using merge_rfc_answer [of off zlib opts] offers_valid [of hs] by (auto simp: list_all_iff)
  then have "from_str (display ans) = Some ans" by (simp add: from_str_display rfc_answer_def)
  then show ?thesis by (simp add: from_headers_def resolve_def Let_def)
qed


end
