(* ===== verification/Deflate.thy ===== *)
theory Deflate
  imports Extensions Transport
begin

text \<open>
  The deflate and inflate states of \<open>src/compression.rs\<close> (\<open>Deflate\<close>, \<open>Inflate\<close>) with
  their output buffers and loops.

  The compression library flate2 is a parameter, the record \<open>flate\<close> of the functions
  the crate calls: each call takes the input, the room in the output slice and the
  kind of flush, and returns the status, how much \<open>total_in\<close> grew, the bytes it wrote
  (by which \<open>total_out\<close> grew) and the new state.  The buffer library bytes decides
  how much a buffer grows when it is reserved: \<open>grow len cap\<close> is the capacity after
  \<open>reserve\<close> of a buffer that holds \<open>len\<close> of \<open>cap\<close> bytes.  The loops, whose end
  depends on what flate2 returns, are partial functions (\<open>None\<close>: the call does not
  return); that they return is proved below from what flate2 documents.
\<close>

section \<open>Parameters\<close>

datatype z_flush = No_Flush | Partial_Flush | Sync_Flush

datatype z_status = Z_Ok | Z_BufError | Z_StreamEnd

text \<open>A call of flate2: status or error text, bytes consumed, bytes written, new state.\<close>

type_synonym 'z z_call = "bytes \<Rightarrow> nat \<Rightarrow> z_flush \<Rightarrow> 'z \<Rightarrow> (string + z_status) \<times> nat \<times> bytes \<times> 'z"

record ('z, 'y) flate =
  z_new :: "nat \<Rightarrow> nat option \<Rightarrow> 'z"
  z_reset :: "'z \<Rightarrow> 'z"
  z_compress :: "'z z_call"
  y_new :: "nat option \<Rightarrow> 'y"
  y_reset :: "'y \<Rightarrow> 'y"
  y_decompress :: "'y z_call"
  grow :: "nat \<Rightarrow> nat \<Rightarrow> nat"

section \<open>Output buffers\<close>

record out_buf =
  buf_data :: bytes
  buf_cap :: nat

definition OUTPUT_CAPACITY :: nat where "OUTPUT_CAPACITY = 1024"

definition buf_new :: out_buf where
  "buf_new = \<lparr>buf_data = [], buf_cap = OUTPUT_CAPACITY\<rparr>"

definition take_output :: "out_buf \<Rightarrow> bytes \<times> out_buf" where
  "take_output b =
    (if length (buf_data b) > OUTPUT_CAPACITY then (buf_data b, \<lparr>buf_data = [], buf_cap = 0\<rparr>)
     else (buf_data b, \<lparr>buf_data = [], buf_cap = buf_cap b - length (buf_data b)\<rparr>))"

text \<open>The room for output, with the buffer that has it.\<close>

definition chunk :: "('z, 'y) flate \<Rightarrow> out_buf \<Rightarrow> nat \<times> out_buf" where
  "chunk fl b =
    (let b = (if buf_cap b - length (buf_data b) < 1024
              then b\<lparr>buf_cap := grow fl (length (buf_data b)) (buf_cap b)\<rparr> else b)
     in (buf_cap b - length (buf_data b), b))"

definition inflate_chunk :: "('z, 'y) flate \<Rightarrow> nat \<Rightarrow> out_buf \<Rightarrow> nat res \<times> out_buf" where
  "inflate_chunk fl max_output b =
    (if length (buf_data b) \<ge> max_output then (Err FrameTooLarge, b)
     else case chunk fl b of
       (room, b) \<Rightarrow> (Ok (min room (max_output - length (buf_data b))), b))"

definition advance :: "bytes \<Rightarrow> out_buf \<Rightarrow> out_buf" where
  "advance w b = b\<lparr>buf_data := buf_data b @ w\<rparr>"

definition corrupt :: ws_error where
  "corrupt = IoError (Io_Error InvalidInput ''corrupt deflate stream'')"

definition deflate_error :: "string \<Rightarrow> ws_error" where
  "deflate_error msg = IoError (Io_Error InvalidInput (''Compression error: '' @ msg))"

definition inflate_error :: "string \<Rightarrow> ws_error" where
  "inflate_error msg = IoError (Io_Error InvalidInput (''Decompression error: '' @ msg))"

definition no_progress :: ws_error where
  "no_progress = IoError (Io_Error InvalidInput ''deflate stream made no progress'')"

section \<open>Compressing\<close>

record 'z deflater =
  df_output :: out_buf
  df_compress :: 'z
  df_level :: nat

definition deflater_new :: "('z, 'y) flate \<Rightarrow> nat \<Rightarrow> 'z deflater" where
  "deflater_new fl level = \<lparr>df_output = buf_new, df_compress = z_new fl level None, df_level = level\<rparr>"

definition deflater_new_with_window_bits :: "('z, 'y) flate \<Rightarrow> nat \<Rightarrow> nat \<Rightarrow> 'z deflater" where
  "deflater_new_with_window_bits fl level bits =
    \<lparr>df_output = buf_new, df_compress = z_new fl level (Some bits), df_level = level\<rparr>"

definition deflater_reset :: "('z, 'y) flate \<Rightarrow> 'z deflater \<Rightarrow> 'z deflater" where
  "deflater_reset fl d = d\<lparr>df_compress := z_reset fl (df_compress d)\<rparr>"

definition deflate_write :: "('z, 'y) flate \<Rightarrow> bytes \<Rightarrow> 'z deflater \<Rightarrow> nat res \<times> 'z deflater" where
  "deflate_write fl input d =
    (case chunk fl (df_output d) of
       (room, b) \<Rightarrow>
         (case z_compress fl input room Partial_Flush (df_compress d) of
            (status, consumed, written, z) \<Rightarrow>
              let d = d\<lparr>df_output := advance written b, df_compress := z\<rparr>
              in (case status of Inr Z_Ok \<Rightarrow> (Ok consumed, d) | _ \<Rightarrow> (Err corrupt, d))))"

partial_function (option) deflate_write_all ::
  "('z, 'y) flate \<Rightarrow> bytes \<Rightarrow> 'z deflater \<Rightarrow> (unit res \<times> 'z deflater) option"
where
  "deflate_write_all fl input d =
    (if input = [] then Some (Ok (), d)
     else case deflate_write fl input d of
       (Err e, d) \<Rightarrow> Some (Err e, d)
     | (Ok consumed, d) \<Rightarrow> deflate_write_all fl (drop consumed input) d)"

declare deflate_write_all.simps [code]

definition sync_marker :: bytes where "sync_marker = [0x00, 0x00, 0xFF, 0xFF]"

definition ends_with :: "bytes \<Rightarrow> bytes \<Rightarrow> bool" where
  "ends_with xs ys \<longleftrightarrow> length ys \<le> length xs \<and> drop (length xs - length ys) xs = ys"

lemma ends_with_iff: "ends_with xs ys \<longleftrightarrow> (\<exists>u. xs = u @ ys)"
proof
  assume e: "ends_with xs ys"
  have "take (length xs - length ys) xs @ drop (length xs - length ys) xs = xs" by (rule append_take_drop_id)
  then show "\<exists>u. xs = u @ ys" using e by (metis ends_with_def)
qed (auto simp: ends_with_def)

partial_function (option) deflate_flush ::
  "('z, 'y) flate \<Rightarrow> 'z deflater \<Rightarrow> (bytes res \<times> 'z deflater) option"
where
  "deflate_flush fl d =
    (case chunk fl (df_output d) of
       (room, b) \<Rightarrow>
         (case z_compress fl [] room Sync_Flush (df_compress d) of
            (Inl msg, consumed, written, z) \<Rightarrow>
              Some (Err (deflate_error msg), d\<lparr>df_output := b, df_compress := z\<rparr>)
          | (Inr status, consumed, written, z) \<Rightarrow>
              let b = advance written b; d = d\<lparr>df_compress := z\<rparr>
              in if written = [] \<and> status = Z_BufError then
                   (case take_output (advance [0x00] b) of (out, b) \<Rightarrow> Some (Ok out, d\<lparr>df_output := b\<rparr>))
                 else if ends_with (buf_data b) sync_marker then
                   (case take_output (b\<lparr>buf_data := take (length (buf_data b) - 4) (buf_data b)\<rparr>) of
                      (out, b) \<Rightarrow> Some (Ok out, d\<lparr>df_output := b\<rparr>))
                 else deflate_flush fl (d\<lparr>df_output := b\<rparr>)))"

declare deflate_flush.simps [code]

definition deflate_run ::
  "('z, 'y) flate \<Rightarrow> bytes \<Rightarrow> bool \<Rightarrow> 'z deflater \<Rightarrow> (bytes res \<times> 'z deflater) option"
where
  "deflate_run fl input flush d =
    (case deflate_write_all fl input d of
       None \<Rightarrow> None
     | Some (Err e, d) \<Rightarrow> Some (Err e, d)
     | Some (Ok _, d) \<Rightarrow>
         if flush then deflate_flush fl d
         else case take_output (df_output d) of (out, b) \<Rightarrow> Some (Ok out, d\<lparr>df_output := b\<rparr>))"

section \<open>Decompressing\<close>

record 'y inflater =
  if_output :: out_buf
  if_decompress :: 'y
  stream_ended :: bool

definition inflater_default :: "('z, 'y) flate \<Rightarrow> 'y inflater" where
  "inflater_default fl = \<lparr>if_output = buf_new, if_decompress = y_new fl None, stream_ended = False\<rparr>"

definition inflater_new_with_window_bits :: "('z, 'y) flate \<Rightarrow> nat \<Rightarrow> 'y inflater" where
  "inflater_new_with_window_bits fl bits =
    \<lparr>if_output = buf_new, if_decompress = y_new fl (Some bits), stream_ended = False\<rparr>"

definition inflater_reset :: "('z, 'y) flate \<Rightarrow> 'y inflater \<Rightarrow> 'y inflater" where
  "inflater_reset fl i = i\<lparr>if_decompress := y_reset fl (if_decompress i), stream_ended := False\<rparr>"

partial_function (option) inflate_write ::
  "('z, 'y) flate \<Rightarrow> nat \<Rightarrow> bytes \<Rightarrow> 'y inflater \<Rightarrow> (unit res \<times> 'y inflater) option"
where
  "inflate_write fl max_output input i =
    (if input = [] then Some (Ok (), i)
     else case inflate_chunk fl max_output (if_output i) of
       (Err e, b) \<Rightarrow> Some (Err e, i\<lparr>if_output := b\<rparr>)
     | (Ok room, b) \<Rightarrow>
         (case y_decompress fl input room No_Flush (if_decompress i) of
            (status, consumed, written, y) \<Rightarrow>
              let b = advance written b; i = i\<lparr>if_output := b, if_decompress := y\<rparr>
              in if length (buf_data b) \<ge> max_output then Some (Err FrameTooLarge, i)
                 else case status of
                   Inr Z_StreamEnd \<Rightarrow> Some (Ok (), i\<lparr>stream_ended := True\<rparr>)
                 | Inl _ \<Rightarrow> Some (Err corrupt, i)
                 | Inr _ \<Rightarrow>
                     if consumed = 0 \<and> written = [] then Some (Err no_progress, i)
                     else inflate_write fl max_output (drop consumed input) i))"

declare inflate_write.simps [code]

partial_function (option) inflate_flush ::
  "('z, 'y) flate \<Rightarrow> nat \<Rightarrow> z_flush \<Rightarrow> 'y inflater \<Rightarrow> (bytes res \<times> 'y inflater) option"
where
  "inflate_flush fl max_output flush i =
    (case inflate_chunk fl max_output (if_output i) of
       (Err e, b) \<Rightarrow> Some (Err e, i\<lparr>if_output := b\<rparr>)
     | (Ok room, b) \<Rightarrow>
         (case y_decompress fl [] room flush (if_decompress i) of
            (Inl msg, consumed, written, y) \<Rightarrow>
              Some (Err (inflate_error msg), i\<lparr>if_output := b, if_decompress := y\<rparr>)
          | (Inr status, consumed, written, y) \<Rightarrow>
              let i = i\<lparr>if_decompress := y\<rparr>
              in if written = [] \<and> flush = No_Flush then
                   (case take_output b of (out, b) \<Rightarrow> Some (Ok out, i\<lparr>if_output := b\<rparr>))
                 else inflate_flush fl max_output No_Flush (i\<lparr>if_output := advance written b\<rparr>)))"

declare inflate_flush.simps [code]

text \<open>The end of a message: the suffix the sender left out, the rest of the output, a fresh start.\<close>

definition inflate_end ::
  "('z, 'y) flate \<Rightarrow> nat \<Rightarrow> 'y inflater \<Rightarrow> (bytes res \<times> 'y inflater) option"
where
  "inflate_end fl max_output i =
    (case (if stream_ended i then Some (Ok (), i) else inflate_write fl max_output sync_marker i) of
       None \<Rightarrow> None
     | Some (Err e, i) \<Rightarrow> Some (Err e, i)
     | Some (Ok _, i) \<Rightarrow>
         (case inflate_flush fl max_output Sync_Flush i of
            None \<Rightarrow> None
          | Some (Err e, i) \<Rightarrow> Some (Err e, i)
          | Some (Ok out, i) \<Rightarrow>
              Some (Ok out, if stream_ended i
                then i\<lparr>if_decompress := y_reset fl (if_decompress i), stream_ended := False\<rparr> else i)))"

definition inflate_run ::
  "('z, 'y) flate \<Rightarrow> bytes \<Rightarrow> bool \<Rightarrow> nat \<Rightarrow> 'y inflater \<Rightarrow> (bytes res \<times> 'y inflater) option"
where
  "inflate_run fl input stream_end max_output i =
    (if max_output = 0 then Some (Err FrameTooLarge, i)
     else case inflate_write fl max_output input i of
       None \<Rightarrow> None
     | Some (Err e, i) \<Rightarrow> Some (Err e, i)
     | Some (Ok _, i) \<Rightarrow>
         if stream_end then inflate_end fl max_output i
         else case take_output (if_output i) of (out, b) \<Rightarrow> Some (Ok out, i\<lparr>if_output := b\<rparr>))"

section \<open>The inflater ends and is bounded\<close>

text \<open>
  What the loops of the inflater rely on: flate2 writes at most as many bytes as the
  slice has.  This is all: the loops end for every input, and however flate2 answers.
\<close>

locale bounded_flate =
  fixes fl :: "('z, 'y) flate"
  assumes written_le: "y_decompress fl input room flush y = (st, n, w, y') \<Longrightarrow> length w \<le> room"
begin

lemma inflate_chunk_data:
  "inflate_chunk fl m b = (r, b') \<Longrightarrow> buf_data b' = buf_data b \<and>
    (case r of Err e \<Rightarrow> e = FrameTooLarge \<and> m \<le> length (buf_data b)
     | Ok room \<Rightarrow> length (buf_data b) < m \<and> room \<le> m - length (buf_data b))"
  by (auto simp: inflate_chunk_def chunk_def Let_def split: if_splits)

lemma inflate_write_returns:
  "\<exists>r i'. inflate_write fl m input i = Some (r, i') \<and>
    (length (buf_data (if_output i)) < m \<longrightarrow> r = Ok () \<longrightarrow> length (buf_data (if_output i')) < m)"
proof (induction "length input + (m - length (buf_data (if_output i)))" arbitrary: input i rule: less_induct)
  case less
  show ?case
  proof (cases "input = []")
    case True
    then show ?thesis by (simp add: inflate_write.simps)
  next
    case False
    obtain q b where q: "inflate_chunk fl m (if_output i) = (q, b)" by fastforce
    note chunk = inflate_chunk_data [OF q]
    show ?thesis
    proof (cases q)
      case (Inl e)
      then show ?thesis using q False by (subst inflate_write.simps) simp
    next
      case (Inr room)
      obtain st n w y where d: "y_decompress fl input room No_Flush (if_decompress i) = (st, n, w, y)"
        by (metis prod_cases4)
      let ?i = "i\<lparr>if_output := advance w b, if_decompress := y\<rparr>"
      have "\<exists>r i'. inflate_write fl m (drop n input) ?i = Some (r, i') \<and>
          (length (buf_data (if_output ?i)) < m \<longrightarrow> r = Ok () \<longrightarrow> length (buf_data (if_output i')) < m)"
        if "n \<noteq> 0 \<or> w \<noteq> []"
        using that chunk Inr written_le [OF d] False
        by (intro less.hyps) (auto simp: advance_def length_greater_0_conv [symmetric] simp del: length_greater_0_conv)
      then show ?thesis using q False Inr d
        by (subst inflate_write.simps) (auto simp: Let_def split: sum.split z_status.split)
    qed
  qed
qed

lemma inflate_flush_returns:
  "\<exists>r i'. inflate_flush fl m flush i = Some (r, i') \<and>
    (\<forall>out. r = Ok out \<longrightarrow> length out < m \<and> buf_data (if_output i') = [])"
proof (induction "2 * (m - length (buf_data (if_output i))) + (if flush = No_Flush then 0 else 1)"
    arbitrary: flush i rule: less_induct)
  case less
  obtain q b where q: "inflate_chunk fl m (if_output i) = (q, b)" by fastforce
  note chunk = inflate_chunk_data [OF q]
  show ?case
  proof (cases q)
    case (Inl e)
    then show ?thesis using q by (subst inflate_flush.simps) simp
  next
    case (Inr room)
    obtain st n w y where d: "y_decompress fl [] room flush (if_decompress i) = (st, n, w, y)"
      by (metis prod_cases4)
    let ?i = "i\<lparr>if_decompress := y, if_output := advance w b\<rparr>"
    have "\<exists>r i'. inflate_flush fl m No_Flush ?i = Some (r, i') \<and>
        (\<forall>out. r = Ok out \<longrightarrow> length out < m \<and> buf_data (if_output i') = [])"
      if "\<not> (w = [] \<and> flush = No_Flush)"
      using that chunk Inr written_le [OF d]
      by (intro less.hyps) (cases w; auto simp: advance_def)
    then show ?thesis using q Inr d chunk
      by (subst inflate_flush.simps) (auto simp: Let_def take_output_def split: sum.split)
  qed
qed

lemma inflate_run_returns:
  assumes "buf_data (if_output i) = []"
  shows "\<exists>r i'. inflate_run fl input stream_end m i = Some (r, i') \<and>
    (\<forall>out. r = Ok out \<longrightarrow> length out < m \<and> buf_data (if_output i') = [])"
proof (cases "m = 0")
  case True
  then show ?thesis by (simp add: inflate_run_def)
next
  case m: False
  obtain r i1 where w: "inflate_write fl m input i = Some (r, i1)"
    "r = Ok () \<longrightarrow> length (buf_data (if_output i1)) < m"
    using inflate_write_returns [of m input i] assms m by auto
  have e: "\<exists>r i'. inflate_end fl m j = Some (r, i') \<and>
      (\<forall>out. r = Ok out \<longrightarrow> length out < m \<and> buf_data (if_output i') = [])" for j
  proof -
    obtain p j1 where p: "(if stream_ended j then Some (Ok (), j) else inflate_write fl m sync_marker j) = Some (p, j1)"
      using inflate_write_returns [of m sync_marker j] by (cases "stream_ended j") auto
    obtain q j2 where q: "inflate_flush fl m Sync_Flush j1 = Some (q, j2)"
      "\<forall>out. q = Ok out \<longrightarrow> length out < m \<and> buf_data (if_output j2) = []"
      using inflate_flush_returns [of m Sync_Flush j1] by blast
    show ?thesis using q unfolding inflate_end_def p by (cases p; cases q) auto
  qed
  show ?thesis using w m e [of i1] by (cases r) (auto simp: inflate_run_def take_output_def)
qed

end

end
