(* ===== verification/Deflate_Pool.thy ===== *)
theory Deflate_Pool
  imports Deflate
begin

text \<open>
  The pool of idle deflate states (\<open>src/compression/pool.rs\<close>).  \<open>zlib\<close> says whether the
  crate was built with a zlib backend, which has one queue per window size; an
  \<open>ArrayQueue\<close> is a list of bounded length, popped at the front and pushed at the
  back, and its operations are atomic, so that connections that share a pool act on
  it in some order.
\<close>

section \<open>State\<close>

definition WINDOW_SIZES :: "bool \<Rightarrow> nat" where
  "WINDOW_SIZES zlib = (if zlib then WINDOW_BITS_end - WINDOW_BITS_start + 1 else 1)"

record ('z, 'y) shared =
  sh_capacity :: nat
  sh_deflate :: "'z deflater list list"
  sh_inflate :: "'y inflater list list"

type_synonym ('z, 'y) pool = "('z, 'y) shared option"

definition pool_new :: "bool \<Rightarrow> nat \<Rightarrow> ('z, 'y) pool" where
  "pool_new zlib capacity =
    (if capacity > 0 then
       Some \<lparr>sh_capacity = capacity, sh_deflate = replicate (WINDOW_SIZES zlib) [],
         sh_inflate = replicate (WINDOW_SIZES zlib) []\<rparr>
     else None)"

definition slot :: "bool \<Rightarrow> nat option \<Rightarrow> nat" where
  "slot zlib wbits =
    (if zlib then
       (case wbits of
          None \<Rightarrow> WINDOW_BITS_end
        | Some bits \<Rightarrow> clamp WINDOW_BITS_start WINDOW_BITS_end bits) - WINDOW_BITS_start
     else 0)"

section \<open>Operations\<close>

definition queue_pop :: "'a list list \<Rightarrow> nat \<Rightarrow> 'a option \<times> 'a list list" where
  "queue_pop qs k = (case qs ! k of [] \<Rightarrow> (None, qs) | x # xs \<Rightarrow> (Some x, qs[k := xs]))"

definition queue_push :: "nat \<Rightarrow> 'a \<Rightarrow> 'a list list \<Rightarrow> nat \<Rightarrow> 'a list list" where
  "queue_push capacity x qs k = (if length (qs ! k) < capacity then qs[k := qs ! k @ [x]] else qs)"

definition take_deflate ::
  "bool \<Rightarrow> nat \<Rightarrow> nat option \<Rightarrow> ('z, 'y) pool \<Rightarrow> 'z deflater option \<times> ('z, 'y) pool"
where
  "take_deflate zlib level wbits p =
    (case p of
       None \<Rightarrow> (None, None)
     | Some sh \<Rightarrow>
         (case queue_pop (sh_deflate sh) (slot zlib wbits) of
            (None, qs) \<Rightarrow> (None, Some (sh\<lparr>sh_deflate := qs\<rparr>))
          | (Some d, qs) \<Rightarrow>
              (if df_level d = level then Some d else None, Some (sh\<lparr>sh_deflate := qs\<rparr>))))"

definition put_deflate :: "bool \<Rightarrow> nat option \<Rightarrow> 'z deflater \<Rightarrow> ('z, 'y) pool \<Rightarrow> ('z, 'y) pool" where
  "put_deflate zlib wbits d p =
    map_option (\<lambda>sh. sh\<lparr>sh_deflate := queue_push (sh_capacity sh) d (sh_deflate sh) (slot zlib wbits)\<rparr>) p"

definition take_inflate ::
  "bool \<Rightarrow> nat option \<Rightarrow> ('z, 'y) pool \<Rightarrow> 'y inflater option \<times> ('z, 'y) pool"
where
  "take_inflate zlib wbits p =
    (case p of
       None \<Rightarrow> (None, None)
     | Some sh \<Rightarrow>
         (case queue_pop (sh_inflate sh) (slot zlib wbits) of
            (i, qs) \<Rightarrow> (i, Some (sh\<lparr>sh_inflate := qs\<rparr>))))"

definition put_inflate :: "bool \<Rightarrow> nat option \<Rightarrow> 'y inflater \<Rightarrow> ('z, 'y) pool \<Rightarrow> ('z, 'y) pool" where
  "put_inflate zlib wbits i p =
    map_option (\<lambda>sh. sh\<lparr>sh_inflate := queue_push (sh_capacity sh) i (sh_inflate sh) (slot zlib wbits)\<rparr>) p"

section \<open>Invariant\<close>

text \<open>
  One queue per window size, none longer than the capacity, and every state in the
  queue of a slot has the property the users of the pool agreed on.
\<close>

definition queues_ok :: "bool \<Rightarrow> nat \<Rightarrow> (nat \<Rightarrow> 'a \<Rightarrow> bool) \<Rightarrow> 'a list list \<Rightarrow> bool" where
  "queues_ok zlib capacity P qs \<longleftrightarrow> length qs = WINDOW_SIZES zlib \<and>
     (\<forall>k < length qs. length (qs ! k) \<le> capacity \<and> list_all (P k) (qs ! k))"

definition pool_ok ::
  "bool \<Rightarrow> (nat \<Rightarrow> 'z deflater \<Rightarrow> bool) \<Rightarrow> (nat \<Rightarrow> 'y inflater \<Rightarrow> bool) \<Rightarrow> ('z, 'y) pool \<Rightarrow> bool"
where
  "pool_ok zlib P Q p \<longleftrightarrow>
    (case p of
       None \<Rightarrow> True
     | Some sh \<Rightarrow> queues_ok zlib (sh_capacity sh) P (sh_deflate sh) \<and>
         queues_ok zlib (sh_capacity sh) Q (sh_inflate sh))"

text \<open>Every index the pool uses is one of its queues.\<close>

lemma slot_less: "slot zlib bits < WINDOW_SIZES zlib"
  by (auto simp: slot_def WINDOW_SIZES_def WINDOW_BITS_start_def WINDOW_BITS_end_def clamp_def
      split: option.split)

lemma queues_ok_new: "queues_ok zlib capacity P (replicate (WINDOW_SIZES zlib) [])"
  by (simp add: queues_ok_def)

lemma queue_pop_ok:
  assumes "queues_ok zlib capacity P qs" "queue_pop qs (slot zlib bits) = (x, qs')"
  shows "queues_ok zlib capacity P qs' \<and> (\<forall>d. x = Some d \<longrightarrow> P (slot zlib bits) d)"
  using assms slot_less [of zlib bits]
  by (fastforce simp: queues_ok_def queue_pop_def nth_list_update split: list.splits)

lemma queue_push_ok:
  assumes "queues_ok zlib capacity P qs" "P (slot zlib bits) x"
  shows "queues_ok zlib capacity P (queue_push capacity x qs (slot zlib bits))"
  using assms slot_less [of zlib bits]
  by (cases "length (qs ! slot zlib bits) < capacity")
    (auto simp: queues_ok_def queue_push_def nth_list_update)

lemma pool_ok_new: "pool_ok zlib P Q (pool_new zlib capacity)"
  by (simp add: pool_ok_def pool_new_def queues_ok_new)

lemma take_deflate_ok:
  assumes "pool_ok zlib P Q p" "take_deflate zlib level bits p = (x, p')"
  shows "pool_ok zlib P Q p' \<and> (\<forall>d. x = Some d \<longrightarrow> P (slot zlib bits) d \<and> df_level d = level)"
proof (cases p)
  case (Some sh)
  obtain y qs where q: "queue_pop (sh_deflate sh) (slot zlib bits) = (y, qs)" by fastforce
  then show ?thesis using assms Some queue_pop_ok [OF _ q, of "sh_capacity sh" P]
    by (cases y) (auto simp: pool_ok_def take_deflate_def split: if_splits)
qed (use assms in \<open>auto simp: take_deflate_def\<close>)

lemma take_inflate_ok:
  assumes "pool_ok zlib P Q p" "take_inflate zlib bits p = (x, p')"
  shows "pool_ok zlib P Q p' \<and> (\<forall>i. x = Some i \<longrightarrow> Q (slot zlib bits) i)"
proof (cases p)
  case (Some sh)
  obtain y qs where q: "queue_pop (sh_inflate sh) (slot zlib bits) = (y, qs)" by fastforce
  then show ?thesis using assms Some queue_pop_ok [OF _ q, of "sh_capacity sh" Q]
    by (auto simp: pool_ok_def take_inflate_def)
qed (use assms in \<open>auto simp: take_inflate_def\<close>)

lemma put_deflate_ok:
  "pool_ok zlib P Q p \<Longrightarrow> P (slot zlib bits) d \<Longrightarrow> pool_ok zlib P Q (put_deflate zlib bits d p)"
  by (cases p) (auto simp: pool_ok_def put_deflate_def queue_push_ok)

lemma put_inflate_ok:
  "pool_ok zlib P Q p \<Longrightarrow> Q (slot zlib bits) i \<Longrightarrow> pool_ok zlib P Q (put_inflate zlib bits i p)"
  by (cases p) (auto simp: pool_ok_def put_inflate_def queue_push_ok)

end
