(* ===== verification/Compressor.thy ===== *)
theory Compressor
  imports Deflate_Pool
begin

text \<open>
  The compressor and the decompressor of a connection (\<open>Compressor\<close>, \<open>Decompressor\<close>
  and the two constructors of \<open>CompressionConfig\<close> in \<open>src/compression.rs\<close>).  They build
  their deflate state on first use, or borrow it from a pool for one message.  Pools
  are shared between connections: a connection holds the number of a pool, and the
  pools themselves are a store that every call takes and returns.
\<close>

section \<open>State\<close>

type_synonym ('z, 'y) pools = "nat \<Rightarrow> ('z, 'y) pool"

record 'z compressor =
  cp_deflate :: "'z deflater option"
  cp_level :: nat
  cp_config :: half_config
  cp_pool :: "nat option"

record 'y decompressor =
  dp_inflate :: "'y inflater option"
  dp_config :: half_config
  dp_pool :: "nat option"

definition compressor_new :: "nat \<Rightarrow> half_config \<Rightarrow> 'z compressor" where
  "compressor_new level config = \<lparr>cp_deflate = None, cp_level = level, cp_config = config, cp_pool = None\<rparr>"

definition decompressor_new :: "half_config \<Rightarrow> 'y decompressor" where
  "decompressor_new config = \<lparr>dp_inflate = None, dp_config = config, dp_pool = None\<rparr>"

definition config_compressor :: "compression_config \<Rightarrow> 'z compressor" where
  "config_compressor cc =
    (let c = compressor_new (cc_level cc) (cc_outgoing cc)
     in if no_context_takeover (cc_outgoing cc) then c\<lparr>cp_pool := cc_pool cc\<rparr> else c)"

definition config_decompressor :: "compression_config \<Rightarrow> 'y decompressor" where
  "config_decompressor cc =
    (let d = decompressor_new (cc_incoming cc)
     in if no_context_takeover (cc_incoming cc) then d\<lparr>dp_pool := cc_pool cc\<rparr> else d)"

section \<open>Compressing\<close>

definition build_deflater :: "bool \<Rightarrow> ('z, 'y) flate \<Rightarrow> nat \<Rightarrow> nat option \<Rightarrow> 'z deflater" where
  "build_deflater zlib fl level wbits =
    (case wbits of
       Some bits \<Rightarrow> if zlib then deflater_new_with_window_bits fl level bits else deflater_new fl level
     | None \<Rightarrow> deflater_new fl level)"

definition obtain_deflater ::
  "bool \<Rightarrow> ('z, 'y) flate \<Rightarrow> 'z compressor \<Rightarrow> ('z, 'y) pools \<Rightarrow> 'z deflater \<times> ('z, 'y) pools"
where
  "obtain_deflater zlib fl c pools =
    (let wbits = half_window_bits (cp_config c); new = build_deflater zlib fl (cp_level c) wbits
     in case cp_deflate c of
          Some d \<Rightarrow> (d, pools)
        | None \<Rightarrow>
            (case cp_pool c of
               None \<Rightarrow> (new, pools)
             | Some k \<Rightarrow>
                 (case take_deflate zlib (cp_level c) wbits (pools k) of
                    (Some d, p) \<Rightarrow> (d, pools(k := p))
                  | (None, p) \<Rightarrow> (new, pools(k := p)))))"

definition compressor_compress ::
  "bool \<Rightarrow> ('z, 'y) flate \<Rightarrow> bytes \<Rightarrow> bool \<Rightarrow> 'z compressor \<Rightarrow> ('z, 'y) pools \<Rightarrow>
   (bytes res \<times> 'z compressor \<times> ('z, 'y) pools) option"
where
  "compressor_compress zlib fl input flush c pools =
    (case obtain_deflater zlib fl c pools of
       (d, pools) \<Rightarrow>
         (case deflate_run fl input flush d of
            None \<Rightarrow> None
          | Some (r, d) \<Rightarrow>
              Some (r,
                if flush \<and> no_context_takeover (cp_config c) then
                  let d = deflater_reset fl d
                  in (case (if is_ok r then cp_pool c else None) of
                        None \<Rightarrow> (c\<lparr>cp_deflate := Some d\<rparr>, pools)
                      | Some k \<Rightarrow>
                          (c\<lparr>cp_deflate := None\<rparr>,
                           pools(k := put_deflate zlib (half_window_bits (cp_config c)) d (pools k))))
                else (c\<lparr>cp_deflate := Some d\<rparr>, pools))))"

section \<open>Decompressing\<close>

definition build_inflater :: "bool \<Rightarrow> ('z, 'y) flate \<Rightarrow> nat option \<Rightarrow> 'y inflater" where
  "build_inflater zlib fl wbits =
    (case wbits of
       Some bits \<Rightarrow> if zlib then inflater_new_with_window_bits fl bits else inflater_default fl
     | None \<Rightarrow> inflater_default fl)"

definition obtain_inflater ::
  "bool \<Rightarrow> ('z, 'y) flate \<Rightarrow> 'y decompressor \<Rightarrow> ('z, 'y) pools \<Rightarrow> 'y inflater \<times> ('z, 'y) pools"
where
  "obtain_inflater zlib fl d pools =
    (let wbits = half_window_bits (dp_config d); new = build_inflater zlib fl wbits
     in case dp_inflate d of
          Some i \<Rightarrow> (i, pools)
        | None \<Rightarrow>
            (case dp_pool d of
               None \<Rightarrow> (new, pools)
             | Some k \<Rightarrow>
                 (case take_inflate zlib wbits (pools k) of
                    (Some i, p) \<Rightarrow> (i, pools(k := p))
                  | (None, p) \<Rightarrow> (new, pools(k := p)))))"

definition decompressor_decompress ::
  "bool \<Rightarrow> ('z, 'y) flate \<Rightarrow> bytes \<Rightarrow> bool \<Rightarrow> nat \<Rightarrow> 'y decompressor \<Rightarrow> ('z, 'y) pools \<Rightarrow>
   (bytes res \<times> 'y decompressor \<times> ('z, 'y) pools) option"
where
  "decompressor_decompress zlib fl input stream_end max_output d pools =
    (case obtain_inflater zlib fl d pools of
       (i, pools) \<Rightarrow>
         (case inflate_run fl input stream_end max_output i of
            None \<Rightarrow> None
          | Some (r, i) \<Rightarrow>
              let i = (if is_err r then i\<lparr>if_output := \<lparr>buf_data = [], buf_cap = 0\<rparr>\<rparr> else i)
              in Some (r,
                if stream_end \<and> no_context_takeover (dp_config d) then
                  let i = inflater_reset fl i
                  in (case (if is_ok r then dp_pool d else None) of
                        None \<Rightarrow> (d\<lparr>dp_inflate := Some i\<rparr>, pools)
                      | Some k \<Rightarrow>
                          (d\<lparr>dp_inflate := None\<rparr>,
                           pools(k := put_inflate zlib (half_window_bits (dp_config d)) i (pools k))))
                else (d\<lparr>dp_inflate := Some i\<rparr>, pools))))"

section \<open>Bounds\<close>

text \<open>An inflater between two calls holds no output.\<close>

definition idle :: "nat \<Rightarrow> 'y inflater \<Rightarrow> bool" where
  "idle k i \<longleftrightarrow> buf_data (if_output i) = []"

definition decompressor_idle :: "'y decompressor \<Rightarrow> bool" where
  "decompressor_idle d \<longleftrightarrow> (case dp_inflate d of None \<Rightarrow> True | Some i \<Rightarrow> idle 0 i)"

definition pools_idle :: "bool \<Rightarrow> ('z, 'y) pools \<Rightarrow> bool" where
  "pools_idle zlib pools \<longleftrightarrow> (\<forall>k. pool_ok zlib (\<lambda>_ _. True) idle (pools k))"

lemma build_inflater_idle [simp]: "idle k (build_inflater zlib fl wbits)"
  by (simp add: build_inflater_def idle_def inflater_default_def inflater_new_with_window_bits_def buf_new_def
      split: option.split)

lemma obtain_inflater_idle:
  assumes "obtain_inflater zlib fl d pools = (i, pools')" "decompressor_idle d" "pools_idle zlib pools"
  shows "idle 0 i \<and> pools_idle zlib pools'"
proof (cases "dp_inflate d")
  case None
  show ?thesis
  proof (cases "dp_pool d")
    case (Some k)
    obtain x p where x: "take_inflate zlib (half_window_bits (dp_config d)) (pools k) = (x, p)" by fastforce
    have "pool_ok zlib (\<lambda>_ _. True) idle (pools k)" using assms(3) by (simp add: pools_idle_def)
    from take_inflate_ok [OF this x]
    have "pool_ok zlib (\<lambda>_ _. True) idle p" "x = Some j \<Longrightarrow> idle 0 j" for j by (auto simp: idle_def)
    then show ?thesis using assms None Some x
      by (cases x) (auto simp: obtain_inflater_def Let_def pools_idle_def)
  qed (use assms None in \<open>auto simp: obtain_inflater_def Let_def\<close>)
qed (use assms in \<open>auto simp: obtain_inflater_def Let_def decompressor_idle_def\<close>)

context bounded_flate
begin

lemma decompress_returns:
  assumes "decompressor_idle d" "pools_idle zlib pools"
  shows "\<exists>r d' pools'. decompressor_decompress zlib fl input stream_end m d pools = Some (r, d', pools') \<and>
    decompressor_idle d' \<and> pools_idle zlib pools' \<and> (\<forall>out. r = Ok out \<longrightarrow> length out < m)"
proof -
  obtain i pools1 where i: "obtain_inflater zlib fl d pools = (i, pools1)" by fastforce
  note idle = obtain_inflater_idle [OF i assms]
  obtain r i1 where r: "inflate_run fl input stream_end m i = Some (r, i1)"
    "\<forall>out. r = Ok out \<longrightarrow> length out < m \<and> buf_data (if_output i1) = []"
    using inflate_run_returns [of i input stream_end m] idle by (auto simp: idle_def)
  define i2 where "i2 = (if is_err r then i1\<lparr>if_output := \<lparr>buf_data = [], buf_cap = 0\<rparr>\<rparr> else i1)"
  have i2: "idle k i2" "idle k (inflater_reset fl i2)" for k
    using r(2) by (cases r; simp add: i2_def idle_def inflater_reset_def)+
  have put: "pools_idle zlib (pools1(k := put_inflate zlib wbits (inflater_reset fl i2) (pools1 k)))" for k wbits
    using idle i2 by (auto simp: pools_idle_def intro: put_inflate_ok)
  show ?thesis using r idle i2 put
    by (auto simp: decompressor_decompress_def i Let_def i2_def [symmetric] decompressor_idle_def split: option.split)
qed

end

end
