(* ===== verification/Flate_Contract.thy ===== *)
theory Flate_Contract
  imports Compressor
begin

text \<open>
  What the crate relies on of flate2, as the locale \<open>flate_contract\<close>, and the round trip
  of messages through \<open>Deflate\<close> and \<open>Inflate\<close> that follows from it.

  \<open>D\<close> is what a deflate stream decodes to as far as it goes, \<open>V\<close> says that a byte string
  is the beginning of a deflate stream without a final block.  \<open>c_in\<close> and \<open>c_out\<close> are
  everything a compressor has read and written since it was created or reset,
  \<open>y_in\<close> and \<open>y_out\<close> the same for a decompressor; \<open>c_flushed\<close> says that the output ends
  with a complete sync flush, \<open>c_idle\<close> that no sync flush is unfinished, \<open>c_tail\<close> is what
  an unfinished sync flush has written so far of its marker, and \<open>c_todo\<close> bounds what is
  still to be written.

  The laws are those of the zlib manual: a call reads and writes at most what it is
  given; with room for output compressing makes progress; a sync flush that leaves
  room is complete, the output then decodes to the input and ends with the empty
  stored block; inflating stops only when the input is used up or the output is full.
  Two laws go beyond the manual, and the loop of \<open>Deflate::flush\<close> needs them: an output
  that ends with the marker in the middle of a flush ends the flush
  (\<open>sync_marker_flushed\<close>), and a sync flush that writes nothing reports \<open>BufError\<close>
  (\<open>sync_step\<close>).
\<close>

definition empty_block :: bytes where "empty_block = 0x00 # sync_marker"

locale flate_contract = bounded_flate fl for fl :: "('z, 'y) flate" +
  fixes D :: "bytes \<Rightarrow> bytes" and V :: "bytes \<Rightarrow> bool"
    and c_in c_out c_tail :: "'z \<Rightarrow> bytes" and c_idle c_flushed :: "'z \<Rightarrow> bool" and c_todo :: "'z \<Rightarrow> nat"
    and y_in y_out :: "'y \<Rightarrow> bytes"
  assumes grow_room: "len + 1024 \<le> grow fl len cap"
    and valid_prefix: "V (xs @ ys) \<Longrightarrow> V xs"
    and decode_prefix: "V (xs @ ys) \<Longrightarrow> \<exists>t. D (xs @ ys) = D xs @ t"
    and decode_Nil: "D [] = []"
    and compressor_fresh: "c_in (z_new fl l b) = []" "c_out (z_new fl l b) = []" "c_idle (z_new fl l b)"
      "c_in (z_reset fl z) = []" "c_out (z_reset fl z) = []" "c_idle (z_reset fl z)"
    and compress_log: "z_compress fl input room flush z = (st, n, w, z') \<Longrightarrow>
      n \<le> length input \<and> length w \<le> room \<and> c_in z' = c_in z @ take n input \<and> c_out z' = c_out z @ w"
    and compress_valid: "V (c_out z)"
    and partial_step: "c_idle z \<Longrightarrow> input \<noteq> [] \<Longrightarrow> 0 < room \<Longrightarrow>
      z_compress fl input room Partial_Flush z = (st, n, w, z') \<Longrightarrow>
      st = Inr Z_Ok \<and> c_idle z' \<and> (n = 0 \<longrightarrow> c_todo z' < c_todo z)"
    and sync_step: "0 < room \<Longrightarrow> z_compress fl [] room Sync_Flush z = (st, n, w, z') \<Longrightarrow>
      (\<exists>s. st = Inr s \<and> (w = [] \<longrightarrow> s = Z_BufError)) \<and>
      (\<not> c_flushed z' \<longrightarrow> length w = room \<and> c_todo z' < c_todo z \<and> ends_with (c_tail z @ w) (c_tail z')) \<and>
      (c_flushed z' \<and> w \<noteq> [] \<longrightarrow> ends_with (c_tail z @ w) sync_marker)"
    and sync_marker_flushed: "0 < room \<Longrightarrow> z_compress fl [] room Sync_Flush z = (st, n, w, z') \<Longrightarrow>
      ends_with (c_out z') sync_marker \<Longrightarrow> c_flushed z'"
    and flushed_decodes: "c_flushed z \<Longrightarrow> D (c_out z) = c_in z \<and> c_idle z"
    and idle_tail: "c_idle z \<Longrightarrow> c_tail z = []"
    and flushed_empty: "c_flushed z \<Longrightarrow>
      V (c_out z @ empty_block @ t) = V (c_out z @ t) \<and> D (c_out z @ empty_block @ t) = D (c_out z @ t)"
    and decompressor_fresh: "y_in (y_new fl b) = []" "y_out (y_new fl b) = []"
      "y_in (y_reset fl y) = []" "y_out (y_reset fl y) = []"
    and decompress_log: "y_decompress fl input room flush y = (st, n, w, y') \<Longrightarrow>
      n \<le> length input \<and> y_in y' = y_in y @ take n input \<and> y_out y' = y_out y @ w"
    and decompress_sound: "V (y_in y) \<Longrightarrow> \<exists>t. D (y_in y) = y_out y @ t"
    and decompress_step: "V (y_in y @ input) \<Longrightarrow> 0 < room \<Longrightarrow>
      y_decompress fl input room flush y = (st, n, w, y') \<Longrightarrow>
      (st = Inr Z_Ok \<or> st = Inr Z_BufError) \<and>
      (length w < room \<longrightarrow> n = length input \<and> y_out y' = D (y_in y'))"
begin

section \<open>Compressing a frame\<close>

lemma chunk_room: "chunk fl b = (room, b') \<Longrightarrow> 1024 \<le> room \<and> buf_data b' = buf_data b"
  using grow_room [of "length (buf_data b)" "buf_cap b"]
  by (auto simp: chunk_def Let_def split: if_splits)

lemma take_output_data: "\<exists>b'. take_output b = (buf_data b, b') \<and> buf_data b' = []"
  by (simp add: take_output_def)

lemma deflate_write_all_spec:
  "c_idle (df_compress d) \<Longrightarrow> \<exists>d'. deflate_write_all fl p d = Some (Ok (), d') \<and>
    c_in (df_compress d') = c_in (df_compress d) @ p \<and>
    (\<exists>w. c_out (df_compress d') = c_out (df_compress d) @ w \<and>
      buf_data (df_output d') = buf_data (df_output d) @ w) \<and>
    c_idle (df_compress d') \<and> df_level d' = df_level d"
proof (induction "(length p, c_todo (df_compress d))" arbitrary: p d
    rule: wf_induct_rule [OF wf_lex_prod [OF wf_less_than wf_less_than]])
  case 1
  show ?case
  proof (cases "p = []")
    case True
    then show ?thesis using "1.prems" by (simp add: deflate_write_all.simps)
  next
    case False
    obtain room b where c: "chunk fl (df_output d) = (room, b)" by fastforce
    obtain st n w z where z: "z_compress fl p room Partial_Flush (df_compress d) = (st, n, w, z)"
      by (metis prod_cases4)
    note log = compress_log [OF z] and room = chunk_room [OF c]
    have step: "st = Inr Z_Ok" "c_idle z" "n = 0 \<Longrightarrow> c_todo z < c_todo (df_compress d)"
      using partial_step [OF "1.prems" False _ z] room by auto
    let ?d = "d\<lparr>df_output := advance w b, df_compress := z\<rparr>"
    have "\<exists>d'. deflate_write_all fl (drop n p) ?d = Some (Ok (), d') \<and>
      c_in (df_compress d') = c_in (df_compress ?d) @ drop n p \<and>
      (\<exists>w. c_out (df_compress d') = c_out (df_compress ?d) @ w \<and>
        buf_data (df_output d') = buf_data (df_output ?d) @ w) \<and>
      c_idle (df_compress d') \<and> df_level d' = df_level ?d"
      using step log False by (intro "1.hyps") (auto simp: in_lex_prod)
    moreover have "deflate_write_all fl p d = deflate_write_all fl (drop n p) ?d"
      using False c z step by (subst deflate_write_all.simps) (simp add: deflate_write_def)
    ultimately show ?thesis using step log room by (auto simp: advance_def)
  qed
qed

text \<open>The loop of the flush: \<open>sofar\<close> is what the buffer held when it began.\<close>

lemma deflate_flush_spec:
  assumes "ends_with (buf_data (df_output d)) (c_tail (df_compress d))"
    "c_out (df_compress d) = start @ buf_data (df_output d)"
  shows "\<exists>q d'. deflate_flush fl d = Some (Ok q, d') \<and>
    c_in (df_compress d') = c_in (df_compress d) \<and> c_flushed (df_compress d') \<and>
    (\<forall>t. V (start @ q @ sync_marker @ t) = V (c_out (df_compress d') @ t) \<and>
      D (start @ q @ sync_marker @ t) = D (c_out (df_compress d') @ t)) \<and>
    buf_data (df_output d') = [] \<and> df_level d' = df_level d"
  using assms
proof (induction "c_todo (df_compress d)" arbitrary: d rule: less_induct)
  case less
  obtain room b where c: "chunk fl (df_output d) = (room, b)" by fastforce
  obtain st n w z where z: "z_compress fl [] room Sync_Flush (df_compress d) = (st, n, w, z)"
    by (metis prod_cases4)
  note log = compress_log [OF z] and room = chunk_room [OF c]
  have pos: "0 < room" using room by simp
  obtain s where s: "st = Inr s" "w = [] \<longrightarrow> s = Z_BufError" using sync_step [OF pos z] by blast
  have step: "\<not> c_flushed z \<Longrightarrow> length w = room \<and> c_todo z < c_todo (df_compress d)"
    "\<not> c_flushed z \<Longrightarrow> \<exists>u. c_tail (df_compress d) @ w = u @ c_tail z"
    "c_flushed z \<Longrightarrow> w \<noteq> [] \<Longrightarrow> \<exists>u. c_tail (df_compress d) @ w = u @ sync_marker"
    using sync_step [OF pos z] by (auto simp: ends_with_iff)
  obtain u0 where u0: "buf_data (df_output d) = u0 @ c_tail (df_compress d)"
    using less.prems(1) by (auto simp: ends_with_iff)
  let ?data = "buf_data (df_output d) @ w"
  have out: "c_out z = start @ ?data" using log less.prems(2) by simp
  show ?case
  proof (cases "w = []")
    case True
    then have fl: "c_flushed z" using step(1) pos by auto
    obtain b' where b': "take_output (advance [0] b) = (?data @ [0], b')" "buf_data b' = []"
      using take_output_data [of "advance [0] b"] True room by (auto simp: advance_def)
    have eq: "start @ (?data @ [0]) @ sync_marker @ t = c_out z @ empty_block @ t" for t
      by (simp add: out empty_block_def)
    have "V (start @ (?data @ [0]) @ sync_marker @ t) = V (c_out z @ t) \<and>
        D (start @ (?data @ [0]) @ sync_marker @ t) = D (c_out z @ t)" for t
      unfolding eq by (rule flushed_empty [OF fl])
    moreover have "deflate_flush fl d = Some (Ok (?data @ [0]), d\<lparr>df_compress := z, df_output := b'\<rparr>)"
      using c z s True b' by (subst deflate_flush.simps) (simp add: advance_def)
    ultimately show ?thesis using fl log b'(2) by fastforce
  next
    case False
    show ?thesis
    proof (cases "ends_with ?data sync_marker")
      case True
      then have "ends_with (c_out z) sync_marker"
        by (auto simp: out ends_with_iff)
      then have fl: "c_flushed z" by (rule sync_marker_flushed [OF pos z])
      obtain u where u: "?data = u @ sync_marker" using True by (auto simp: ends_with_iff)
      have data: "?data = take (length ?data - 4) ?data @ sync_marker"
        unfolding u by (simp add: sync_marker_def)
      obtain b' where b': "take_output (b\<lparr>buf_data := take (length ?data - 4) ?data\<rparr>)
          = (take (length ?data - 4) ?data, b')" "buf_data b' = []"
        using take_output_data [of "b\<lparr>buf_data := take (length ?data - 4) ?data\<rparr>"] by auto
      have eq: "start @ take (length ?data - 4) ?data @ sync_marker @ t = c_out z @ t" for t
        using data out by (metis append.assoc)
      have "V (start @ take (length ?data - 4) ?data @ sync_marker @ t) = V (c_out z @ t) \<and>
          D (start @ take (length ?data - 4) ?data @ sync_marker @ t) = D (c_out z @ t)" for t
        unfolding eq by simp
      moreover have "deflate_flush fl d
          = Some (Ok (take (length ?data - 4) ?data), d\<lparr>df_compress := z, df_output := b'\<rparr>)"
        using c z s True False room b' by (subst deflate_flush.simps) (simp add: advance_def Let_def del: take_append)
      ultimately show ?thesis using fl log b'(2)
        by (intro exI [of _ "take (length ?data - 4) ?data"] exI [of _ "d\<lparr>df_compress := z, df_output := b'\<rparr>"]) auto
    next
      case more: False
      have unfinished: "\<not> c_flushed z"
      proof
        assume "c_flushed z"
        then obtain u where "c_tail (df_compress d) @ w = u @ sync_marker" using step(3) False by blast
        then have "?data = (u0 @ u) @ sync_marker" using u0 by simp
        then show False using more by (auto simp only: ends_with_iff)
      qed
      then obtain u where u: "c_tail (df_compress d) @ w = u @ c_tail z" using step(2) by blast
      let ?d = "d\<lparr>df_compress := z, df_output := advance w b\<rparr>"
      have "\<exists>q d'. deflate_flush fl ?d = Some (Ok q, d') \<and>
        c_in (df_compress d') = c_in (df_compress ?d) \<and> c_flushed (df_compress d') \<and>
        (\<forall>t. V (start @ q @ sync_marker @ t) = V (c_out (df_compress d') @ t) \<and>
          D (start @ q @ sync_marker @ t) = D (c_out (df_compress d') @ t)) \<and>
        buf_data (df_output d') = [] \<and> df_level d' = df_level ?d"
      proof (rule less.hyps)
        have "?data = (u0 @ u) @ c_tail z" using u u0 by simp
        then show "ends_with (buf_data (df_output ?d)) (c_tail (df_compress ?d))"
          using room by (auto simp: advance_def ends_with_iff)
      qed (use step(1) unfinished room out in \<open>simp_all add: advance_def\<close>)
      moreover have "deflate_flush fl d = deflate_flush fl ?d"
        using c z s False more room by (subst deflate_flush.simps) (simp add: advance_def Let_def)
      ultimately show ?thesis using log by simp
    qed
  qed
qed

text \<open>A frame that does not end a message, and one that does.\<close>

lemma deflate_run_part:
  assumes "buf_data (df_output d) = []" "c_idle (df_compress d)"
  shows "\<exists>q d'. deflate_run fl p False d = Some (Ok q, d') \<and>
    c_in (df_compress d') = c_in (df_compress d) @ p \<and> c_out (df_compress d') = c_out (df_compress d) @ q \<and>
    c_idle (df_compress d') \<and> buf_data (df_output d') = [] \<and> df_level d' = df_level d"
proof -
  obtain d1 w where d1: "deflate_write_all fl p d = Some (Ok (), d1)" "c_in (df_compress d1) = c_in (df_compress d) @ p"
    "c_out (df_compress d1) = c_out (df_compress d) @ w" "buf_data (df_output d1) = w" "c_idle (df_compress d1)"
    "df_level d1 = df_level d"
    using deflate_write_all_spec [OF assms(2), of p] assms(1) by auto
  obtain b where "take_output (df_output d1) = (w, b)" "buf_data b = []"
    using take_output_data [of "df_output d1"] d1(4) by auto
  then show ?thesis using d1 by (simp add: deflate_run_def)
qed

lemma deflate_run_last:
  assumes "buf_data (df_output d) = []" "c_idle (df_compress d)"
  shows "\<exists>q d'. deflate_run fl p True d = Some (Ok q, d') \<and>
    c_in (df_compress d') = c_in (df_compress d) @ p \<and> c_flushed (df_compress d') \<and>
    (\<forall>t. V (c_out (df_compress d) @ q @ sync_marker @ t) = V (c_out (df_compress d') @ t) \<and>
      D (c_out (df_compress d) @ q @ sync_marker @ t) = D (c_out (df_compress d') @ t)) \<and>
    buf_data (df_output d') = [] \<and> df_level d' = df_level d"
proof -
  obtain d1 w where d1: "deflate_write_all fl p d = Some (Ok (), d1)" "c_in (df_compress d1) = c_in (df_compress d) @ p"
    "c_out (df_compress d1) = c_out (df_compress d) @ w" "buf_data (df_output d1) = w" "c_idle (df_compress d1)"
    "df_level d1 = df_level d"
    using deflate_write_all_spec [OF assms(2), of p] assms(1) by auto
  have "ends_with (buf_data (df_output d1)) (c_tail (df_compress d1))"
    "c_out (df_compress d1) = c_out (df_compress d) @ buf_data (df_output d1)"
    using d1 idle_tail [OF d1(5)] by (simp_all add: ends_with_def)
  from deflate_flush_spec [OF this] show ?thesis using d1 by (auto simp: deflate_run_def)
qed

section \<open>Decompressing a frame\<close>

lemma decode_length: "V (xs @ ys) \<Longrightarrow> length (D xs) \<le> length (D (xs @ ys))"
  using decode_prefix [of xs ys] by auto

lemma inflate_chunk_room:
  assumes "length (buf_data b) < m"
  shows "\<exists>room b'. inflate_chunk fl m b = (Ok room, b') \<and> 0 < room \<and> buf_data b' = buf_data b"
proof -
  obtain room b' where c: "chunk fl b = (room, b')" by fastforce
  then show ?thesis using assms chunk_room [OF c] by (simp add: inflate_chunk_def)
qed

text \<open>
  \<open>new\<close> is what a step adds to the output; what is still to come of the input's output
  has to stay below the limit.
\<close>

lemma inflate_write_spec:
  assumes "V (y_in (if_decompress i) @ p)"
    "length (buf_data (if_output i)) + length (D (y_in (if_decompress i) @ p)) < m + length (y_out (if_decompress i))"
  shows "\<exists>i' new. inflate_write fl m p i = Some (Ok (), i') \<and> y_in (if_decompress i') = y_in (if_decompress i) @ p \<and>
    y_out (if_decompress i') = y_out (if_decompress i) @ new \<and>
    buf_data (if_output i') = buf_data (if_output i) @ new \<and> stream_ended i' = stream_ended i"
  using assms
proof (induction "length p + (m - length (buf_data (if_output i)))" arbitrary: p i rule: less_induct)
  case less
  let ?y = "if_decompress i"
  show ?case
  proof (cases "p = []")
    case True
    then show ?thesis by (simp add: inflate_write.simps)
  next
    case False
    have "length (y_out ?y) \<le> length (D (y_in ?y @ p))"
      using decompress_sound [OF valid_prefix [OF less.prems(1)]] decode_length [OF less.prems(1)] by auto
    then have "length (buf_data (if_output i)) < m" using less.prems(2) by linarith
    then obtain room b where c: "inflate_chunk fl m (if_output i) = (Ok room, b)" "0 < room"
      "buf_data b = buf_data (if_output i)"
      using inflate_chunk_room by blast
    obtain st n w y where d: "y_decompress fl p room No_Flush ?y = (st, n, w, y)" by (metis prod_cases4)
    note log = decompress_log [OF d] and step = decompress_step [OF less.prems(1) c(2) d]
    let ?i = "i\<lparr>if_output := advance w b, if_decompress := y\<rparr>"
    have split: "y_in y @ drop n p = y_in ?y @ p" using log by simp
    then have vy: "V (y_in y)" using less.prems(1) valid_prefix [of "y_in y" "drop n p"] by simp
    have "length (y_out y) \<le> length (D (y_in ?y @ p))"
      using decompress_sound [OF vy] decode_length [of "y_in y" "drop n p"] less.prems(1) split by auto
    then have small: "length (buf_data (if_output i) @ w) < m" using log less.prems(2) by simp
    have st: "st = Inr Z_Ok \<or> st = Inr Z_BufError" and progress: "\<not> (n = 0 \<and> w = [])"
      using step c(2) False by auto
    have "\<exists>i' new. inflate_write fl m (drop n p) ?i = Some (Ok (), i') \<and>
        y_in (if_decompress i') = y_in (if_decompress ?i) @ drop n p \<and>
        y_out (if_decompress i') = y_out (if_decompress ?i) @ new \<and>
        buf_data (if_output i') = buf_data (if_output ?i) @ new \<and> stream_ended i' = stream_ended ?i"
    proof (rule less.hyps)
      show "length (drop n p) + (m - length (buf_data (if_output ?i))) < length p + (m - length (buf_data (if_output i)))"
        using progress small c(3) log False
        by (cases w) (auto simp: advance_def length_greater_0_conv [symmetric] simp del: length_greater_0_conv)
      show "length (buf_data (if_output ?i)) + length (D (y_in (if_decompress ?i) @ drop n p))
          < m + length (y_out (if_decompress ?i))"
        using less.prems(2) log c(3) split by (simp add: advance_def)
    qed (use less.prems(1) split in simp)
    moreover have "inflate_write fl m p i = inflate_write fl m (drop n p) ?i"
      using st
    proof
      assume "st = Inr Z_Ok"
      then show ?thesis using False c d small progress by (subst inflate_write.simps) (auto simp: advance_def Let_def)
    next
      assume "st = Inr Z_BufError"
      then show ?thesis using False c d small progress by (subst inflate_write.simps) (auto simp: advance_def Let_def)
    qed
    ultimately show ?thesis using log c(3) by (auto simp: advance_def)
  qed
qed

lemma inflate_flush_spec:
  assumes "V (y_in (if_decompress i))"
    "length (buf_data (if_output i)) + length (D (y_in (if_decompress i))) < m + length (y_out (if_decompress i))"
  shows "\<exists>i' new. inflate_flush fl m flush i = Some (Ok (buf_data (if_output i) @ new), i') \<and>
    y_in (if_decompress i') = y_in (if_decompress i) \<and>
    y_out (if_decompress i') = y_out (if_decompress i) @ new \<and>
    y_out (if_decompress i') = D (y_in (if_decompress i)) \<and>
    buf_data (if_output i') = [] \<and> stream_ended i' = stream_ended i"
  using assms
proof (induction "2 * (m - length (buf_data (if_output i))) + (if flush = No_Flush then 0 else 1)"
    arbitrary: flush i rule: less_induct)
  case less
  let ?y = "if_decompress i"
  have "length (y_out ?y) \<le> length (D (y_in ?y))" using decompress_sound [OF less.prems(1)] by auto
  then have "length (buf_data (if_output i)) < m" using less.prems(2) by linarith
  then obtain room b where c: "inflate_chunk fl m (if_output i) = (Ok room, b)" "0 < room"
    "buf_data b = buf_data (if_output i)"
    using inflate_chunk_room by blast
  obtain st n w y where d: "y_decompress fl [] room flush ?y = (st, n, w, y)" by (metis prod_cases4)
  have v: "V (y_in ?y @ [])" using less.prems(1) by simp
  note log = decompress_log [OF d] and step = decompress_step [OF v c(2) d]
  obtain s where s: "st = Inr s" using step by auto
  have yin: "y_in y = y_in ?y" using log by simp
  show ?case
  proof (cases "w = [] \<and> flush = No_Flush")
    case True
    obtain b' where "take_output b = (buf_data (if_output i), b')" "buf_data b' = []"
      using take_output_data [of b] c(3) by auto
    then have "inflate_flush fl m flush i
        = Some (Ok (buf_data (if_output i)), i\<lparr>if_decompress := y, if_output := b'\<rparr>)"
      using c d s True by (subst inflate_flush.simps) simp
    moreover have "y_out y = D (y_in ?y)" "y_out y = y_out ?y" using step c(2) True log yin by auto
    ultimately show ?thesis using yin \<open>buf_data b' = []\<close> by simp
  next
    case False
    let ?i = "i\<lparr>if_decompress := y, if_output := advance w b\<rparr>"
    have "length (y_out y) \<le> length (D (y_in ?y))"
      using decompress_sound [of y] less.prems(1) yin by auto
    then have small: "length (buf_data (if_output i) @ w) < m" using log less.prems(2) by simp
    have "\<exists>i' new. inflate_flush fl m No_Flush ?i = Some (Ok (buf_data (if_output ?i) @ new), i') \<and>
        y_in (if_decompress i') = y_in (if_decompress ?i) \<and>
        y_out (if_decompress i') = y_out (if_decompress ?i) @ new \<and>
        y_out (if_decompress i') = D (y_in (if_decompress ?i)) \<and>
        buf_data (if_output i') = [] \<and> stream_ended i' = stream_ended ?i"
    proof (rule less.hyps)
      show "2 * (m - length (buf_data (if_output ?i))) + (if No_Flush = No_Flush then 0 else 1)
          < 2 * (m - length (buf_data (if_output i))) + (if flush = No_Flush then 0 else 1)"
        using False small c(3) by (cases w) (auto simp: advance_def)
      show "length (buf_data (if_output ?i)) + length (D (y_in (if_decompress ?i))) < m + length (y_out (if_decompress ?i))"
        using less.prems(2) log c(3) yin by (simp add: advance_def)
    qed (use less.prems(1) yin in simp)
    moreover have "inflate_flush fl m flush i = inflate_flush fl m No_Flush ?i"
      using c d s False by (subst inflate_flush.simps) (auto simp: Let_def)
    ultimately show ?thesis using log c(3) yin by (auto simp: advance_def)
  qed
qed

lemma inflate_run_part:
  assumes "buf_data (if_output i) = []" "V (y_in (if_decompress i) @ q)"
    "length (D (y_in (if_decompress i) @ q)) < m + length (y_out (if_decompress i))"
  shows "\<exists>r i'. inflate_run fl q False m i = Some (Ok r, i') \<and> y_in (if_decompress i') = y_in (if_decompress i) @ q \<and>
    y_out (if_decompress i') = y_out (if_decompress i) @ r \<and> buf_data (if_output i') = [] \<and>
    stream_ended i' = stream_ended i"
proof -
  have "length (y_out (if_decompress i)) \<le> length (D (y_in (if_decompress i) @ q))"
    using decompress_sound [OF valid_prefix [OF assms(2)]] decode_length [OF assms(2)] by auto
  then have m: "m \<noteq> 0" using assms(3) by linarith
  obtain i1 new where i1: "inflate_write fl m q i = Some (Ok (), i1)" "y_in (if_decompress i1) = y_in (if_decompress i) @ q"
    "y_out (if_decompress i1) = y_out (if_decompress i) @ new" "buf_data (if_output i1) = new"
    "stream_ended i1 = stream_ended i"
    using inflate_write_spec [of i q m] assms by auto
  obtain b where "take_output (if_output i1) = (new, b)" "buf_data b = []"
    using take_output_data [of "if_output i1"] i1(4) by auto
  then show ?thesis using i1 m by (simp add: inflate_run_def)
qed

lemma inflate_run_last:
  assumes "buf_data (if_output i) = []" "\<not> stream_ended i" "V (y_in (if_decompress i) @ q @ sync_marker)"
    "length (D (y_in (if_decompress i) @ q @ sync_marker)) < m + length (y_out (if_decompress i))"
  shows "\<exists>r i'. inflate_run fl q True m i = Some (Ok r, i') \<and>
    y_in (if_decompress i') = y_in (if_decompress i) @ q @ sync_marker \<and>
    y_out (if_decompress i') = y_out (if_decompress i) @ r \<and>
    y_out (if_decompress i') = D (y_in (if_decompress i) @ q @ sync_marker) \<and>
    buf_data (if_output i') = [] \<and> \<not> stream_ended i'"
proof -
  let ?y = "y_in (if_decompress i)" and ?all = "y_in (if_decompress i) @ q @ sync_marker"
  have all: "(?y @ q) @ sync_marker = ?all" by simp
  have v: "V (?y @ q)" using assms(3) valid_prefix [of "?y @ q" sync_marker] by simp
  have le: "length (D (?y @ q)) \<le> length (D ?all)" using decode_length [of "?y @ q" sync_marker] assms(3) by simp
  have "length (y_out (if_decompress i)) \<le> length (D (?y @ q))"
    using decompress_sound [OF valid_prefix [OF v]] decode_length [OF v] by auto
  then have m: "m \<noteq> 0" using assms(4) le by linarith
  have b1: "length (buf_data (if_output i)) + length (D (?y @ q)) < m + length (y_out (if_decompress i))"
    using assms(1,4) le by simp
  obtain i1 w1 where i1: "inflate_write fl m q i = Some (Ok (), i1)" "y_in (if_decompress i1) = ?y @ q"
    "y_out (if_decompress i1) = y_out (if_decompress i) @ w1" "buf_data (if_output i1) = w1" "\<not> stream_ended i1"
    using inflate_write_spec [OF v b1] assms(1,2) by auto
  have v2: "V (y_in (if_decompress i1) @ sync_marker)"
    and b2: "length (buf_data (if_output i1)) + length (D (y_in (if_decompress i1) @ sync_marker))
      < m + length (y_out (if_decompress i1))"
    using assms(3,4) i1 by simp_all
  obtain i2 w2 where i2: "inflate_write fl m sync_marker i1 = Some (Ok (), i2)" "y_in (if_decompress i2) = ?all"
    "y_out (if_decompress i2) = y_out (if_decompress i) @ w1 @ w2" "buf_data (if_output i2) = w1 @ w2"
    "\<not> stream_ended i2"
    using inflate_write_spec [OF v2 b2] i1 by auto
  have v3: "V (y_in (if_decompress i2))"
    and b3: "length (buf_data (if_output i2)) + length (D (y_in (if_decompress i2))) < m + length (y_out (if_decompress i2))"
    using assms(3,4) i2 by simp_all
  obtain i3 w3 where "inflate_flush fl m Sync_Flush i2 = Some (Ok (buf_data (if_output i2) @ w3), i3)"
    "y_in (if_decompress i3) = ?all" "y_out (if_decompress i3) = y_out (if_decompress i2) @ w3"
    "y_out (if_decompress i3) = D ?all" "buf_data (if_output i3) = []" "\<not> stream_ended i3"
    using inflate_flush_spec [OF v3 b3, of Sync_Flush] i2 by auto
  then show ?thesis using i1 i2 m by (auto simp: inflate_run_def inflate_end_def)
qed

section \<open>Compressor and decompressor\<close>

definition fresh_deflater :: "nat \<Rightarrow> 'z deflater \<Rightarrow> bool" where
  "fresh_deflater k d \<longleftrightarrow> buf_data (df_output d) = [] \<and> c_in (df_compress d) = [] \<and>
     c_out (df_compress d) = [] \<and> c_idle (df_compress d)"

definition fresh_inflater :: "nat \<Rightarrow> 'y inflater \<Rightarrow> bool" where
  "fresh_inflater k i \<longleftrightarrow> buf_data (if_output i) = [] \<and> \<not> stream_ended i \<and>
     y_in (if_decompress i) = [] \<and> y_out (if_decompress i) = []"

definition pools_fresh :: "bool \<Rightarrow> ('z, 'y) pools \<Rightarrow> bool" where
  "pools_fresh zlib pools \<longleftrightarrow> (\<forall>k. pool_ok zlib fresh_deflater fresh_inflater (pools k))"

text \<open>A compressor that has read \<open>inp\<close> and returned \<open>outp\<close> since it was last reset.\<close>

definition c_at :: "'z compressor \<Rightarrow> bytes \<Rightarrow> bytes \<Rightarrow> bool" where
  "c_at c outp inp \<longleftrightarrow>
    (case cp_deflate c of
       None \<Rightarrow> outp = [] \<and> inp = []
     | Some d \<Rightarrow> buf_data (df_output d) = [] \<and> c_idle (df_compress d) \<and>
         c_out (df_compress d) = outp \<and> c_in (df_compress d) = inp)"

definition d_at :: "'y decompressor \<Rightarrow> bytes \<Rightarrow> bytes \<Rightarrow> bool" where
  "d_at d inp outp \<longleftrightarrow>
    (case dp_inflate d of
       None \<Rightarrow> inp = [] \<and> outp = []
     | Some i \<Rightarrow> buf_data (if_output i) = [] \<and> \<not> stream_ended i \<and>
         y_in (if_decompress i) = inp \<and> y_out (if_decompress i) = outp)"

lemma obtain_deflater_at:
  assumes "c_at c outp inp" "pools_fresh zlib pools" "obtain_deflater zlib fl c pools = (d, pools')"
  shows "buf_data (df_output d) = [] \<and> c_idle (df_compress d) \<and> c_out (df_compress d) = outp \<and>
    c_in (df_compress d) = inp \<and> pools_fresh zlib pools'"
proof (cases "cp_deflate c")
  case (Some x)
  then show ?thesis using assms by (simp add: obtain_deflater_def Let_def c_at_def)
next
  case None
  have new: "fresh_deflater 0 (build_deflater zlib fl l b)" for l b
    by (simp add: fresh_deflater_def build_deflater_def deflater_new_def deflater_new_with_window_bits_def
        buf_new_def compressor_fresh split: option.split)
  show ?thesis
  proof (cases "cp_pool c")
    case None': None
    then show ?thesis using assms None new [of "cp_level c" "half_window_bits (cp_config c)"]
      by (simp add: obtain_deflater_def Let_def c_at_def fresh_deflater_def)
  next
    case (Some k)
    obtain x p where x: "take_deflate zlib (cp_level c) (half_window_bits (cp_config c)) (pools k) = (x, p)"
      by fastforce
    have "pool_ok zlib fresh_deflater fresh_inflater (pools k)" using assms(2) by (simp add: pools_fresh_def)
    from take_deflate_ok [OF this x] show ?thesis
      using assms None Some x new [of "cp_level c" "half_window_bits (cp_config c)"]
      by (cases x) (auto simp: obtain_deflater_def Let_def c_at_def fresh_deflater_def pools_fresh_def)
  qed
qed

lemma obtain_inflater_at:
  assumes "d_at d inp outp" "pools_fresh zlib pools" "obtain_inflater zlib fl d pools = (i, pools')"
  shows "buf_data (if_output i) = [] \<and> \<not> stream_ended i \<and> y_in (if_decompress i) = inp \<and>
    y_out (if_decompress i) = outp \<and> pools_fresh zlib pools'"
proof (cases "dp_inflate d")
  case (Some x)
  then show ?thesis using assms by (simp add: obtain_inflater_def Let_def d_at_def)
next
  case None
  have new: "fresh_inflater 0 (build_inflater zlib fl b)" for b
    by (simp add: fresh_inflater_def build_inflater_def inflater_default_def inflater_new_with_window_bits_def
        buf_new_def decompressor_fresh split: option.split)
  show ?thesis
  proof (cases "dp_pool d")
    case None': None
    then show ?thesis using assms None new [of "half_window_bits (dp_config d)"]
      by (simp add: obtain_inflater_def Let_def d_at_def fresh_inflater_def)
  next
    case (Some k)
    obtain x p where x: "take_inflate zlib (half_window_bits (dp_config d)) (pools k) = (x, p)" by fastforce
    have "pool_ok zlib fresh_deflater fresh_inflater (pools k)" using assms(2) by (simp add: pools_fresh_def)
    from take_inflate_ok [OF this x] show ?thesis
      using assms None Some x new [of "half_window_bits (dp_config d)"]
      by (cases x) (auto simp: obtain_inflater_def Let_def d_at_def fresh_inflater_def pools_fresh_def)
  qed
qed

end

end
