(* ===== verification/Compression_Roundtrip.thy ===== *)
theory Compression_Roundtrip
  imports Flate_Contract
begin

text \<open>
  Messages through a compressor and the decompressor of the peer.  The interface
  \<open>message_codec\<close> is what the connection above relies on: the frames of a message,
  compressed one by one and decompressed one by one, give the message back.  Its laws
  are proved here for \<open>Compressor\<close> and \<open>Decompressor\<close> over any library that keeps
  \<open>flate_contract\<close>.
\<close>

section \<open>The interface\<close>

text \<open>The frames of a message: only the last one ends it.\<close>

fun compress_all :: "(bytes \<Rightarrow> bool \<Rightarrow> 'c \<Rightarrow> bytes res \<times> 'c) \<Rightarrow> bytes list \<Rightarrow> 'c \<Rightarrow> bytes list res \<times> 'c" where
  "compress_all compress [] c = (Ok [], c)"
| "compress_all compress (p # ps) c =
    (case compress p (ps = []) c of
       (Err e, c) \<Rightarrow> (Err e, c)
     | (Ok q, c) \<Rightarrow>
         (case compress_all compress ps c of
            (Err e, c) \<Rightarrow> (Err e, c)
          | (Ok qs, c) \<Rightarrow> (Ok (q # qs), c)))"

text \<open>\<open>lim n\<close> is the limit of the frame that comes after \<open>n\<close> bytes of the message.\<close>

fun decompress_all ::
  "(bytes \<Rightarrow> bool \<Rightarrow> nat \<Rightarrow> 'd \<Rightarrow> bytes res \<times> 'd) \<Rightarrow> (nat \<Rightarrow> nat) \<Rightarrow> nat \<Rightarrow> bytes list \<Rightarrow> 'd \<Rightarrow> bytes list res \<times> 'd"
where
  "decompress_all decompress lim n [] d = (Ok [], d)"
| "decompress_all decompress lim n (q # qs) d =
    (case decompress q (qs = []) (lim n) d of
       (Err e, d) \<Rightarrow> (Err e, d)
     | (Ok r, d) \<Rightarrow>
         (case decompress_all decompress lim (n + length r) qs d of
            (Err e, d) \<Rightarrow> (Err e, d)
          | (Ok rs, d) \<Rightarrow> (Ok (r # rs), d)))"

locale message_codec =
  fixes compress :: "bytes \<Rightarrow> bool \<Rightarrow> 'c \<Rightarrow> bytes res \<times> 'c"
    and decompress :: "bytes \<Rightarrow> bool \<Rightarrow> nat \<Rightarrow> 'd \<Rightarrow> bytes res \<times> 'd"
    and sync :: "'c \<Rightarrow> 'd \<Rightarrow> bool"
  assumes message_roundtrip:
    "sync c d \<Longrightarrow> ps \<noteq> [] \<Longrightarrow> (\<And>n. n \<le> length (concat ps) \<Longrightarrow> length (concat ps) < lim n + n) \<Longrightarrow>
     \<exists>qs c' rs d'. compress_all compress ps c = (Ok qs, c') \<and> length qs = length ps \<and>
       decompress_all decompress lim 0 qs d = (Ok rs, d') \<and> length rs = length ps \<and>
       concat rs = concat ps \<and> sync c' d'"

section \<open>The crate's compressor as a codec\<close>

text \<open>
  The calls of a connection, with the pools as part of its state.  A call that does not
  return has no result; \<open>flate_contract\<close> excludes it below.
\<close>

definition run_compress ::
  "bool \<Rightarrow> ('z, 'y) flate \<Rightarrow> bytes \<Rightarrow> bool \<Rightarrow> 'z compressor \<times> ('z, 'y) pools \<Rightarrow>
   bytes res \<times> 'z compressor \<times> ('z, 'y) pools"
where
  "run_compress zlib fl p flush = (\<lambda>(c, pools).
    case compressor_compress zlib fl p flush c pools of
      Some r \<Rightarrow> r
    | None \<Rightarrow> (Err ConnectionClosed, c, pools))"

definition run_decompress ::
  "bool \<Rightarrow> ('z, 'y) flate \<Rightarrow> bytes \<Rightarrow> bool \<Rightarrow> nat \<Rightarrow> 'y decompressor \<times> ('z, 'y) pools \<Rightarrow>
   bytes res \<times> 'y decompressor \<times> ('z, 'y) pools"
where
  "run_decompress zlib fl q stream_end m = (\<lambda>(d, pools).
    case decompressor_decompress zlib fl q stream_end m d pools of
      Some r \<Rightarrow> r
    | None \<Rightarrow> (Err ConnectionClosed, d, pools))"

lemma run_compress_Some [simp]:
  "compressor_compress zlib fl p flush c pools = Some r \<Longrightarrow> run_compress zlib fl p flush (c, pools) = r"
  by (simp add: run_compress_def)

lemma run_decompress_Some [simp]:
  "decompressor_decompress zlib fl q e m d pools = Some r \<Longrightarrow> run_decompress zlib fl q e m (d, pools) = r"
  by (simp add: run_decompress_def)

context flate_contract
begin

text \<open>Two byte strings a decoder cannot tell apart, whatever follows.\<close>

definition same_stream :: "bytes \<Rightarrow> bytes \<Rightarrow> bool" where
  "same_stream xs ys \<longleftrightarrow> (\<forall>t. V (xs @ t) = V (ys @ t) \<and> D (xs @ t) = D (ys @ t))"

lemma same_streamD: "same_stream xs ys \<Longrightarrow> V (xs @ t) = V (ys @ t)" "same_stream xs ys \<Longrightarrow> D (xs @ t) = D (ys @ t)"
  by (simp_all add: same_stream_def)

lemma same_stream_refl [simp]: "same_stream xs xs"
  by (simp add: same_stream_def)

lemma same_stream_append: "same_stream xs ys \<Longrightarrow> same_stream (xs @ t) (ys @ t)"
  by (simp add: same_stream_def)

lemma same_stream_trans: "same_stream xs ys \<Longrightarrow> same_stream ys zs \<Longrightarrow> same_stream xs zs"
  by (simp add: same_stream_def)

lemma compress_part:
  assumes "c_at c outp inp" "pools_fresh zlib pools"
  shows "\<exists>q c' pools'. compressor_compress zlib fl p False c pools = Some (Ok q, c', pools') \<and>
    c_at c' (outp @ q) (inp @ p) \<and> pools_fresh zlib pools' \<and> cp_config c' = cp_config c"
proof -
  obtain d pools1 where d: "obtain_deflater zlib fl c pools = (d, pools1)" by fastforce
  note at = obtain_deflater_at [OF assms d]
  then obtain q d' where "deflate_run fl p False d = Some (Ok q, d')"
    "c_in (df_compress d') = c_in (df_compress d) @ p" "c_out (df_compress d') = c_out (df_compress d) @ q"
    "c_idle (df_compress d')" "buf_data (df_output d') = []"
    using deflate_run_part [of d p] by auto
  then show ?thesis using d at by (auto simp: compressor_compress_def c_at_def)
qed

lemma compress_last:
  assumes "c_at c outp inp" "pools_fresh zlib pools"
  shows "\<exists>q outp' c' pools'. compressor_compress zlib fl p True c pools = Some (Ok q, c', pools') \<and>
    same_stream (outp @ q @ sync_marker) outp' \<and> D outp' = inp @ p \<and> V outp' \<and>
    (if no_context_takeover (cp_config c) then c_at c' [] [] else c_at c' outp' (inp @ p)) \<and>
    pools_fresh zlib pools' \<and> cp_config c' = cp_config c"
proof -
  obtain d pools1 where d: "obtain_deflater zlib fl c pools = (d, pools1)" by fastforce
  note at = obtain_deflater_at [OF assms d]
  then obtain q d' where run: "deflate_run fl p True d = Some (Ok q, d')"
    "c_in (df_compress d') = c_in (df_compress d) @ p" "c_flushed (df_compress d')"
    "same_stream (c_out (df_compress d) @ q @ sync_marker) (c_out (df_compress d'))" "buf_data (df_output d') = []"
    using deflate_run_last [of d p] by (auto simp: same_stream_def)
  note fl = flushed_decodes [OF run(3)]
  have fresh: "fresh_deflater k (deflater_reset fl d')" for k
    using run(5) by (simp add: fresh_deflater_def deflater_reset_def compressor_fresh)
  have put: "pools_fresh zlib (pools1(k := put_deflate zlib b (deflater_reset fl d') (pools1 k)))" for k b
    using at fresh by (auto simp: pools_fresh_def intro: put_deflate_ok)
  show ?thesis
  proof (intro exI conjI)
    show "compressor_compress zlib fl p True c pools = Some (Ok q,
      fst (snd (the (compressor_compress zlib fl p True c pools))),
      snd (snd (the (compressor_compress zlib fl p True c pools))))"
      using d run(1) by (simp add: compressor_compress_def)
  qed (use at d run fl put fresh [unfolded fresh_deflater_def] compress_valid [of "df_compress d'"] in
      \<open>auto simp: compressor_compress_def c_at_def Let_def split: option.split\<close>)
qed

lemma decompress_part:
  assumes "d_at d inp outp" "pools_fresh zlib pools" "V (inp @ q)" "length (D (inp @ q)) < m + length outp"
  shows "\<exists>r d' pools'. decompressor_decompress zlib fl q False m d pools = Some (Ok r, d', pools') \<and>
    d_at d' (inp @ q) (outp @ r) \<and> (\<exists>t. D (inp @ q) = (outp @ r) @ t) \<and>
    pools_fresh zlib pools' \<and> dp_config d' = dp_config d"
proof -
  obtain i pools1 where i: "obtain_inflater zlib fl d pools = (i, pools1)" by fastforce
  note at = obtain_inflater_at [OF assms(1,2) i]
  then obtain r i' where run: "inflate_run fl q False m i = Some (Ok r, i')"
    "y_in (if_decompress i') = y_in (if_decompress i) @ q" "y_out (if_decompress i') = y_out (if_decompress i) @ r"
    "buf_data (if_output i') = []" "stream_ended i' = stream_ended i"
    using inflate_run_part [of i q m] assms(3,4) by auto
  moreover have "\<exists>t. D (inp @ q) = (outp @ r) @ t"
    using decompress_sound [of "if_decompress i'"] run at assms(3) by auto
  ultimately show ?thesis using i at by (auto simp: decompressor_decompress_def d_at_def)
qed

lemma decompress_last:
  assumes "d_at d inp outp" "pools_fresh zlib pools" "V (inp @ q @ sync_marker)"
    "length (D (inp @ q @ sync_marker)) < m + length outp"
  shows "\<exists>r d' pools'. decompressor_decompress zlib fl q True m d pools = Some (Ok r, d', pools') \<and>
    outp @ r = D (inp @ q @ sync_marker) \<and>
    (if no_context_takeover (dp_config d) then d_at d' [] []
     else d_at d' (inp @ q @ sync_marker) (outp @ r)) \<and>
    pools_fresh zlib pools' \<and> dp_config d' = dp_config d"
proof -
  obtain i pools1 where i: "obtain_inflater zlib fl d pools = (i, pools1)" by fastforce
  note at = obtain_inflater_at [OF assms(1,2) i]
  then obtain r i' where run: "inflate_run fl q True m i = Some (Ok r, i')"
    "y_in (if_decompress i') = inp @ q @ sync_marker" "y_out (if_decompress i') = outp @ r"
    "outp @ r = D (inp @ q @ sync_marker)" "buf_data (if_output i') = []" "\<not> stream_ended i'"
    using inflate_run_last [of i q m] assms(3,4) by auto
  have fresh: "fresh_inflater k (inflater_reset fl i')" for k
    using run(5) by (simp add: fresh_inflater_def inflater_reset_def decompressor_fresh)
  have put: "pools_fresh zlib (pools1(k := put_inflate zlib b (inflater_reset fl i') (pools1 k)))" for k b
    using at fresh by (auto simp: pools_fresh_def intro: put_inflate_ok)
  show ?thesis
  proof (intro exI conjI)
    show "decompressor_decompress zlib fl q True m d pools = Some (Ok r,
      fst (snd (the (decompressor_decompress zlib fl q True m d pools))),
      snd (snd (the (decompressor_decompress zlib fl q True m d pools))))"
      using i run(1) by (simp add: decompressor_decompress_def Let_def)
  qed (use at i run put fresh [unfolded fresh_inflater_def] in
      \<open>auto simp: decompressor_decompress_def d_at_def Let_def split: option.split\<close>)
qed

text \<open>A whole message.\<close>

lemma compress_message:
  assumes "c_at c outp inp" "pools_fresh zlib pools" "ps \<noteq> []"
  shows "\<exists>qs outp' c' pools'. compress_all (run_compress zlib fl) ps (c, pools) = (Ok qs, c', pools') \<and>
    length qs = length ps \<and> same_stream (outp @ concat qs @ sync_marker) outp' \<and>
    D outp' = inp @ concat ps \<and> V outp' \<and>
    (if no_context_takeover (cp_config c) then c_at c' [] [] else c_at c' outp' (inp @ concat ps)) \<and>
    pools_fresh zlib pools' \<and> cp_config c' = cp_config c"
  using assms
proof (induction ps arbitrary: c pools outp inp)
  case (Cons p ps)
  show ?case
  proof (cases "ps = []")
    case True
    obtain q outp' c' pools' where "compressor_compress zlib fl p True c pools = Some (Ok q, c', pools')"
      "same_stream (outp @ q @ sync_marker) outp'" "D outp' = inp @ p" "V outp'"
      "if no_context_takeover (cp_config c) then c_at c' [] [] else c_at c' outp' (inp @ p)"
      "pools_fresh zlib pools'" "cp_config c' = cp_config c"
      using compress_last [OF Cons.prems(1,2), of p] by blast
    then show ?thesis using True
      by (intro exI [of _ "[q]"] exI [of _ outp'] exI [of _ c'] exI [of _ pools']) simp
  next
    case False
    obtain q c1 pools1 where q: "compressor_compress zlib fl p False c pools = Some (Ok q, c1, pools1)"
      "c_at c1 (outp @ q) (inp @ p)" "pools_fresh zlib pools1" "cp_config c1 = cp_config c"
      using compress_part [OF Cons.prems(1,2), of p] by blast
    from Cons.IH [OF q(2,3) False] obtain qs outp' c' pools' where
      "compress_all (run_compress zlib fl) ps (c1, pools1) = (Ok qs, c', pools')" "length qs = length ps"
      "same_stream ((outp @ q) @ concat qs @ sync_marker) outp'" "D outp' = (inp @ p) @ concat ps" "V outp'"
      "if no_context_takeover (cp_config c1) then c_at c' [] [] else c_at c' outp' ((inp @ p) @ concat ps)"
      "pools_fresh zlib pools'" "cp_config c' = cp_config c1" by blast
    then show ?thesis using q False
      by (intro exI [of _ "q # qs"] exI [of _ outp'] exI [of _ c'] exI [of _ pools']) (auto split: if_splits)
  qed
qed simp

lemma decompress_message:
  fixes all
  assumes "d_at d inp outp" "pools_fresh zlib pools" "qs \<noteq> []" "all = inp @ concat qs @ sync_marker" "V all"
    and "b + n = length outp" "\<exists>t. D all = outp @ t" "\<And>n. b + n \<le> length (D all) \<Longrightarrow> length (D all) < b + n + lim n"
  shows "\<exists>rs d' pools'. decompress_all (run_decompress zlib fl) lim n qs (d, pools) = (Ok rs, d', pools') \<and>
    length rs = length qs \<and> outp @ concat rs = D all \<and>
    (if no_context_takeover (dp_config d) then d_at d' [] [] else d_at d' all (D all)) \<and>
    pools_fresh zlib pools' \<and> dp_config d' = dp_config d"
  using assms(1-7)
proof (induction qs arbitrary: d pools inp outp n)
  case (Cons q qs)
  have le: "length (D all) < lim n + length outp"
  proof -
    have "b + n \<le> length (D all)" using Cons.prems(6,7) by auto
    from assms(8) [OF this] show ?thesis using Cons.prems(6) by simp
  qed
  show ?case
  proof (cases "qs = []")
    case True
    have "V (inp @ q @ sync_marker)" "length (D (inp @ q @ sync_marker)) < lim n + length outp"
      using Cons.prems(4,5) le True by simp_all
    from decompress_last [OF Cons.prems(1,2) this] obtain r d' pools' where
      r: "decompressor_decompress zlib fl q True (lim n) d pools = Some (Ok r, d', pools')"
      "outp @ r = D (inp @ q @ sync_marker)"
      "if no_context_takeover (dp_config d) then d_at d' [] [] else d_at d' (inp @ q @ sync_marker) (outp @ r)"
      "pools_fresh zlib pools'" "dp_config d' = dp_config d" by blast
    have "all = inp @ q @ sync_marker" using Cons.prems(4) True by simp
    with r True show ?thesis by (intro exI [of _ "[r]"] exI [of _ d'] exI [of _ pools']) (auto split: if_splits)
  next
    case False
    have "(inp @ q) @ concat qs @ sync_marker = all" using Cons.prems(4) by simp
    then have v: "V (inp @ q)" and p: "\<exists>t. D all = D (inp @ q) @ t"
      using valid_prefix [of "inp @ q" "concat qs @ sync_marker"] decode_prefix [of "inp @ q" "concat qs @ sync_marker"]
        Cons.prems(5) by auto
    have "length (D (inp @ q)) < lim n + length outp" using le p by auto
    from decompress_part [OF Cons.prems(1,2) v this] obtain r d1 pools1 where
      r: "decompressor_decompress zlib fl q False (lim n) d pools = Some (Ok r, d1, pools1)"
      "d_at d1 (inp @ q) (outp @ r)" "\<exists>t. D (inp @ q) = (outp @ r) @ t"
      "pools_fresh zlib pools1" "dp_config d1 = dp_config d" by blast
    have t: "\<exists>t. D all = (outp @ r) @ t" using r(3) p by auto
    have n: "b + (n + length r) = length (outp @ r)" using Cons.prems(6) by simp
    obtain rs d' pools' where
      "decompress_all (run_decompress zlib fl) lim (n + length r) qs (d1, pools1) = (Ok rs, d', pools')"
      "length rs = length qs" "(outp @ r) @ concat rs = D all"
      "if no_context_takeover (dp_config d1) then d_at d' [] [] else d_at d' all (D all)"
      "pools_fresh zlib pools'" "dp_config d' = dp_config d1"
      using Cons.IH [OF r(2,4) False \<open>(inp @ q) @ concat qs @ sync_marker = all\<close> [symmetric] Cons.prems(5) n t]
      by blast
    then show ?thesis using r False by (intro exI [of _ "r # rs"] exI [of _ d'] exI [of _ pools']) simp
  qed
qed simp

text \<open>Compressor and decompressor of the two ends, between two messages.\<close>

definition codec_sync ::
  "bool \<Rightarrow> 'z compressor \<times> ('z, 'y) pools \<Rightarrow> 'y decompressor \<times> ('z, 'y) pools \<Rightarrow> bool"
where
  "codec_sync zlib = (\<lambda>(c, pools) (d, pools').
    pools_fresh zlib pools \<and> pools_fresh zlib pools' \<and>
    no_context_takeover (cp_config c) = no_context_takeover (dp_config d) \<and>
    (\<exists>outp inp yin. c_at c outp inp \<and> d_at d yin inp \<and> same_stream yin outp \<and> D outp = inp \<and> V outp))"

lemma codec_sync_new:
  assumes "pools_fresh zlib pools" "pools_fresh zlib pools'" "cp_deflate c = None" "dp_inflate d = None"
    "no_context_takeover (cp_config c) = no_context_takeover (dp_config d)"
  shows "codec_sync zlib (c, pools) (d, pools')"
proof -
  have "V []" using compress_valid [of undefined] valid_prefix [of "[]"] by simp
  then show ?thesis using assms decode_Nil
    by (auto simp: codec_sync_def c_at_def d_at_def intro!: exI [of _ "[]"])
qed

lemma message_codec_run: "message_codec (run_compress zlib fl) (run_decompress zlib fl) (codec_sync zlib)"
proof
  fix cp dp and ps :: "bytes list" and lim :: "nat \<Rightarrow> nat"
  assume sync: "codec_sync zlib cp dp" and ps: "ps \<noteq> []"
    and lim: "\<And>n. n \<le> length (concat ps) \<Longrightarrow> length (concat ps) < lim n + n"
  obtain c pools d pools' where cp: "cp = (c, pools)" "dp = (d, pools')" by fastforce
  obtain outp inp yin where at: "c_at c outp inp" "d_at d yin inp" "same_stream yin outp" "D outp = inp" "V outp"
    and fresh: "pools_fresh zlib pools" "pools_fresh zlib pools'"
    and ctx: "no_context_takeover (cp_config c) = no_context_takeover (dp_config d)"
    using sync by (auto simp: codec_sync_def cp)
  obtain qs outp' c' pools1 where q: "compress_all (run_compress zlib fl) ps (c, pools) = (Ok qs, c', pools1)"
    "length qs = length ps" "same_stream (outp @ concat qs @ sync_marker) outp'" "D outp' = inp @ concat ps" "V outp'"
    "if no_context_takeover (cp_config c) then c_at c' [] [] else c_at c' outp' (inp @ concat ps)"
    "pools_fresh zlib pools1" "cp_config c' = cp_config c"
    using compress_message [OF at(1) fresh(1) ps] by blast
  define all where "all = yin @ concat qs @ sync_marker"
  have same: "same_stream all outp'"
    using same_stream_trans [OF same_stream_append [OF at(3), of "concat qs @ sync_marker"] q(3)] by (simp add: all_def)
  then have all: "D all = inp @ concat ps" "V all"
    using same_streamD [OF same, of "[]"] q(4,5) by simp_all
  have nonempty: "qs \<noteq> []" using q(2) ps by auto
  have lim': "length (D all) < length inp + n + lim n" if "length inp + n \<le> length (D all)" for n
    using lim [of n] that all(1) by simp
  have pre: "\<exists>t. D all = inp @ t" using all(1) by blast
  obtain rs d' pools2 where r: "decompress_all (run_decompress zlib fl) lim 0 qs (d, pools') = (Ok rs, d', pools2)"
    "length rs = length qs" "inp @ concat rs = D all"
    "if no_context_takeover (dp_config d) then d_at d' [] [] else d_at d' all (D all)"
    "pools_fresh zlib pools2" "dp_config d' = dp_config d"
    using decompress_message [OF at(2) fresh(2) nonempty all_def all(2) _ pre lim', of 0] by auto
  have "codec_sync zlib (c', pools1) (d', pools2)"
  proof (cases "no_context_takeover (cp_config c)")
    case True
    have "V []" using all(2) valid_prefix [of "[]" all] by simp
    then show ?thesis using True q r ctx decode_Nil
      by (auto simp: codec_sync_def intro!: exI [of _ "[]"])
  next
    case False
    then show ?thesis using q r ctx same all by (auto simp: codec_sync_def)
  qed
  then show "\<exists>qs c' rs d'. compress_all (run_compress zlib fl) ps cp = (Ok qs, c') \<and> length qs = length ps \<and>
      decompress_all (run_decompress zlib fl) lim 0 qs dp = (Ok rs, d') \<and> length rs = length ps \<and>
      concat rs = concat ps \<and> codec_sync zlib c' d'"
    using q r all cp by auto
qed

end

end
