(* ===== verification/Settings.thy ===== *)
theory Settings
  imports Web_Socket Compression_Roundtrip
begin

text \<open>
  The options of a connection (\<open>src/native/options.rs\<close>), the settings they become once
  the extensions are agreed (\<open>Negotiation\<close> in \<open>src/native/mod.rs\<close>) and the constructors
  that build a connection from them (\<open>Streaming::new\<close>, \<open>WebSocket::new\<close>,
  \<open>from_stream\<close> and \<open>from_stream_with_extensions\<close>).

  \<open>zlib\<close> says whether the crate was built with a zlib backend; without one the builders
  and fields for window sizes do not exist.  Durations are numbers in the unit of the
  clock, a pool is its number in the store of pools.
\<close>

section \<open>Options\<close>

record fragmentation =
  frg_timeout :: "nat option"
  frg_size :: "nat option"

record options =
  opt_max_payload_read :: "nat option"
  opt_max_read_buffer :: "nat option"
  opt_read_buffer_capacity :: "nat option"
  opt_write_buffer_capacity :: "nat option"
  opt_compression :: "deflate_options option"
  opt_fragmentation :: "fragmentation option"
  opt_check_utf8 :: bool
  opt_no_delay :: bool
  opt_backpressure :: "nat option"

definition fragmentation_default :: fragmentation where
  "fragmentation_default = \<lparr>frg_timeout = None, frg_size = None\<rparr>"

definition options_default :: options where
  "options_default =
    \<lparr>opt_max_payload_read = None, opt_max_read_buffer = None, opt_read_buffer_capacity = None,
     opt_write_buffer_capacity = None, opt_compression = None, opt_fragmentation = None,
     opt_check_utf8 = False, opt_no_delay = False, opt_backpressure = None\<rparr>"

text \<open>\<open>CompressionLevel::default\<close> is level 6.\<close>

definition deflate_options_default :: deflate_options where
  "deflate_options_default =
    \<lparr>do_level = 6, do_server_max_window_bits = None, do_client_max_window_bits = None,
     do_server_no_context_takeover = False, do_client_no_context_takeover = False,
     do_compression_threshold = 0, do_pool = None\<rparr>"

definition unwrap_or :: "'a option \<Rightarrow> 'a \<Rightarrow> 'a" where
  "unwrap_or x d = (case x of None \<Rightarrow> d | Some y \<Rightarrow> y)"

lemma unwrap_or_simps [simp]: "unwrap_or None d = d" "unwrap_or (Some y) d = y"
  by (simp_all add: unwrap_or_def)

section \<open>Builders\<close>

definition with_limits :: "nat \<Rightarrow> nat \<Rightarrow> options \<Rightarrow> options" where
  "with_limits max_payload max_buffer opts =
    opts\<lparr>opt_max_payload_read := Some max_payload, opt_max_read_buffer := Some max_buffer\<rparr>"

definition with_low_latency_compression :: "options \<Rightarrow> options" where
  "with_low_latency_compression opts = opts\<lparr>opt_compression := Some low_latency\<rparr>"

definition with_high_compression :: "options \<Rightarrow> options" where
  "with_high_compression opts = opts\<lparr>opt_compression := Some high_compression\<rparr>"

definition with_balanced_compression :: "options \<Rightarrow> options" where
  "with_balanced_compression opts = opts\<lparr>opt_compression := Some balanced\<rparr>"

definition with_compression_level :: "nat \<Rightarrow> options \<Rightarrow> options" where
  "with_compression_level level opts =
    opts\<lparr>opt_compression := Some ((unwrap_or (opt_compression opts) deflate_options_default)\<lparr>do_level := level\<rparr>)\<rparr>"

definition without_compression :: "options \<Rightarrow> options" where
  "without_compression opts = opts\<lparr>opt_compression := None\<rparr>"

definition with_max_payload_read :: "nat \<Rightarrow> options \<Rightarrow> options" where
  "with_max_payload_read sz opts = opts\<lparr>opt_max_payload_read := Some sz\<rparr>"

definition with_max_read_buffer :: "nat \<Rightarrow> options \<Rightarrow> options" where
  "with_max_read_buffer sz opts = opts\<lparr>opt_max_read_buffer := Some sz\<rparr>"

definition with_read_buffer_capacity :: "nat \<Rightarrow> options \<Rightarrow> options" where
  "with_read_buffer_capacity capacity opts = opts\<lparr>opt_read_buffer_capacity := Some capacity\<rparr>"

definition with_write_buffer_capacity :: "nat \<Rightarrow> options \<Rightarrow> options" where
  "with_write_buffer_capacity capacity opts = opts\<lparr>opt_write_buffer_capacity := Some capacity\<rparr>"

definition with_utf8 :: "options \<Rightarrow> options" where
  "with_utf8 opts = opts\<lparr>opt_check_utf8 := True\<rparr>"

definition with_no_delay :: "options \<Rightarrow> options" where
  "with_no_delay opts = opts\<lparr>opt_no_delay := True\<rparr>"

definition with_fragment_timeout :: "nat \<Rightarrow> options \<Rightarrow> options" where
  "with_fragment_timeout timeout opts =
    opts\<lparr>opt_fragmentation := Some ((unwrap_or (opt_fragmentation opts) fragmentation_default)\<lparr>frg_timeout := Some timeout\<rparr>)\<rparr>"

definition with_max_fragment_size :: "nat \<Rightarrow> options \<Rightarrow> options" where
  "with_max_fragment_size sz opts =
    opts\<lparr>opt_fragmentation := Some ((unwrap_or (opt_fragmentation opts) fragmentation_default)\<lparr>frg_size := Some sz\<rparr>)\<rparr>"

definition with_backpressure_boundary :: "nat \<Rightarrow> options \<Rightarrow> options" where
  "with_backpressure_boundary sz opts = opts\<lparr>opt_backpressure := Some sz\<rparr>"

definition with_client_max_window_bits :: "nat \<Rightarrow> options \<Rightarrow> options" where
  "with_client_max_window_bits bits opts =
    opts\<lparr>opt_compression := Some ((unwrap_or (opt_compression opts) deflate_options_default)
       \<lparr>do_client_max_window_bits := Some bits\<rparr>)\<rparr>"

definition with_server_max_window_bits :: "nat \<Rightarrow> options \<Rightarrow> options" where
  "with_server_max_window_bits bits opts =
    opts\<lparr>opt_compression := Some ((unwrap_or (opt_compression opts) deflate_options_default)
       \<lparr>do_server_max_window_bits := Some bits\<rparr>)\<rparr>"

definition with_server_no_context_takeover :: "options \<Rightarrow> options" where
  "with_server_no_context_takeover opts =
    opts\<lparr>opt_compression := Some ((unwrap_or (opt_compression opts) deflate_options_default)
       \<lparr>do_server_no_context_takeover := True\<rparr>)\<rparr>"

definition with_compression_threshold :: "nat \<Rightarrow> options \<Rightarrow> options" where
  "with_compression_threshold n opts =
    opts\<lparr>opt_compression := Some ((unwrap_or (opt_compression opts) deflate_options_default)
       \<lparr>do_compression_threshold := n\<rparr>)\<rparr>"

definition with_deflate_pool :: "nat \<Rightarrow> options \<Rightarrow> options" where
  "with_deflate_pool pool opts =
    opts\<lparr>opt_compression := Some ((unwrap_or (opt_compression opts) deflate_options_default)\<lparr>do_pool := Some pool\<rparr>)\<rparr>"

definition with_client_no_context_takeover :: "options \<Rightarrow> options" where
  "with_client_no_context_takeover opts =
    opts\<lparr>opt_compression := Some ((unwrap_or (opt_compression opts) deflate_options_default)
       \<lparr>do_client_no_context_takeover := True\<rparr>)\<rparr>"

lemmas builder_defs = with_limits_def with_low_latency_compression_def with_high_compression_def
  with_balanced_compression_def with_compression_level_def without_compression_def with_max_payload_read_def
  with_max_read_buffer_def with_read_buffer_capacity_def with_write_buffer_capacity_def with_utf8_def
  with_no_delay_def with_fragment_timeout_def with_max_fragment_size_def with_backpressure_boundary_def
  with_client_max_window_bits_def with_server_max_window_bits_def with_server_no_context_takeover_def
  with_compression_threshold_def with_deflate_pool_def with_client_no_context_takeover_def

section \<open>Negotiated settings\<close>

definition MAX_PAYLOAD_READ :: nat where "MAX_PAYLOAD_READ = 1024 * 1024"

definition MAX_READ_BUFFER :: nat where "MAX_READ_BUFFER = 2 * 1024 * 1024"

record negotiation =
  ng_compression :: "compression_config option"
  ng_max_payload_read :: nat
  ng_max_read_buffer :: nat
  ng_read_buffer_capacity :: "nat option"
  ng_write_buffer_capacity :: "nat option"
  ng_utf8 :: bool
  ng_fragmentation :: "fragmentation option"
  ng_backpressure :: "nat option"
  ng_compression_threshold :: nat

text \<open>
  The product of \<open>payload_read * 2\<close> is one of \<open>usize\<close>: \<open>checks\<close> says whether the crate was
  built with overflow checks, which panic; without them it wraps.
\<close>

definition twice :: "bool \<Rightarrow> nat \<Rightarrow> nat exec" where
  "twice checks n = (if checks \<and> n * 2 \<ge> 2 ^ 64 then Panic else Finished (n * 2 mod 2 ^ 64))"

definition negotiation_new ::
  "bool \<Rightarrow> extensions option \<Rightarrow> options \<Rightarrow> role \<Rightarrow> negotiation res exec"
where
  "negotiation_new checks exts opts rl =
    (case resolve exts (map_option do_level (opt_compression opts)) rl of
       Err e \<Rightarrow> Finished (Err e)
     | Ok compression \<Rightarrow>
         (case (case opt_max_payload_read opts of None \<Rightarrow> Finished MAX_READ_BUFFER | Some n \<Rightarrow> twice checks n) of
            Panic \<Rightarrow> Panic
          | Diverges \<Rightarrow> Diverges
          | Finished otherwise \<Rightarrow>
              Finished (Ok
                \<lparr>ng_compression =
                   map_option (with_pool (Option.bind (opt_compression opts) do_pool)) compression,
                 ng_max_payload_read = unwrap_or (opt_max_payload_read opts) MAX_PAYLOAD_READ,
                 ng_max_read_buffer = unwrap_or (opt_max_read_buffer opts) otherwise,
                 ng_read_buffer_capacity = opt_read_buffer_capacity opts,
                 ng_write_buffer_capacity = opt_write_buffer_capacity opts,
                 ng_utf8 = opt_check_utf8 opts,
                 ng_fragmentation = opt_fragmentation opts,
                 ng_backpressure = opt_backpressure opts,
                 ng_compression_threshold =
                   (case opt_compression opts of None \<Rightarrow> 0 | Some d \<Rightarrow> do_compression_threshold d)\<rparr>)))"

definition negotiation_compressor :: "negotiation \<Rightarrow> 'z compressor option" where
  "negotiation_compressor n = map_option config_compressor (ng_compression n)"

definition negotiation_decompressor :: "negotiation \<Rightarrow> 'y decompressor option" where
  "negotiation_decompressor n = map_option config_decompressor (ng_compression n)"

section \<open>Building a connection\<close>

text \<open>
  \<open>Framed\<close> is a parameter: \<open>from_parts\<close> makes it from a codec and the bytes read so far,
  \<open>set_boundary\<close> is its \<open>set_backpressure_boundary\<close>.  The state of a compressor is the
  crate's \<open>Compressor\<close> with the store of pools it works on.
\<close>

definition DEFAULT_BUFFER_CAPACITY :: nat where "DEFAULT_BUFFER_CAPACITY = 8 * 1024"

type_synonym ('s, 'z, 'y) crate_conn =
  "('s, 'z compressor \<times> ('z, 'y) pools, 'y decompressor \<times> ('z, 'y) pools) conn"

type_synonym ('s, 'z, 'y) crate_socket =
  "('s, 'z compressor \<times> ('z, 'y) pools, 'y decompressor \<times> ('z, 'y) pools) web_socket"

definition streaming_new ::
  "'s transport \<Rightarrow> (codec \<Rightarrow> bytes \<Rightarrow> 's) \<Rightarrow> (nat \<Rightarrow> 's \<Rightarrow> 's) \<Rightarrow> ('z, 'y) pools \<Rightarrow>
   role \<Rightarrow> bytes \<Rightarrow> negotiation \<Rightarrow> ('s, 'z, 'y) crate_conn"
where
  "streaming_new tr from_parts set_boundary pools rl read_buf n =
    (let s = from_parts (codec_of (decoder_new rl (ng_max_payload_read n), rl)) read_buf;
         s = (case ng_read_buffer_capacity n of None \<Rightarrow> s | Some c \<Rightarrow> tr_resize_read tr c s);
         s = (case ng_write_buffer_capacity n of None \<Rightarrow> s | Some c \<Rightarrow> tr_resize_write tr c s);
         s = (case ng_backpressure n of None \<Rightarrow> s | Some b \<Rightarrow> set_boundary b s)
     in conn_new s
          (map_option (\<lambda>c. (c, pools)) (negotiation_compressor n))
          (map_option (\<lambda>d. (d, pools)) (negotiation_decompressor n))
          (ng_max_payload_read n) (ng_compression_threshold n)
          (unwrap_or (ng_read_buffer_capacity n) DEFAULT_BUFFER_CAPACITY)
          (unwrap_or (ng_write_buffer_capacity n) DEFAULT_BUFFER_CAPACITY))"

definition ws_new ::
  "'s transport \<Rightarrow> (codec \<Rightarrow> bytes \<Rightarrow> 's) \<Rightarrow> (nat \<Rightarrow> 's \<Rightarrow> 's) \<Rightarrow> ('z, 'y) pools \<Rightarrow>
   role \<Rightarrow> bytes \<Rightarrow> negotiation \<Rightarrow> ('s, 'z, 'y) crate_socket"
where
  "ws_new tr from_parts set_boundary pools rl read_buf n =
    \<lparr>ws_streaming = streaming_new tr from_parts set_boundary pools rl read_buf n,
     check_utf8 = ng_utf8 n,
     ws_layer = fragment_layer_new (Option.bind (ng_fragmentation n) frg_size) (ng_max_read_buffer n)
       (Option.bind (ng_fragmentation n) frg_timeout)\<rparr>"

definition from_stream_with_extensions ::
  "bool \<Rightarrow> 's transport \<Rightarrow> (codec \<Rightarrow> bytes \<Rightarrow> 's) \<Rightarrow> (nat \<Rightarrow> 's \<Rightarrow> 's) \<Rightarrow> ('z, 'y) pools \<Rightarrow>
   role \<Rightarrow> string option \<Rightarrow> options \<Rightarrow> ('s, 'z, 'y) crate_socket res exec"
where
  "from_stream_with_extensions checks tr from_parts set_boundary pools rl exts opts =
    (case negotiation_new checks (Option.bind exts from_str) opts rl of
       Panic \<Rightarrow> Panic
     | Diverges \<Rightarrow> Diverges
     | Finished (Err e) \<Rightarrow> Finished (Err e)
     | Finished (Ok n) \<Rightarrow> Finished (Ok (ws_new tr from_parts set_boundary pools rl [] n)))"

definition from_stream ::
  "bool \<Rightarrow> 's transport \<Rightarrow> (codec \<Rightarrow> bytes \<Rightarrow> 's) \<Rightarrow> (nat \<Rightarrow> 's \<Rightarrow> 's) \<Rightarrow> ('z, 'y) pools \<Rightarrow>
   role \<Rightarrow> options \<Rightarrow> ('s, 'z, 'y) crate_socket res exec"
where
  "from_stream checks tr from_parts set_boundary pools rl opts =
    from_stream_with_extensions checks tr from_parts set_boundary pools rl None opts"

section \<open>Properties\<close>

text \<open>The builder calls, and the settings each of them decides.\<close>

datatype builder_call =
    With_Limits nat nat | With_Low_Latency_Compression | With_High_Compression | With_Balanced_Compression
  | With_Compression_Level nat | Without_Compression | With_Max_Payload_Read nat | With_Max_Read_Buffer nat
  | With_Read_Buffer_Capacity nat | With_Write_Buffer_Capacity nat | With_Utf8 | With_No_Delay
  | With_Fragment_Timeout nat | With_Max_Fragment_Size nat | With_Backpressure_Boundary nat
  | With_Client_Max_Window_Bits nat | With_Server_Max_Window_Bits nat | Server_No_Context_Takeover
  | With_Compression_Threshold nat | With_Deflate_Pool nat | Client_No_Context_Takeover

datatype setting =
    Payload_Limit | Buffer_Limit | Read_Capacity | Write_Capacity | Utf8_Check | No_Delay | Timeout | Fragment_Size
  | Boundary | Level | Client_Window | Server_Window | Server_Takeover | Client_Takeover | Threshold | Pool

definition deflate_settings :: "setting set" where
  "deflate_settings = {Level, Client_Window, Server_Window, Server_Takeover, Client_Takeover, Threshold, Pool}"

fun builder :: "builder_call \<Rightarrow> options \<Rightarrow> options" where
  "builder (With_Limits p b) = with_limits p b"
| "builder With_Low_Latency_Compression = with_low_latency_compression"
| "builder With_High_Compression = with_high_compression"
| "builder With_Balanced_Compression = with_balanced_compression"
| "builder (With_Compression_Level n) = with_compression_level n"
| "builder Without_Compression = without_compression"
| "builder (With_Max_Payload_Read n) = with_max_payload_read n"
| "builder (With_Max_Read_Buffer n) = with_max_read_buffer n"
| "builder (With_Read_Buffer_Capacity n) = with_read_buffer_capacity n"
| "builder (With_Write_Buffer_Capacity n) = with_write_buffer_capacity n"
| "builder With_Utf8 = with_utf8"
| "builder With_No_Delay = with_no_delay"
| "builder (With_Fragment_Timeout n) = with_fragment_timeout n"
| "builder (With_Max_Fragment_Size n) = with_max_fragment_size n"
| "builder (With_Backpressure_Boundary n) = with_backpressure_boundary n"
| "builder (With_Client_Max_Window_Bits n) = with_client_max_window_bits n"
| "builder (With_Server_Max_Window_Bits n) = with_server_max_window_bits n"
| "builder Server_No_Context_Takeover = with_server_no_context_takeover"
| "builder (With_Compression_Threshold n) = with_compression_threshold n"
| "builder (With_Deflate_Pool n) = with_deflate_pool n"
| "builder Client_No_Context_Takeover = with_client_no_context_takeover"

fun decides :: "builder_call \<Rightarrow> setting set" where
  "decides (With_Limits _ _) = {Payload_Limit, Buffer_Limit}"
| "decides With_Low_Latency_Compression = deflate_settings"
| "decides With_High_Compression = deflate_settings"
| "decides With_Balanced_Compression = deflate_settings"
| "decides (With_Compression_Level _) = {Level}"
| "decides Without_Compression = deflate_settings"
| "decides (With_Max_Payload_Read _) = {Payload_Limit}"
| "decides (With_Max_Read_Buffer _) = {Buffer_Limit}"
| "decides (With_Read_Buffer_Capacity _) = {Read_Capacity}"
| "decides (With_Write_Buffer_Capacity _) = {Write_Capacity}"
| "decides With_Utf8 = {Utf8_Check}"
| "decides With_No_Delay = {No_Delay}"
| "decides (With_Fragment_Timeout _) = {Timeout}"
| "decides (With_Max_Fragment_Size _) = {Fragment_Size}"
| "decides (With_Backpressure_Boundary _) = {Boundary}"
| "decides (With_Client_Max_Window_Bits _) = {Client_Window}"
| "decides (With_Server_Max_Window_Bits _) = {Server_Window}"
| "decides Server_No_Context_Takeover = {Server_Takeover}"
| "decides (With_Compression_Threshold _) = {Threshold}"
| "decides (With_Deflate_Pool _) = {Pool}"
| "decides Client_No_Context_Takeover = {Client_Takeover}"

text \<open>
  The order of builder calls matters only between calls that decide a common
  setting: any two others can be swapped, whatever was configured before, including
  the calls that switch compression on with its defaults.
\<close>

lemma builders_commute:
  assumes "decides a \<inter> decides b = {}"
  shows "builder a (builder b opts) = builder b (builder a opts)"
  using assms by (cases a; cases b) (simp_all add: builder_defs deflate_settings_def)

text \<open>
  C35. A payload limit of \<open>2 ^ 63\<close> bytes or more breaks the settings: doubling it
  overflows.  A build with overflow checks panics, even when the buffer limit was given
  as well; a build without them lets fragmented messages use less than one payload
  instead of two.
\<close>

theorem payload_limit_overflow:
  assumes "2 ^ 63 \<le> p" "p < 2 ^ 64"
  shows "negotiation_new True None (with_limits p b options_default) rl = Panic \<and>
    (\<exists>n. negotiation_new False None (with_max_payload_read p options_default) rl = Finished (Ok n) \<and>
      ng_max_read_buffer n = 2 * p - 2 ^ 64 \<and> ng_max_read_buffer n < ng_max_payload_read n)"
proof -
  have "p * 2 mod 2 ^ 64 = (p * 2 - 2 ^ 64) mod 2 ^ 64" using assms by (simp add: le_mod_geq)
  also have "\<dots> = 2 * p - 2 ^ 64" using assms by (subst mod_less) (simp_all add: mult.commute)
  finally show ?thesis using assms
    by (simp add: negotiation_new_def resolve_def twice_def builder_defs options_default_def)
qed

theorem payload_limit_overflow_witness:
  "negotiation_new True None (with_limits (2 ^ 63) 1000 options_default) Client = Panic \<and>
   (\<exists>n. negotiation_new False None (with_max_payload_read (2 ^ 63) options_default) Client = Finished (Ok n) \<and>
     ng_max_read_buffer n = 2 * 2 ^ 63 - 2 ^ 64 \<and> ng_max_read_buffer n < ng_max_payload_read n)"
  by (rule payload_limit_overflow) simp_all

end
