(* ===== verification/Http.thy ===== *)
theory Http
  imports Net Settings
begin

text \<open>
  What the handshakes use of the http, hyper, reqwest, sha1 and base64 crates.

  Header maps, URIs, hashing and the encoding are parameters, the record \<open>http_lib\<close>; the
  laws the crate relies on are the locale \<open>http_crates\<close>, interpreted on header maps that
  are lists.  Requests and responses are records.  The builder of a request remembers its
  first error, as \<open>http::request::Builder\<close> does: \<open>None\<close> is a builder in error.
\<close>

section \<open>Libraries\<close>

text \<open>
  \<open>lib_all\<close> is \<open>get_all\<close>, \<open>lib_append\<close> and \<open>lib_insert\<close> add a value or replace all values
  of a name; \<open>lib_value_ok\<close> says which bytes make a \<open>HeaderValue\<close>, \<open>lib_to_str\<close> is its
  \<open>to_str\<close>; \<open>lib_uri_ok\<close> says which strings make a \<open>Uri\<close>; \<open>lib_host\<close> is \<open>Display\<close> of a
  \<open>url::Host\<close>.
\<close>

record 'h http_lib =
  lib_empty :: 'h
  lib_all :: "string \<Rightarrow> 'h \<Rightarrow> bytes list"
  lib_append :: "string \<Rightarrow> bytes \<Rightarrow> 'h \<Rightarrow> 'h"
  lib_insert :: "string \<Rightarrow> bytes \<Rightarrow> 'h \<Rightarrow> 'h"
  lib_value_ok :: "bytes \<Rightarrow> bool"
  lib_to_str :: "bytes \<Rightarrow> string option"
  lib_uri_ok :: "string \<Rightarrow> bool"
  lib_host :: "host \<Rightarrow> string"
  lib_sha1 :: "bytes \<Rightarrow> bytes"
  lib_base64 :: "bytes \<Rightarrow> string"

definition lib_get :: "'h http_lib \<Rightarrow> string \<Rightarrow> 'h \<Rightarrow> bytes option" where
  "lib_get lib n h = (case lib_all lib n h of [] \<Rightarrow> None | v # _ \<Rightarrow> Some v)"

definition lib_strs :: "'h http_lib \<Rightarrow> string \<Rightarrow> 'h \<Rightarrow> string option list" where
  "lib_strs lib n h = map (lib_to_str lib) (lib_all lib n h)"

definition visible :: "string \<Rightarrow> bool" where
  "visible s \<longleftrightarrow> list_all (\<lambda>c. 32 \<le> (of_char c :: nat) \<and> (of_char c :: nat) < 127) s"

definition HOST :: string where "HOST = ''host''"
definition UPGRADE :: string where "UPGRADE = ''upgrade''"
definition CONNECTION :: string where "CONNECTION = ''connection''"
definition LOCATION :: string where "LOCATION = ''location''"
definition SEC_WEBSOCKET_KEY :: string where "SEC_WEBSOCKET_KEY = ''sec-websocket-key''"
definition SEC_WEBSOCKET_VERSION :: string where "SEC_WEBSOCKET_VERSION = ''sec-websocket-version''"
definition SEC_WEBSOCKET_ACCEPT :: string where "SEC_WEBSOCKET_ACCEPT = ''sec-websocket-accept''"
definition SEC_WEBSOCKET_EXTENSIONS :: string where "SEC_WEBSOCKET_EXTENSIONS = ''sec-websocket-extensions''"
definition SEC_WEBSOCKET_PROTOCOL :: string where "SEC_WEBSOCKET_PROTOCOL = ''sec-websocket-protocol''"

lemmas header_names = HOST_def UPGRADE_def CONNECTION_def LOCATION_def SEC_WEBSOCKET_KEY_def
  SEC_WEBSOCKET_VERSION_def SEC_WEBSOCKET_ACCEPT_def SEC_WEBSOCKET_EXTENSIONS_def SEC_WEBSOCKET_PROTOCOL_def

locale http_crates =
  fixes lib :: "'h http_lib"
  assumes all_empty: "lib_all lib n (lib_empty lib) = []"
    and all_append: "lib_all lib n (lib_append lib m v h) = lib_all lib n h @ (if n = m then [v] else [])"
    and all_insert: "lib_all lib n (lib_insert lib m v h) = (if n = m then [v] else lib_all lib n h)"
    and value_visible: "visible s \<Longrightarrow> lib_value_ok lib (str_bytes s)"
    and to_str_visible: "visible s \<Longrightarrow> lib_to_str lib (str_bytes s) = Some s"
    and base64_visible: "visible (lib_base64 lib bs)"
    and host_visible: "visible (lib_host lib name)"

section \<open>Requests and responses\<close>

text \<open>
  \<open>req_protocol\<close> is the \<open>Protocol\<close> extension (the pseudo-header \<open>:protocol\<close> of HTTP/2) and
  \<open>req_on_upgrade\<close> the \<open>OnUpgrade\<close> extension that hyper leaves on what it received.
\<close>

record ('h, 'u) http_request =
  req_method :: string
  req_uri :: string
  req_headers :: 'h
  req_protocol :: "string option"
  req_on_upgrade :: "'u option"

record 'h http_response =
  rsp_status :: u16
  rsp_headers :: 'h

type_synonym ('h, 'u) request_builder = "('h, 'u) http_request option"
type_synonym 'h response_builder = "'h http_response option"

definition request_builder :: "'h http_lib \<Rightarrow> ('h, 'u) request_builder" where
  "request_builder lib =
    Some \<lparr>req_method = ''GET'', req_uri = ''/'', req_headers = lib_empty lib, req_protocol = None, req_on_upgrade = None\<rparr>"

definition with_header :: "'h http_lib \<Rightarrow> string \<Rightarrow> bytes \<Rightarrow> ('h, 'u) request_builder \<Rightarrow> ('h, 'u) request_builder" where
  "with_header lib n v b =
    Option.bind b (\<lambda>r. if lib_value_ok lib v then Some (r\<lparr>req_headers := lib_append lib n v (req_headers r)\<rparr>) else None)"

definition with_method :: "string \<Rightarrow> ('h, 'u) request_builder \<Rightarrow> ('h, 'u) request_builder" where
  "with_method m b = map_option (\<lambda>r. r\<lparr>req_method := m\<rparr>) b"

definition with_uri :: "'h http_lib \<Rightarrow> string \<Rightarrow> ('h, 'u) request_builder \<Rightarrow> ('h, 'u) request_builder" where
  "with_uri lib s b = Option.bind b (\<lambda>r. if lib_uri_ok lib s then Some (r\<lparr>req_uri := s\<rparr>) else None)"

definition response_builder :: "'h http_lib \<Rightarrow> u16 \<Rightarrow> 'h response_builder" where
  "response_builder lib status = Some \<lparr>rsp_status = status, rsp_headers = lib_empty lib\<rparr>"

definition rsp_with_header :: "'h http_lib \<Rightarrow> string \<Rightarrow> bytes \<Rightarrow> 'h response_builder \<Rightarrow> 'h response_builder" where
  "rsp_with_header lib n v b =
    Option.bind b (\<lambda>r. if lib_value_ok lib v then Some (r\<lparr>rsp_headers := lib_append lib n v (rsp_headers r)\<rparr>) else None)"

definition OK_STATUS :: u16 where "OK_STATUS = 200"
definition SWITCHING_PROTOCOLS :: u16 where "SWITCHING_PROTOCOLS = 101"
definition BAD_REQUEST :: u16 where "BAD_REQUEST = 400"

definition is_redirection :: "u16 \<Rightarrow> bool" where
  "is_redirection status \<longleftrightarrow> 300 \<le> status \<and> status < 400"

lemmas status_codes = OK_STATUS_def SWITCHING_PROTOCOLS_def BAD_REQUEST_def

section \<open>hyper and reqwest\<close>

text \<open>
  An error of hyper is its message with, for every error in its chain of sources, whether it
  is an \<open>h2::Error\<close> and the reason that one carries.  A connection is \<open>'c\<close>; a response
  comes with its pending upgrade \<open>'u\<close>, which resolves to the upgraded stream \<open>'up\<close>.
\<close>

datatype hyper_error = Hyper_Error (hyper_message: string) (hyper_chain: "u32 option option list")

record ('io, 'h, 'u, 'c, 'up) hyper =
  hy_http1 :: "'io \<Rightarrow> hyper_error + 'c"
  hy_http2 :: "'io \<Rightarrow> hyper_error + 'c"
  hy_send :: "('h, 'u) http_request \<Rightarrow> 'c \<Rightarrow> hyper_error + ('h http_response \<times> 'u)"
  hy_upgrade :: "'u \<Rightarrow> hyper_error + 'up"
  hy_downcast :: "'up \<Rightarrow> ('io \<times> bytes) option"

record ('h, 'u, 'up) reqwest =
  rw_send :: "url \<Rightarrow> ('h, 'u) request_builder \<Rightarrow> string + ('h http_response \<times> 'u)"
  rw_upgrade :: "'u \<Rightarrow> string + 'up"

section \<open>Calls that may panic\<close>

text \<open>\<open>?\<close> in a function that may panic, and \<open>expect\<close>.\<close>

definition attempt :: "'a res exec \<Rightarrow> ('a \<Rightarrow> 'b res exec) \<Rightarrow> 'b res exec" where
  "attempt x f =
    (case x of
       Panic \<Rightarrow> Panic
     | Diverges \<Rightarrow> Diverges
     | Finished (Err e) \<Rightarrow> Finished (Err e)
     | Finished (Ok a) \<Rightarrow> f a)"

definition expect :: "'a option \<Rightarrow> ('a \<Rightarrow> 'b exec) \<Rightarrow> 'b exec" where
  "expect x f = (case x of None \<Rightarrow> Panic | Some a \<Rightarrow> f a)"

definition proceed :: "'a exec \<Rightarrow> ('a \<Rightarrow> 'b exec) \<Rightarrow> 'b exec" where
  "proceed x f = (case x of Panic \<Rightarrow> Panic | Diverges \<Rightarrow> Diverges | Finished a \<Rightarrow> f a)"

definition hyper_res :: "hyper_error + 'a \<Rightarrow> 'a res exec" where
  "hyper_res r = Finished (case r of Err e \<Rightarrow> Err (HTTPError (hyper_message e)) | Ok a \<Rightarrow> Ok a)"

definition reqwest_res :: "string + 'a \<Rightarrow> 'a res exec" where
  "reqwest_res r = Finished (case r of Err m \<Rightarrow> Err (Reqwest m) | Ok a \<Rightarrow> Ok a)"

lemma attempt_simps [simp]:
  "attempt (Finished (Ok a)) f = f a" "attempt (Finished (Err e)) f = Finished (Err e)" "attempt Panic f = Panic"
  by (simp_all add: attempt_def)

lemma expect_simps [simp]: "expect (Some a) f = f a" "expect None f = Panic"
  by (simp_all add: expect_def)

lemma attempt_ok [ok_iff]: "attempt x f = Finished (Ok b) \<longleftrightarrow> (\<exists>a. x = Finished (Ok a) \<and> f a = Finished (Ok b))"
  by (auto simp: attempt_def split: exec.splits sum.splits)

lemma expect_ok [ok_iff]: "expect x f = Finished b \<longleftrightarrow> (\<exists>a. x = Some a \<and> f a = Finished b)"
  by (auto simp: expect_def split: option.splits)

lemma proceed_simps [simp]: "proceed (Finished a) f = f a" "proceed Panic f = Panic"
  by (simp_all add: proceed_def)

lemma proceed_ok [ok_iff]: "proceed x f = Finished b \<longleftrightarrow> (\<exists>a. x = Finished a \<and> f a = Finished b)"
  by (auto simp: proceed_def split: exec.splits)

lemma hyper_res_ok [ok_iff]: "hyper_res r = Finished (Ok a) \<longleftrightarrow> r = Ok a"
  by (auto simp: hyper_res_def split: sum.splits)

lemma reqwest_res_ok [ok_iff]: "reqwest_res r = Finished (Ok a) \<longleftrightarrow> r = Ok a"
  by (auto simp: reqwest_res_def split: sum.splits)

section \<open>Header maps as lists\<close>

definition list_lib :: "(string \<times> bytes) list http_lib" where
  "list_lib =
    \<lparr>lib_empty = [], lib_all = (\<lambda>n h. map snd (filter (\<lambda>(m, v). m = n) h)),
     lib_append = (\<lambda>n v h. h @ [(n, v)]), lib_insert = (\<lambda>n v h. filter (\<lambda>(m, v). m \<noteq> n) h @ [(n, v)]),
     lib_value_ok = list_all (\<lambda>b. 32 \<le> b \<and> b \<noteq> 127 \<or> b = 9),
     lib_to_str = (\<lambda>v. if list_all (\<lambda>b. 32 \<le> b \<and> b < 127 \<or> b = 9) v then Some (map (\<lambda>b. char_of (unat b)) v) else None),
     lib_uri_ok = (\<lambda>s. s \<noteq> []),
     lib_host = (\<lambda>h. case h of Host_Domain d \<Rightarrow> if visible d then d else [] | Host_Ipv4 ip \<Rightarrow> dec (unat ip) | Host_Ipv6 ip \<Rightarrow> dec (unat ip)),
     lib_sha1 = (\<lambda>bs. [fold (XOR) bs 0]), lib_base64 = (\<lambda>bs. concat (map (\<lambda>b. dec (unat b)) bs))\<rparr>"

lemma visible_append [simp]: "visible (s @ t) \<longleftrightarrow> visible s \<and> visible t"
  by (simp add: visible_def)

lemma visible_concat: "(\<And>s. s \<in> set ss \<Longrightarrow> visible s) \<Longrightarrow> visible (concat ss)"
  by (induction ss) (simp_all add: visible_def)

lemma visible_dec [simp]: "visible (dec n)"
proof (induction n rule: dec.induct)
  case (1 n)
  have "n mod 10 < 79" using mod_less_divisor [of 10 n] by linarith
  with 1 show ?case by (subst dec.simps) (simp add: visible_def)
qed

lemma unat_of_char [simp]: "unat (word_of_nat (of_char c) :: byte) = of_char c"
  by (simp add: unat_of_nat)

lemma visible_bytes:
  assumes "visible s"
  shows "list_all (\<lambda>b. 32 \<le> b \<and> b < 127 \<and> b \<noteq> 127) (str_bytes s)" "map (\<lambda>b. char_of (unat b)) (str_bytes s) = s"
proof -
  have "32 \<le> b \<and> b < 127 \<and> b \<noteq> 127 \<longleftrightarrow> 32 \<le> unat b \<and> unat b < 127" for b :: byte
    by (auto simp: word_le_nat_alt word_less_nat_alt)
  then show "list_all (\<lambda>b. 32 \<le> b \<and> b < 127 \<and> b \<noteq> 127) (str_bytes s)"
    using assms by (auto simp: list_all_iff str_bytes_def visible_def)
  show "map (\<lambda>b. char_of (unat b)) (str_bytes s) = s" by (induction s) (simp_all add: str_bytes_def)
qed

interpretation list_lib: http_crates list_lib
proof
  fix s assume "visible s"
  note v = visible_bytes [OF this]
  show "lib_value_ok list_lib (str_bytes s)" "lib_to_str list_lib (str_bytes s) = Some s"
    using v by (auto simp: list_lib_def list_all_iff)
next
  fix bs h
  show "visible (lib_base64 list_lib bs)" by (auto simp: list_lib_def intro!: visible_concat)
  show "visible (lib_host list_lib h)" by (auto simp: list_lib_def visible_def [of "[]"] split: host.split)
qed (auto simp: list_lib_def case_prod_unfold intro!: arg_cong [where f = "map snd"] filter_cong)

end
