(* ===== verification/Handshake.thy ===== *)
theory Handshake
  imports Http
begin

text \<open>
  The opening handshakes: the RFC 6455 handshake over HTTP/1.1 of the client
  (\<open>native/mod.rs\<close>) and of the server (\<open>native/mod.rs\<close> and, for axum, \<open>native/upgrade.rs\<close>),
  and the RFC 8441 handshake over HTTP/2 (\<open>native/http2.rs\<close>).

  \<open>http_two\<close> says whether the crate was built with that feature.  The random bytes of a key are
  an argument.  What a connection is made of once the handshake is done is the record
  \<open>platform\<close>: the framed transport over the stream, the pools and the build flags.
\<close>

section \<open>Building the connection\<close>

record ('io, 's, 'z, 'y) platform =
  pf_checks :: bool
  pf_zlib :: bool
  pf_transport :: "'s transport"
  pf_parts :: "'io \<Rightarrow> codec \<Rightarrow> bytes \<Rightarrow> 's"
  pf_boundary :: "nat \<Rightarrow> 's \<Rightarrow> 's"
  pf_pools :: "('z, 'y) pools"

definition new_socket :: "('io, 's, 'z, 'y) platform \<Rightarrow> role \<Rightarrow> 'io \<Rightarrow> bytes \<Rightarrow> negotiation \<Rightarrow> ('s, 'z, 'y) crate_socket" where
  "new_socket pf rl chan read_buf n =
    ws_new (pf_transport pf) (pf_parts pf chan) (pf_boundary pf) (pf_pools pf) rl read_buf n"

section \<open>Keys\<close>

definition magic :: string where
  "magic = ''258EAFA5-E914-47DA-95CA-C5AB0DC85B11''"

definition sec_websocket_protocol :: "'h http_lib \<Rightarrow> bytes \<Rightarrow> string" where
  "sec_websocket_protocol lib key = lib_base64 lib (lib_sha1 lib (key @ str_bytes magic))"

definition generate_key :: "'h http_lib \<Rightarrow> bytes \<Rightarrow> string" where
  "generate_key lib random = lib_base64 lib random"

section \<open>What the client checks\<close>

definition lower :: "char \<Rightarrow> char" where
  "lower c = (let n = of_char c :: nat in if 65 \<le> n \<and> n \<le> 90 then char_of (n + 32) else c)"

definition eq_ignore_ascii_case :: "string \<Rightarrow> string \<Rightarrow> bool" where
  "eq_ignore_ascii_case s t \<longleftrightarrow> map lower s = map lower t"

fun split_commas :: "string \<Rightarrow> string list" where
  "split_commas [] = [[]]"
| "split_commas (c # s) =
    (if c = CHR '','' then [] # split_commas s
     else case split_commas s of [] \<Rightarrow> [[c]] | t # ts \<Rightarrow> (c # t) # ts)"

definition blank :: "char \<Rightarrow> bool" where
  "blank c \<longleftrightarrow> c = CHR '' '' \<or> c = CHR 0x09"

definition trim_blanks :: "string \<Rightarrow> string" where
  "trim_blanks s = rev (dropWhile blank (rev (dropWhile blank s)))"

definition connection_lists_upgrade :: "'h http_lib \<Rightarrow> 'h \<Rightarrow> bool" where
  "connection_lists_upgrade lib headers =
    list_ex (\<lambda>opt. eq_ignore_ascii_case opt ''upgrade'')
      (map trim_blanks (concat (map split_commas (List.map_filter id (lib_strs lib CONNECTION headers)))))"

definition verify_accept :: "'h http_lib \<Rightarrow> bytes option \<Rightarrow> string \<Rightarrow> unit res" where
  "verify_accept lib accept key =
    (let expected = sec_websocket_protocol lib (str_bytes key) in
     case accept of
       Some v \<Rightarrow> if v = str_bytes expected then Ok () else Err InvalidUpgradeHeader
     | None \<Rightarrow> Err InvalidUpgradeHeader)"

definition upgrade_to_websocket :: "'h http_lib \<Rightarrow> 'h \<Rightarrow> bool" where
  "upgrade_to_websocket lib headers =
    (case Option.bind (lib_get lib UPGRADE headers) (lib_to_str lib) of
       None \<Rightarrow> False
     | Some h \<Rightarrow> eq_ignore_ascii_case h ''websocket'')"

definition verify_upgrade :: "bool \<Rightarrow> 'h http_lib \<Rightarrow> u16 \<Rightarrow> 'h \<Rightarrow> string \<Rightarrow> options \<Rightarrow> negotiation res exec" where
  "verify_upgrade checks lib status headers key opts =
    (if status \<noteq> SWITCHING_PROTOCOLS then Finished (Err (InvalidStatusCode status))
     else if \<not> upgrade_to_websocket lib headers then Finished (Err InvalidUpgradeHeader)
     else if \<not> connection_lists_upgrade lib headers then Finished (Err InvalidConnectionHeader)
     else attempt (Finished (verify_accept lib (lib_get lib SEC_WEBSOCKET_ACCEPT headers) key)) (\<lambda>_.
       negotiation_new checks (from_headers (lib_strs lib SEC_WEBSOCKET_EXTENSIONS headers)) opts Client))"

definition verify :: "bool \<Rightarrow> 'h http_lib \<Rightarrow> 'h http_response \<Rightarrow> string \<Rightarrow> options \<Rightarrow> negotiation res exec" where
  "verify checks lib response key opts =
    (if is_redirection (rsp_status response)
     then Finished (Err (Redirected (rsp_status response)
       (unwrap_or (Option.bind (lib_get lib LOCATION (rsp_headers response)) (lib_to_str lib)) [])))
     else verify_upgrade checks lib (rsp_status response) (rsp_headers response) key opts)"

section \<open>The client over HTTP/1.1\<close>

definition authority :: "'h http_lib \<Rightarrow> host \<Rightarrow> u16 option \<Rightarrow> string" where
  "authority lib h port =
    (case port of Some p \<Rightarrow> lib_host lib h @ '':'' @ dec (unat p) | None \<Rightarrow> lib_host lib h)"

definition default_host :: "'h http_lib \<Rightarrow> url \<Rightarrow> ('h, 'u) request_builder \<Rightarrow> ('h, 'u) request_builder exec" where
  "default_host lib u b =
    expect b (\<lambda>r.
      if lib_get lib HOST (req_headers r) \<noteq> None then Finished b
      else expect (u_host u) (\<lambda>h. expect (u_known_port u) (\<lambda>port.
        Finished (with_header lib HOST
          (str_bytes (authority lib h (if u_port u \<noteq> None then Some port else None))) b))))"

definition offer_compression :: "'h http_lib \<Rightarrow> bool \<Rightarrow> options \<Rightarrow> ('h, 'u) http_request \<Rightarrow> ('h, 'u) http_request exec" where
  "offer_compression lib zlib opts req =
    (case opt_compression opts of
       None \<Rightarrow> Finished req
     | Some compression \<Rightarrow>
         let v = str_bytes (display (extensions_of_options zlib compression)) in
         if lib_value_ok lib v
         then Finished (req\<lparr>req_headers := lib_insert lib SEC_WEBSOCKET_EXTENSIONS v (req_headers req)\<rparr>)
         else Panic)"

definition http1_request :: "'h http_lib \<Rightarrow> bool \<Rightarrow> string \<Rightarrow> url \<Rightarrow> options \<Rightarrow> ('h, 'u) request_builder \<Rightarrow>
    ('h, 'u) http_request exec" where
  "http1_request lib zlib key u opts b =
    proceed (default_host lib u b) (\<lambda>b.
    expect
      (with_header lib SEC_WEBSOCKET_VERSION (str_bytes ''13'')
      (with_header lib SEC_WEBSOCKET_KEY (str_bytes key)
      (with_header lib CONNECTION (str_bytes ''upgrade'')
      (with_header lib UPGRADE (str_bytes ''websocket'')
      (with_uri lib (u_before_path u)
      (with_method ''GET'' b))))))
      (offer_compression lib zlib opts))"

definition http1_upgrade :: "bool \<Rightarrow> bool \<Rightarrow> 'h http_lib \<Rightarrow> ('io, 'h, 'u, 'c, 'up) hyper \<Rightarrow> bytes \<Rightarrow>
    url \<Rightarrow> 'io \<Rightarrow> options \<Rightarrow> ('h, 'u) request_builder \<Rightarrow> ('up \<times> negotiation) res exec" where
  "http1_upgrade checks zlib lib hy random u sock opts b =
    (let key = generate_key lib random in
     proceed (http1_request lib zlib key u opts b) (\<lambda>req.
     attempt (hyper_res (hy_http1 hy sock)) (\<lambda>sender.
     attempt (hyper_res (hy_send hy req sender)) (\<lambda>(response, on_upgrade).
     attempt (verify checks lib response key opts) (\<lambda>negotiated.
     attempt (hyper_res (hy_upgrade hy on_upgrade)) (\<lambda>upgraded.
       Finished (Ok (upgraded, negotiated))))))))"

definition handshake_with_request :: "('io, 's, 'z, 'y) platform \<Rightarrow> 'h http_lib \<Rightarrow> ('io, 'h, 'u, 'c, 'up) hyper \<Rightarrow>
    bytes \<Rightarrow> url \<Rightarrow> 'io \<Rightarrow> options \<Rightarrow> ('h, 'u) request_builder \<Rightarrow> ('s, 'z, 'y) crate_socket res exec" where
  "handshake_with_request pf lib hy random u sock opts b =
    attempt (http1_upgrade (pf_checks pf) (pf_zlib pf) lib hy random u sock opts b) (\<lambda>(upgraded, negotiated).
    expect (hy_downcast hy upgraded) (\<lambda>(sock, read_buf).
      Finished (Ok (new_socket pf Client sock read_buf negotiated))))"

definition handshake :: "('io, 's, 'z, 'y) platform \<Rightarrow> 'h http_lib \<Rightarrow> ('io, 'h, 'u, 'c, 'up) hyper \<Rightarrow>
    bytes \<Rightarrow> url \<Rightarrow> 'io \<Rightarrow> options \<Rightarrow> ('s, 'z, 'y) crate_socket res exec" where
  "handshake pf lib hy random u sock opts =
    handshake_with_request pf lib hy random u sock opts (request_builder lib)"

definition handshake_http1_upgraded :: "('up, 's, 'z, 'y) platform \<Rightarrow> 'h http_lib \<Rightarrow> ('io, 'h, 'u, 'c, 'up) hyper \<Rightarrow>
    bytes \<Rightarrow> url \<Rightarrow> 'io \<Rightarrow> options \<Rightarrow> ('h, 'u) request_builder \<Rightarrow> ('s, 'z, 'y) crate_socket res exec" where
  "handshake_http1_upgraded pf lib hy random u sock opts b =
    attempt (http1_upgrade (pf_checks pf) (pf_zlib pf) lib hy random u sock opts b) (\<lambda>(upgraded, negotiated).
      Finished (Ok (new_socket pf Client upgraded [] negotiated)))"

text \<open>Over a caller's \<open>reqwest\<close> client, whose builder reports its errors when it sends.\<close>

definition http_scheme :: "url \<Rightarrow> url" where
  "http_scheme u =
    (if u_scheme u = ''ws'' then u\<lparr>u_scheme := ''http''\<rparr>
     else if u_scheme u = ''wss'' then u\<lparr>u_scheme := ''https''\<rparr>
     else u)"

definition reqwest_upgrade :: "('up, 's, 'z, 'y) platform \<Rightarrow> 'h http_lib \<Rightarrow> ('h, 'u, 'up) reqwest \<Rightarrow>
    bytes \<Rightarrow> url \<Rightarrow> options \<Rightarrow> ('s, 'z, 'y) crate_socket res exec" where
  "reqwest_upgrade pf lib rw random u opts =
    expect (u_host u) (\<lambda>h.
    let key = generate_key lib random;
        req =
          with_header lib SEC_WEBSOCKET_VERSION (str_bytes ''13'')
          (with_header lib SEC_WEBSOCKET_KEY (str_bytes key)
          (with_header lib CONNECTION (str_bytes ''upgrade'')
          (with_header lib UPGRADE (str_bytes ''websocket'')
          (with_header lib HOST (str_bytes (authority lib h (u_port u)))
          (request_builder lib)))));
        req = (case opt_compression opts of
            Some compression \<Rightarrow> with_header lib SEC_WEBSOCKET_EXTENSIONS
              (str_bytes (display (extensions_of_options (pf_zlib pf) compression))) req
          | None \<Rightarrow> req)
    in attempt (reqwest_res (rw_send rw (http_scheme u) req)) (\<lambda>(response, on_upgrade).
       attempt (verify_upgrade (pf_checks pf) lib (rsp_status response) (rsp_headers response) key opts) (\<lambda>negotiated.
       attempt (reqwest_res (rw_upgrade rw on_upgrade)) (\<lambda>upgraded.
         Finished (Ok (new_socket pf Client upgraded [] negotiated))))))"

section \<open>The server\<close>

definition WEBSOCKET_PROTOCOL :: string where "WEBSOCKET_PROTOCOL = ''websocket''"

definition is_extended_connect :: "string \<Rightarrow> string option \<Rightarrow> bool" where
  "is_extended_connect rmethod protocol \<longleftrightarrow> rmethod = ''CONNECT'' \<and> protocol = Some WEBSOCKET_PROTOCOL"

definition switching_response :: "'h http_lib \<Rightarrow> string \<Rightarrow> 'h response_builder" where
  "switching_response lib accept =
    rsp_with_header lib SEC_WEBSOCKET_ACCEPT (str_bytes accept)
    (rsp_with_header lib UPGRADE (str_bytes ''websocket'')
    (rsp_with_header lib CONNECTION (str_bytes ''upgrade'')
    (response_builder lib SWITCHING_PROTOCOLS)))"

definition handshake_response :: "bool \<Rightarrow> 'h http_lib \<Rightarrow> ('h, 'u) http_request \<Rightarrow> 'h response_builder res" where
  "handshake_response http_two lib request =
    (if http_two \<and> is_extended_connect (req_method request) (req_protocol request)
     then Ok (response_builder lib OK_STATUS)
     else case lib_get lib SEC_WEBSOCKET_KEY (req_headers request) of
       None \<Rightarrow> Err MissingSecWebSocketKey
     | Some key \<Rightarrow> Ok (switching_response lib (sec_websocket_protocol lib key)))"

record 'u upgrade_fut =
  uf_inner :: 'u
  uf_negotiation :: "negotiation option"

definition answer_extensions :: "'h http_lib \<Rightarrow> extensions option \<Rightarrow> 'h response_builder \<Rightarrow> 'h response_builder" where
  "answer_extensions lib exts b =
    (case exts of
       Some e \<Rightarrow> rsp_with_header lib SEC_WEBSOCKET_EXTENSIONS (str_bytes (display e)) b
     | None \<Rightarrow> b)"

definition upgrade_with_options :: "bool \<Rightarrow> bool \<Rightarrow> bool \<Rightarrow> 'h http_lib \<Rightarrow> (('h, 'u) http_request \<Rightarrow> 'u) \<Rightarrow>
    ('h, 'u) http_request \<Rightarrow> options \<Rightarrow> ('h http_response \<times> 'u upgrade_fut) res exec" where
  "upgrade_with_options checks zlib http_two lib upgrade_on request opts =
    attempt (Finished (handshake_response http_two lib request)) (\<lambda>b.
      if lib_get lib SEC_WEBSOCKET_VERSION (req_headers request) \<noteq> Some (str_bytes ''13'')
      then Finished (Err InvalidSecWebsocketVersion)
      else
        let exts = agree zlib (opt_compression opts) (offers (lib_strs lib SEC_WEBSOCKET_EXTENSIONS (req_headers request)))
        in expect (answer_extensions lib exts b) (\<lambda>response.
           attempt (negotiation_new checks exts opts Server) (\<lambda>n.
             Finished (Ok (response, \<lparr>uf_inner = upgrade_on request, uf_negotiation = Some n\<rparr>)))))"

definition upgrade :: "bool \<Rightarrow> bool \<Rightarrow> bool \<Rightarrow> 'h http_lib \<Rightarrow> (('h, 'u) http_request \<Rightarrow> 'u) \<Rightarrow>
    ('h, 'u) http_request \<Rightarrow> ('h http_response \<times> 'u upgrade_fut) res exec" where
  "upgrade checks zlib http_two lib upgrade_on request =
    upgrade_with_options checks zlib http_two lib upgrade_on request options_default"

text \<open>\<open>UpgradeFut::poll\<close>; \<open>poll_upgrade\<close> polls the \<open>OnUpgrade\<close> of hyper.\<close>

definition upgrade_fut_poll :: "('up, 's, 'z, 'y) platform \<Rightarrow> ('u \<Rightarrow> (hyper_error + 'up) poll \<times> 'u) \<Rightarrow>
    'u upgrade_fut \<Rightarrow> ((hyper_error + ('s, 'z, 'y) crate_socket) poll \<times> 'u upgrade_fut) exec" where
  "upgrade_fut_poll pf poll_upgrade fut =
    (case poll_upgrade (uf_inner fut) of
       (Pending, u) \<Rightarrow> Finished (Pending, fut\<lparr>uf_inner := u\<rparr>)
     | (Ready (Err e), u) \<Rightarrow> Finished (Ready (Err e), fut\<lparr>uf_inner := u\<rparr>)
     | (Ready (Ok upgraded), u) \<Rightarrow>
         expect (uf_negotiation fut) (\<lambda>n.
           Finished (Ready (Ok (new_socket pf Server upgraded [] n)), \<lparr>uf_inner = u, uf_negotiation = None\<rparr>)))"

text \<open>The axum extractor; a rejection is a status code.\<close>

record 'u incoming_upgrade =
  iu_key :: "string option"
  iu_on_upgrade :: 'u
  iu_offers :: "extensions list"

definition from_request_parts :: "bool \<Rightarrow> 'h http_lib \<Rightarrow> ('h, 'u) http_request \<Rightarrow>
    (u16 + 'u incoming_upgrade) \<times> ('h, 'u) http_request" where
  "from_request_parts http_two lib parts =
    (let extended = http_two \<and> is_extended_connect (req_method parts) (req_protocol parts);
         key = (if extended then Ok None
           else case lib_get lib SEC_WEBSOCKET_KEY (req_headers parts) of
             None \<Rightarrow> Err BAD_REQUEST
           | Some key \<Rightarrow> Ok (Some (sec_websocket_protocol lib key)))
     in case key of
          Err status \<Rightarrow> (Err status, parts)
        | Ok key \<Rightarrow>
            if lib_get lib SEC_WEBSOCKET_VERSION (req_headers parts) \<noteq> Some (str_bytes ''13'')
            then (Err BAD_REQUEST, parts)
            else
              let os = offers (lib_strs lib SEC_WEBSOCKET_EXTENSIONS (req_headers parts)) in
              case req_on_upgrade parts of
                None \<Rightarrow> (Err BAD_REQUEST, parts)
              | Some on \<Rightarrow> (Ok \<lparr>iu_key = key, iu_on_upgrade = on, iu_offers = os\<rparr>, parts\<lparr>req_on_upgrade := None\<rparr>))"

definition iu_upgrade :: "bool \<Rightarrow> bool \<Rightarrow> 'h http_lib \<Rightarrow> 'u incoming_upgrade \<Rightarrow> options \<Rightarrow>
    ('h http_response \<times> 'u upgrade_fut) res exec" where
  "iu_upgrade checks zlib lib iu opts =
    (let b = (case iu_key iu of
           Some key \<Rightarrow> switching_response lib key
         | None \<Rightarrow> response_builder lib OK_STATUS);
         exts = agree zlib (opt_compression opts) (iu_offers iu)
     in expect (answer_extensions lib exts b) (\<lambda>response.
        attempt (negotiation_new checks exts opts Server) (\<lambda>n.
          Finished (Ok (response, \<lparr>uf_inner = iu_on_upgrade iu, uf_negotiation = Some n\<rparr>)))))"

section \<open>HTTP/2\<close>

definition extended_uri :: "'h http_lib \<Rightarrow> string \<Rightarrow> host \<Rightarrow> url \<Rightarrow> string" where
  "extended_uri lib scheme h u = scheme @ ''://'' @ authority lib h (u_port u) @ u_before_path u"

definition build_request :: "'h http_lib \<Rightarrow> bool \<Rightarrow> url \<Rightarrow> options \<Rightarrow> ('h, 'u) request_builder \<Rightarrow>
    ('h, 'u) http_request res exec" where
  "build_request lib zlib u opts b =
    attempt (Finished
      (if u_scheme u = ''ws'' \<or> u_scheme u = ''http'' then Ok ''http''
       else if u_scheme u = ''wss'' \<or> u_scheme u = ''https'' then Ok ''https''
       else Err InvalidHttpScheme)) (\<lambda>scheme.
    expect (u_host u) (\<lambda>h.
    expect (with_uri lib (extended_uri lib scheme h u) (with_method ''CONNECT'' b)) (\<lambda>request.
    let request = request\<lparr>req_headers := lib_insert lib SEC_WEBSOCKET_VERSION (str_bytes ''13'') (req_headers request)\<rparr>;
        request = request\<lparr>req_protocol := Some WEBSOCKET_PROTOCOL\<rparr>
    in proceed (offer_compression lib zlib opts request) (\<lambda>request. Finished (Ok request)))))"

definition http2_verify :: "bool \<Rightarrow> 'h http_lib \<Rightarrow> 'h http_response \<Rightarrow> options \<Rightarrow> negotiation res exec" where
  "http2_verify checks lib response opts =
    (if rsp_status response \<noteq> OK_STATUS then Finished (Err (InvalidStatusCode (rsp_status response)))
     else negotiation_new checks (from_headers (lib_strs lib SEC_WEBSOCKET_EXTENSIONS (rsp_headers response))) opts Client)"

definition PROTOCOL_ERROR :: u32 where "PROTOCOL_ERROR = 1"

fun connect_error_loop :: "hyper_error \<Rightarrow> u32 option option list \<Rightarrow> ws_error" where
  "connect_error_loop err [] = HTTPError (hyper_message err)"
| "connect_error_loop err (cause # causes) =
    (if cause = Some (Some PROTOCOL_ERROR) then ExtendedConnectNotSupported
     else connect_error_loop err causes)"

definition connect_error :: "hyper_error \<Rightarrow> ws_error" where
  "connect_error err = connect_error_loop err (hyper_chain err)"

definition connect_res :: "hyper_error + 'a \<Rightarrow> 'a res exec" where
  "connect_res r = Finished (case r of Err e \<Rightarrow> Err (connect_error e) | Ok a \<Rightarrow> Ok a)"

definition http2_handshake :: "('up, 's, 'z, 'y) platform \<Rightarrow> 'h http_lib \<Rightarrow> ('io, 'h, 'u, 'c, 'up) hyper \<Rightarrow>
    url \<Rightarrow> 'io \<Rightarrow> options \<Rightarrow> ('h, 'u) request_builder \<Rightarrow> ('s, 'z, 'y) crate_socket res exec" where
  "http2_handshake pf lib hy u sock opts b =
    attempt (build_request lib (pf_zlib pf) u opts b) (\<lambda>request.
    attempt (hyper_res (hy_http2 hy sock)) (\<lambda>sender.
    attempt (connect_res (hy_send hy request sender)) (\<lambda>(response, on_upgrade).
    attempt (http2_verify (pf_checks pf) lib response opts) (\<lambda>negotiated.
    attempt (connect_res (hy_upgrade hy on_upgrade)) (\<lambda>upgraded.
      Finished (Ok (new_socket pf Client upgraded [] negotiated)))))))"

end
