(* ===== verification/Handshake_Steps.thy ===== *)
theory Handshake_Steps
  imports Handshake
begin

text \<open>
  The steps of the handshakes one by one, over any libraries that keep the laws of
  \<open>http_crates\<close>: building a request and a response never panics, which headers they have, and
  that the client accepts a response of the server.
\<close>

section \<open>Settings\<close>

text \<open>Limits that do not overflow when they are doubled.\<close>

definition limit_ok :: "bool \<Rightarrow> options \<Rightarrow> bool" where
  "limit_ok checks opts \<longleftrightarrow>
    \<not> checks \<or> (case opt_max_payload_read opts of None \<Rightarrow> True | Some n \<Rightarrow> n * 2 < 2 ^ 64)"

lemma negotiation_succeeds:
  assumes "limit_ok checks opts" "exts = None \<or> opt_compression opts \<noteq> None"
  shows "\<exists>n. negotiation_new checks exts opts rl = Finished (Ok n)"
proof -
  obtain c where "resolve exts (map_option do_level (opt_compression opts)) rl = Ok c"
    using assms(2) by (cases exts; cases rl) (auto simp: resolve_def Let_def)
  then show ?thesis using assms(1)
    by (auto simp: negotiation_new_def limit_ok_def twice_def split: option.splits)
qed

section \<open>Visible strings\<close>

lemma visible_display_bits: "visible name \<Longrightarrow> visible (display_bits name v)"
  by (auto simp: display_bits_def visible_def split: option.split
      intro: visible_dec [unfolded visible_def])

lemma visible_display: "visible (display e)"
  using visible_display_bits [of "''server_max_window_bits''"] visible_display_bits [of "''client_max_window_bits''"]
  by (simp add: display_def) (simp add: visible_def PERMESSAGE_DEFLATE_def)

lemma visible_literals: "visible ''13''" "visible ''upgrade''" "visible ''websocket''"
  by (simp_all add: visible_def)

section \<open>What the lemmas speak of\<close>

text \<open>The extension headers of a request, those of an answer, and requests that can be built.\<close>

definition offered_headers :: "bool \<Rightarrow> options \<Rightarrow> bytes list \<Rightarrow> bytes list" where
  "offered_headers zlib opts own =
    (case opt_compression opts of None \<Rightarrow> own | Some d \<Rightarrow> [str_bytes (display (extensions_of_options zlib d))])"

definition answered :: "extensions option \<Rightarrow> bytes list" where
  "answered exts = (case exts of None \<Rightarrow> [] | Some e \<Rightarrow> [str_bytes (display e)])"

definition request_ok :: "'h http_lib \<Rightarrow> url \<Rightarrow> ('h, 'u) http_request \<Rightarrow> bool" where
  "request_ok lib u r \<longleftrightarrow> lib_uri_ok lib (u_before_path u) \<and>
     (lib_get lib HOST (req_headers r) \<noteq> None \<or> u_host u \<noteq> None \<and> u_known_port u \<noteq> None)"

definition extended_ok :: "'h http_lib \<Rightarrow> url \<Rightarrow> bool" where
  "extended_ok lib u \<longleftrightarrow> web_scheme (u_scheme u) \<and>
     (\<exists>h. u_host u = Some h \<and> (\<forall>scheme. lib_uri_ok lib (extended_uri lib scheme h u)))"

text \<open>An answer of the server as the client has to find it.\<close>

definition answer_ok :: "'h http_lib \<Rightarrow> bool \<Rightarrow> bytes \<Rightarrow> extensions option \<Rightarrow> 'h http_response \<Rightarrow> bool" where
  "answer_ok lib extended key exts rsp \<longleftrightarrow>
     lib_all lib SEC_WEBSOCKET_EXTENSIONS (rsp_headers rsp) = answered exts \<and>
     lib_all lib SEC_WEBSOCKET_PROTOCOL (rsp_headers rsp) = [] \<and>
     (if extended then rsp_status rsp = OK_STATUS
      else rsp_status rsp = SWITCHING_PROTOCOLS \<and>
        lib_all lib UPGRADE (rsp_headers rsp) = [str_bytes ''websocket''] \<and>
        lib_all lib CONNECTION (rsp_headers rsp) = [str_bytes ''upgrade''] \<and>
        lib_all lib SEC_WEBSOCKET_ACCEPT (rsp_headers rsp) = [str_bytes (sec_websocket_protocol lib key)])"

section \<open>Requests and answers\<close>

context http_crates
begin

lemma get_append:
  "lib_get lib n (lib_append lib m v h) =
    (case lib_get lib n h of None \<Rightarrow> if n = m then Some v else None | Some x \<Rightarrow> Some x)"
  by (simp add: lib_get_def all_append split: list.splits)

lemma visible_authority: "visible (authority lib h port)"
proof -
  have "visible '':''" by (simp add: visible_def)
  then show ?thesis using host_visible [of h] by (simp add: authority_def del: append_Cons split: option.split)
qed

lemma with_header_visible:
  "visible s \<Longrightarrow> with_header lib n (str_bytes s) (Some r) = Some (r\<lparr>req_headers := lib_append lib n (str_bytes s) (req_headers r)\<rparr>)"
  by (simp add: with_header_def value_visible)

lemma rsp_header_visible:
  "visible s \<Longrightarrow> rsp_with_header lib n (str_bytes s) (Some r) = Some (r\<lparr>rsp_headers := lib_append lib n (str_bytes s) (rsp_headers r)\<rparr>)"
  by (simp add: rsp_with_header_def value_visible)

lemma strs_single: "visible s \<Longrightarrow> lib_all lib n h = [str_bytes s] \<Longrightarrow> lib_strs lib n h = [Some s]"
  by (simp add: lib_strs_def to_str_visible)

lemma offer_compression_runs:
  obtains h where "offer_compression lib zlib opts req = Finished (req\<lparr>req_headers := h\<rparr>)"
    "\<forall>n. lib_all lib n h = (if n = SEC_WEBSOCKET_EXTENSIONS
      then offered_headers zlib opts (lib_all lib n (req_headers req)) else lib_all lib n (req_headers req))"
proof (cases "opt_compression opts")
  case None
  then show ?thesis using that [of "req_headers req"] by (simp add: offer_compression_def offered_headers_def)
next
  case (Some d)
  let ?v = "str_bytes (display (extensions_of_options zlib d))"
  show ?thesis using that [of "lib_insert lib SEC_WEBSOCKET_EXTENSIONS ?v (req_headers req)"] Some
    by (simp add: offer_compression_def offered_headers_def value_visible [OF visible_display] all_insert)
qed

lemma default_host_runs:
  fixes r :: "('h, 'u) http_request"
  assumes "request_ok lib u r"
  obtains h where "default_host lib u (Some r) = Finished (Some (r\<lparr>req_headers := h\<rparr>))"
    "\<forall>n. n \<noteq> HOST \<longrightarrow> lib_all lib n h = lib_all lib n (req_headers r)"
proof (cases "lib_get lib HOST (req_headers r)")
  case None
  then obtain a port where "u_host u = Some a" "u_known_port u = Some port"
    using assms by (auto simp: request_ok_def)
  then show ?thesis
    using that [of "lib_append lib HOST (str_bytes (authority lib a (if u_port u \<noteq> None then Some port else None))) (req_headers r)"]
      None by (simp add: default_host_def all_append with_header_visible visible_authority)
next
  case (Some v)
  then show ?thesis using that [of "req_headers r"] by (simp add: default_host_def)
qed

lemma http1_request_runs:
  fixes r :: "('h, 'u) http_request"
  assumes "request_ok lib u r" "visible key"
  obtains req where "http1_request lib zlib key u opts (Some r) = Finished req"
    "req_method req = ''GET''" "req_protocol req = req_protocol r"
    "lib_all lib SEC_WEBSOCKET_KEY (req_headers req) = lib_all lib SEC_WEBSOCKET_KEY (req_headers r) @ [str_bytes key]"
    "lib_all lib SEC_WEBSOCKET_VERSION (req_headers req) = lib_all lib SEC_WEBSOCKET_VERSION (req_headers r) @ [str_bytes ''13'']"
    "lib_all lib SEC_WEBSOCKET_EXTENSIONS (req_headers req) =
      offered_headers zlib opts (lib_all lib SEC_WEBSOCKET_EXTENSIONS (req_headers r))"
proof -
  obtain h where h: "default_host lib u (Some r) = Finished (Some (r\<lparr>req_headers := h\<rparr>))"
    "\<forall>n. n \<noteq> HOST \<longrightarrow> lib_all lib n h = lib_all lib n (req_headers r)"
    by (rule default_host_runs [OF assms(1)])
  define h' where "h' = lib_append lib SEC_WEBSOCKET_VERSION (str_bytes ''13'') (lib_append lib SEC_WEBSOCKET_KEY (str_bytes key)
     (lib_append lib CONNECTION (str_bytes ''upgrade'') (lib_append lib UPGRADE (str_bytes ''websocket'') h)))"
  define req where "req = r\<lparr>req_method := ''GET'', req_uri := u_before_path u, req_headers := h'\<rparr>"
  have run: "http1_request lib zlib key u opts (Some r) = offer_compression lib zlib opts req"
    using assms h(1)
    by (simp add: http1_request_def with_method_def with_uri_def request_ok_def with_header_visible visible_literals
        req_def h'_def)
  obtain g where "offer_compression lib zlib opts req = Finished (req\<lparr>req_headers := g\<rparr>)"
    "\<forall>n. lib_all lib n g = (if n = SEC_WEBSOCKET_EXTENSIONS
      then offered_headers zlib opts (lib_all lib n (req_headers req)) else lib_all lib n (req_headers req))"
    by (rule offer_compression_runs)
  then show ?thesis using that [of "req\<lparr>req_headers := g\<rparr>"] run h(2)
    by (simp add: req_def h'_def all_append header_names)
qed

lemma build_request_runs:
  fixes r :: "('h, 'u) http_request"
  assumes "extended_ok lib u"
  obtains req where "build_request lib zlib u opts (Some r) = Finished (Ok req)"
    "req_method req = ''CONNECT''" "req_protocol req = Some WEBSOCKET_PROTOCOL"
    "lib_all lib SEC_WEBSOCKET_VERSION (req_headers req) = [str_bytes ''13'']"
    "lib_all lib SEC_WEBSOCKET_EXTENSIONS (req_headers req) =
      offered_headers zlib opts (lib_all lib SEC_WEBSOCKET_EXTENSIONS (req_headers r))"
    "lib_all lib SEC_WEBSOCKET_KEY (req_headers req) = lib_all lib SEC_WEBSOCKET_KEY (req_headers r)"
proof -
  obtain h scheme where h: "u_host u = Some h" "lib_uri_ok lib (extended_uri lib scheme h u)"
    and scheme: "(if u_scheme u = ''ws'' \<or> u_scheme u = ''http'' then Ok ''http''
       else if u_scheme u = ''wss'' \<or> u_scheme u = ''https'' then Ok ''https''
       else Err InvalidHttpScheme) = (Ok scheme :: string res)"
    using assms by (auto simp: extended_ok_def web_scheme_def)
  define req where "req = r\<lparr>req_method := ''CONNECT'', req_uri := extended_uri lib scheme h u,
     req_headers := lib_insert lib SEC_WEBSOCKET_VERSION (str_bytes ''13'') (req_headers r),
     req_protocol := Some WEBSOCKET_PROTOCOL\<rparr>"
  have run: "build_request lib zlib u opts (Some r) =
    proceed (offer_compression lib zlib opts req) (\<lambda>request. Finished (Ok request))"
    unfolding build_request_def scheme
    by (simp add: with_method_def with_uri_def h req_def Let_def)
  obtain g where "offer_compression lib zlib opts req = Finished (req\<lparr>req_headers := g\<rparr>)"
    "\<forall>n. lib_all lib n g = (if n = SEC_WEBSOCKET_EXTENSIONS
      then offered_headers zlib opts (lib_all lib n (req_headers req)) else lib_all lib n (req_headers req))"
    by (rule offer_compression_runs)
  then show ?thesis using that [of "req\<lparr>req_headers := g\<rparr>"] run
    by (simp add: req_def all_insert header_names)
qed

lemma get_first: "lib_all lib n h = v # vs \<Longrightarrow> lib_get lib n h = Some v"
  by (simp add: lib_get_def)

lemma switching_response_runs:
  assumes "visible accept"
  obtains h where "switching_response lib accept = Some \<lparr>rsp_status = SWITCHING_PROTOCOLS, rsp_headers = h\<rparr>"
    "lib_all lib UPGRADE h = [str_bytes ''websocket'']" "lib_all lib CONNECTION h = [str_bytes ''upgrade'']"
    "lib_all lib SEC_WEBSOCKET_ACCEPT h = [str_bytes accept]" "lib_all lib SEC_WEBSOCKET_EXTENSIONS h = []"
    "lib_all lib SEC_WEBSOCKET_PROTOCOL h = []"
  using that assms
  by (simp add: switching_response_def response_builder_def rsp_header_visible visible_literals all_append all_empty
      header_names)

lemma answer_extensions_runs:
  obtains h' where "answer_extensions lib exts (Some \<lparr>rsp_status = status, rsp_headers = h\<rparr>) =
      Some \<lparr>rsp_status = status, rsp_headers = h'\<rparr>"
    "\<forall>n. lib_all lib n h' = lib_all lib n h @ (if n = SEC_WEBSOCKET_EXTENSIONS then answered exts else [])"
proof (cases exts)
  case None
  then show ?thesis using that [of h] by (simp add: answer_extensions_def answered_def)
next
  case (Some e)
  then show ?thesis using that [of "lib_append lib SEC_WEBSOCKET_EXTENSIONS (str_bytes (display e)) h"]
    by (simp add: answer_extensions_def answered_def rsp_header_visible visible_display all_append)
qed

lemma upgrade_answers:
  fixes req :: "('h, 'u) http_request"
  assumes "extended = (http_two \<and> is_extended_connect (req_method req) (req_protocol req))"
    and "\<not> extended \<Longrightarrow> lib_get lib SEC_WEBSOCKET_KEY (req_headers req) = Some key"
    and "lib_get lib SEC_WEBSOCKET_VERSION (req_headers req) = Some (str_bytes ''13'')"
    and "exts = agree zlib (opt_compression opts) (offers (lib_strs lib SEC_WEBSOCKET_EXTENSIONS (req_headers req)))"
    and "negotiation_new checks exts opts Server = Finished (Ok n)"
  obtains rsp where "upgrade_with_options checks zlib http_two lib upgrade_on req opts =
      Finished (Ok (rsp, \<lparr>uf_inner = upgrade_on req, uf_negotiation = Some n\<rparr>))"
    "answer_ok lib extended key exts rsp"
proof -
  have accept: "visible (sec_websocket_protocol lib key)" by (simp add: sec_websocket_protocol_def base64_visible)
  obtain g where g: "switching_response lib (sec_websocket_protocol lib key) = Some \<lparr>rsp_status = SWITCHING_PROTOCOLS, rsp_headers = g\<rparr>"
    "lib_all lib UPGRADE g = [str_bytes ''websocket'']" "lib_all lib CONNECTION g = [str_bytes ''upgrade'']"
    "lib_all lib SEC_WEBSOCKET_ACCEPT g = [str_bytes (sec_websocket_protocol lib key)]" "lib_all lib SEC_WEBSOCKET_EXTENSIONS g = []"
    "lib_all lib SEC_WEBSOCKET_PROTOCOL g = []"
    using accept by (rule switching_response_runs)
  define status h where "status = (if extended then OK_STATUS else SWITCHING_PROTOCOLS)" and "h = (if extended then lib_empty lib else g)"
  obtain h' where h': "answer_extensions lib exts (Some \<lparr>rsp_status = status, rsp_headers = h\<rparr>) =
      Some \<lparr>rsp_status = status, rsp_headers = h'\<rparr>"
    "\<forall>n. lib_all lib n h' = lib_all lib n h @ (if n = SEC_WEBSOCKET_EXTENSIONS then answered exts else [])"
    by (rule answer_extensions_runs)
  have b: "handshake_response http_two lib req = Ok (Some \<lparr>rsp_status = status, rsp_headers = h\<rparr>)"
    using assms(1,2) g(1) by (auto simp: handshake_response_def response_builder_def status_def h_def)
  show ?thesis
  proof (rule that)
    show "upgrade_with_options checks zlib http_two lib upgrade_on req opts =
        Finished (Ok (\<lparr>rsp_status = status, rsp_headers = h'\<rparr>, \<lparr>uf_inner = upgrade_on req, uf_negotiation = Some n\<rparr>))"
      using assms(3,4,5) h'(1) by (simp add: upgrade_with_options_def b Let_def)
    show "answer_ok lib extended key exts \<lparr>rsp_status = status, rsp_headers = h'\<rparr>"
      using h'(2) g by (simp add: answer_ok_def status_def h_def all_empty header_names)
  qed
qed

lemma upgrade_ok_answer:
  fixes req :: "('h, 'u) http_request"
  assumes "upgrade_with_options checks zlib http_two lib upgrade_on req opts = Finished (Ok (rsp, fut))"
    and "\<not> is_extended_connect (req_method req) (req_protocol req)"
    and "lib_get lib SEC_WEBSOCKET_KEY (req_headers req) = Some key"
  shows "answer_ok lib False key
    (agree zlib (opt_compression opts) (offers (lib_strs lib SEC_WEBSOCKET_EXTENSIONS (req_headers req)))) rsp"
proof -
  let ?exts = "agree zlib (opt_compression opts) (offers (lib_strs lib SEC_WEBSOCKET_EXTENSIONS (req_headers req)))"
  obtain n where n: "negotiation_new checks ?exts opts Server = Finished (Ok n)"
    and v: "lib_get lib SEC_WEBSOCKET_VERSION (req_headers req) = Some (str_bytes ''13'')"
    using assms(1) by (auto simp: upgrade_with_options_def Let_def ok_iff split: if_splits)
  obtain rsp' where "upgrade_with_options checks zlib http_two lib upgrade_on req opts =
      Finished (Ok (rsp', \<lparr>uf_inner = upgrade_on req, uf_negotiation = Some n\<rparr>))" "answer_ok lib False key ?exts rsp'"
    by (rule upgrade_answers [OF _ _ v refl n, of False http_two key]) (use assms(2,3) in simp_all)
  then show ?thesis using assms(1) by simp
qed

lemma answered_parsed:
  assumes "\<And>e. exts = Some e \<Longrightarrow> from_str (display e) = Some e"
    and "lib_all lib SEC_WEBSOCKET_EXTENSIONS h = answered exts"
  shows "from_headers (lib_strs lib SEC_WEBSOCKET_EXTENSIONS h) = exts"
  using assms by (cases exts) (simp_all add: lib_strs_def answered_def from_headers_def to_str_visible visible_display)

lemma switching_headers:
  assumes "lib_all lib UPGRADE h = [str_bytes ''websocket'']" "lib_all lib CONNECTION h = [str_bytes ''upgrade'']"
  shows "upgrade_to_websocket lib h" "connection_lists_upgrade lib h"
  by (simp_all add: upgrade_to_websocket_def get_first [OF assms(1)] to_str_visible visible_literals
      connection_lists_upgrade_def strs_single [OF visible_literals(2) assms(2)] map_filter_simps
      eq_ignore_ascii_case_def trim_blanks_def blank_def)

lemma verify_answer:
  assumes "answer_ok lib False (str_bytes key) exts rsp" "\<And>e. exts = Some e \<Longrightarrow> from_str (display e) = Some e"
  shows "verify checks lib rsp key opts = negotiation_new checks exts opts Client"
proof -
  have h: "rsp_status rsp = SWITCHING_PROTOCOLS" "lib_all lib UPGRADE (rsp_headers rsp) = [str_bytes ''websocket'']"
    "lib_all lib CONNECTION (rsp_headers rsp) = [str_bytes ''upgrade'']"
    "lib_all lib SEC_WEBSOCKET_ACCEPT (rsp_headers rsp) = [str_bytes (sec_websocket_protocol lib (str_bytes key))]"
    "from_headers (lib_strs lib SEC_WEBSOCKET_EXTENSIONS (rsp_headers rsp)) = exts"
    using assms answered_parsed by (simp_all add: answer_ok_def)
  have "verify_accept lib (lib_get lib SEC_WEBSOCKET_ACCEPT (rsp_headers rsp)) key = Ok ()"
    by (simp add: verify_accept_def get_first [OF h(4)] Let_def)
  then show ?thesis
    by (simp add: verify_def verify_upgrade_def h(1,5) is_redirection_def status_codes switching_headers [OF h(2,3)])
qed

lemma verify_foreign_answer:
  assumes "answer_ok lib False k exts rsp" "sec_websocket_protocol lib k \<noteq> sec_websocket_protocol lib (str_bytes key)"
  shows "verify checks lib rsp key opts = Finished (Err InvalidUpgradeHeader)"
proof -
  have h: "rsp_status rsp = SWITCHING_PROTOCOLS" "lib_all lib UPGRADE (rsp_headers rsp) = [str_bytes ''websocket'']"
    "lib_all lib CONNECTION (rsp_headers rsp) = [str_bytes ''upgrade'']"
    "lib_all lib SEC_WEBSOCKET_ACCEPT (rsp_headers rsp) = [str_bytes (sec_websocket_protocol lib k)]"
    using assms by (simp_all add: answer_ok_def)
  have "str_bytes s = str_bytes t \<Longrightarrow> visible s \<Longrightarrow> visible t \<Longrightarrow> s = t" for s t
    using to_str_visible by (metis option.inject)
  then have "str_bytes (sec_websocket_protocol lib k) \<noteq> str_bytes (sec_websocket_protocol lib (str_bytes key))"
    using assms(2) base64_visible by (metis sec_websocket_protocol_def)
  then have "verify_accept lib (lib_get lib SEC_WEBSOCKET_ACCEPT (rsp_headers rsp)) key = Err InvalidUpgradeHeader"
    by (simp add: verify_accept_def get_first [OF h(4)] Let_def)
  then show ?thesis
    by (simp add: verify_def verify_upgrade_def h(1) is_redirection_def status_codes switching_headers [OF h(2,3)])
qed

lemma http2_verify_answer:
  assumes "answer_ok lib True key exts rsp" "\<And>e. exts = Some e \<Longrightarrow> from_str (display e) = Some e"
  shows "http2_verify checks lib rsp opts = negotiation_new checks exts opts Client"
  using assms answered_parsed [of exts "rsp_headers rsp"] by (simp add: answer_ok_def http2_verify_def)

end

end
