(* ===== verification/Handshake_Checks.thy ===== *)
theory Handshake_Checks
  imports Handshake
begin

text \<open>
  What the checks of the handshakes come to: which answers a client accepts, stated over the
  grammar of the headers, and that the axum extractor and the plain upgrade of the server are
  one function.
\<close>

section \<open>Comma-separated headers\<close>

text \<open>A list of options as RFC 7230 has it: elements without commas, with commas between.\<close>

fun join :: "string list \<Rightarrow> string" where
  "join [] = []"
| "join [t] = t"
| "join (t # ts) = t @ '','' @ join ts"

definition comma_list :: "string list \<Rightarrow> string \<Rightarrow> bool" where
  "comma_list ts s \<longleftrightarrow> ts \<noteq> [] \<and> s = join ts \<and> (\<forall>t\<in>set ts. CHR '','' \<notin> set t)"

text \<open>An element that is the option \<open>name\<close>, in any case and with blanks around it.\<close>

definition is_option :: "string \<Rightarrow> string \<Rightarrow> bool" where
  "is_option name t \<longleftrightarrow>
    (\<exists>before opt after. t = before @ opt @ after \<and> list_all blank before \<and> list_all blank after \<and>
      eq_ignore_ascii_case opt name)"

lemma split_commas_not_Nil [simp]: "split_commas s \<noteq> []"
  by (cases s) (auto split: list.splits)

lemma split_commas_list: "comma_list (split_commas s) s"
proof (induction s)
  case (Cons c s)
  obtain t ts where ts: "split_commas s = t # ts" by (cases "split_commas s") auto
  then show ?case using Cons by (cases ts) (auto simp: comma_list_def)
qed (simp add: comma_list_def)

lemma split_commas_single: "CHR '','' \<notin> set t \<Longrightarrow> split_commas t = [t]"
  by (induction t) auto

lemma split_commas_append: "CHR '','' \<notin> set t \<Longrightarrow> split_commas (t @ '','' @ s) = t # split_commas s"
  by (induction t) auto

lemma split_commas_join: "comma_list ts s \<Longrightarrow> split_commas s = ts"
proof (induction ts arbitrary: s rule: join.induct)
  case (3 t t' ts)
  then have "split_commas (join (t' # ts)) = t' # ts" by (simp add: comma_list_def)
  then show ?case using 3(2) split_commas_append [of t "join (t' # ts)"] by (simp add: comma_list_def)
qed (simp_all add: comma_list_def split_commas_single)

lemma split_commas_iff: "split_commas s = ts \<longleftrightarrow> comma_list ts s"
  using split_commas_list split_commas_join by auto

lemma dropWhile_blank: "\<exists>before. s = before @ dropWhile blank s \<and> list_all blank before"
  by (rule exI [of _ "takeWhile blank s"]) (auto simp: list_all_iff dest: set_takeWhileD)

lemma trim_blanks_split: "\<exists>before after. t = before @ trim_blanks t @ after \<and> list_all blank before \<and> list_all blank after"
proof -
  obtain before where b: "t = before @ dropWhile blank t" "list_all blank before" using dropWhile_blank by blast
  obtain after where "rev (dropWhile blank t) = after @ dropWhile blank (rev (dropWhile blank t))" "list_all blank after"
    using dropWhile_blank by blast
  then have "dropWhile blank t = trim_blanks t @ rev after" "list_all blank (rev after)"
    by (metis rev_append rev_rev_ident trim_blanks_def, simp add: list_all_iff)
  then show ?thesis using b by metis
qed

lemma trim_blanks_core:
  assumes "list_all blank before" "list_all blank after" "opt \<noteq> []" "\<not> blank (hd opt)" "\<not> blank (last opt)"
  shows "trim_blanks (before @ opt @ after) = opt"
proof -
  have "dropWhile blank (before @ opt @ after) = opt @ after"
    using assms by (cases opt) (auto simp: dropWhile_append list_all_iff)
  moreover have "dropWhile blank (rev after @ rev opt) = rev opt"
    using assms by (cases opt rule: rev_cases) (auto simp: dropWhile_append list_all_iff)
  ultimately show ?thesis by (simp add: trim_blanks_def)
qed

lemma lower_blank: "blank c \<Longrightarrow> lower c = c"
  by (auto simp: blank_def lower_def Let_def)

lemma upgrade_not_blank:
  assumes "eq_ignore_ascii_case opt ''upgrade''"
  shows "opt \<noteq> []" "\<not> blank (hd opt)" "\<not> blank (last opt)"
proof -
  have l: "map lower opt = ''upgrade''" using assms by (simp add: eq_ignore_ascii_case_def lower_def)
  then show ne: "opt \<noteq> []" by auto
  have "lower (hd opt) = CHR ''u''" "lower (last opt) = CHR ''e''"
    using l ne by (simp_all flip: hd_map last_map)
  then show "\<not> blank (hd opt)" "\<not> blank (last opt)"
    using lower_blank by (force simp: blank_def)+
qed

lemma trim_is_option: "eq_ignore_ascii_case (trim_blanks t) ''upgrade'' \<longleftrightarrow> is_option ''upgrade'' t"
proof
  assume "eq_ignore_ascii_case (trim_blanks t) ''upgrade''"
  then show "is_option ''upgrade'' t" using trim_blanks_split [of t] unfolding is_option_def by blast
next
  assume "is_option ''upgrade'' t"
  then obtain before opt after where "t = before @ opt @ after" "list_all blank before" "list_all blank after"
    "eq_ignore_ascii_case opt ''upgrade''" unfolding is_option_def by blast
  then show "eq_ignore_ascii_case (trim_blanks t) ''upgrade''"
    using trim_blanks_core upgrade_not_blank by simp
qed

lemma connection_lists_upgrade_iff:
  "connection_lists_upgrade lib h \<longleftrightarrow>
    (\<exists>v\<in>set (lib_all lib CONNECTION h). \<exists>s ts t. lib_to_str lib v = Some s \<and> comma_list ts s \<and> t \<in> set ts \<and> is_option ''upgrade'' t)"
  by (fastforce simp: connection_lists_upgrade_def lib_strs_def list_ex_iff List.map_filter_def trim_is_option
      split_commas_iff [symmetric])

lemma upgrade_to_websocket_iff:
  "upgrade_to_websocket lib h \<longleftrightarrow>
    (\<exists>v s. lib_get lib UPGRADE h = Some v \<and> lib_to_str lib v = Some s \<and> eq_ignore_ascii_case s ''websocket'')"
  by (auto simp: upgrade_to_websocket_def split: option.splits bind_splits)

lemma verify_accept_ok:
  "verify_accept lib accept key = Ok u \<longleftrightarrow> accept = Some (str_bytes (sec_websocket_protocol lib (str_bytes key)))"
  by (auto simp: verify_accept_def Let_def split: option.splits if_splits)

lemma verify_ok:
  "verify checks lib rsp key opts = Finished (Ok n) \<longleftrightarrow>
    rsp_status rsp = SWITCHING_PROTOCOLS \<and> upgrade_to_websocket lib (rsp_headers rsp) \<and>
    connection_lists_upgrade lib (rsp_headers rsp) \<and>
    lib_get lib SEC_WEBSOCKET_ACCEPT (rsp_headers rsp) = Some (str_bytes (sec_websocket_protocol lib (str_bytes key))) \<and>
    negotiation_new checks (from_headers (lib_strs lib SEC_WEBSOCKET_EXTENSIONS (rsp_headers rsp))) opts Client = Finished (Ok n)"
  by (auto simp: verify_def verify_upgrade_def is_redirection_def status_codes ok_iff verify_accept_ok)

section \<open>Properties\<close>

text \<open>
  C14. A client accepts nothing but an answer to its own key.  A handshake that returns a
  connection has sent the request and got an answer with status 101, an \<open>Upgrade\<close> header
  that is \<open>websocket\<close> in any case, a \<open>Connection\<close> header that lists \<open>upgrade\<close> among its
  elements, and the \<open>Sec-WebSocket-Accept\<close> value that belongs to the key of this very
  request; the connection is the stream hyper hands back, with the bytes read past the
  answer, under the settings the answer names.
\<close>

theorem client_accepts_own_answer:
  assumes "handshake_with_request pf lib hy random u chan opts b = Finished (Ok ws)"
  shows "\<exists>req c rsp on up sock buf n.
    http1_request lib (pf_zlib pf) (generate_key lib random) u opts b = Finished req \<and>
    hy_http1 hy chan = Ok c \<and> hy_send hy req c = Ok (rsp, on) \<and>
    rsp_status rsp = 101 \<and>
    (\<exists>v s. lib_get lib UPGRADE (rsp_headers rsp) = Some v \<and> lib_to_str lib v = Some s \<and> eq_ignore_ascii_case s ''websocket'') \<and>
    (\<exists>v\<in>set (lib_all lib CONNECTION (rsp_headers rsp)). \<exists>s ts t.
      lib_to_str lib v = Some s \<and> comma_list ts s \<and> t \<in> set ts \<and> is_option ''upgrade'' t) \<and>
    lib_get lib SEC_WEBSOCKET_ACCEPT (rsp_headers rsp) =
      Some (str_bytes (lib_base64 lib (lib_sha1 lib (str_bytes (generate_key lib random) @ str_bytes magic)))) \<and>
    negotiation_new (pf_checks pf) (from_headers (lib_strs lib SEC_WEBSOCKET_EXTENSIONS (rsp_headers rsp))) opts Client = Finished (Ok n) \<and>
    hy_upgrade hy on = Ok up \<and> hy_downcast hy up = Some (sock, buf) \<and> ws = new_socket pf Client sock buf n"
proof -
  obtain up n sock buf where 1: "http1_upgrade (pf_checks pf) (pf_zlib pf) lib hy random u chan opts b = Finished (Ok (up, n))"
    "hy_downcast hy up = Some (sock, buf)" "ws = new_socket pf Client sock buf n"
    using assms by (auto simp: handshake_with_request_def ok_iff)
  then obtain req c rsp on where 2: "http1_request lib (pf_zlib pf) (generate_key lib random) u opts b = Finished req"
    "hy_http1 hy chan = Ok c" "hy_send hy req c = Ok (rsp, on)" "hy_upgrade hy on = Ok up"
    "verify (pf_checks pf) lib rsp (generate_key lib random) opts = Finished (Ok n)"
    by (auto simp: http1_upgrade_def Let_def ok_iff)
  from 2(5) show ?thesis using 1 2(1-4)
    unfolding verify_ok upgrade_to_websocket_iff connection_lists_upgrade_iff sec_websocket_protocol_def status_codes
    by blast
qed

text \<open>
  C24. The axum extractor followed by its upgrade is the plain upgrade: for every request it
  gives the same response, negotiation and upgrade; what it rejects with 400 is exactly what
  the plain upgrade rejects for its missing key or wrong version.
\<close>

theorem incoming_upgrade_same:
  assumes "req_on_upgrade req = Some on" "upgrade_on req = on"
  shows "case fst (from_request_parts http_two lib req) of
      Ok iu \<Rightarrow> iu_upgrade checks zlib lib iu opts = upgrade_with_options checks zlib http_two lib upgrade_on req opts
    | Err status \<Rightarrow> status = 400 \<and> upgrade_with_options checks zlib http_two lib upgrade_on req opts \<in>
        {Finished (Err MissingSecWebSocketKey), Finished (Err InvalidSecWebsocketVersion)}"
  using assms
  by (auto simp: from_request_parts_def Let_def iu_upgrade_def upgrade_with_options_def handshake_response_def
      status_codes split: option.splits)

end
