(* ===== verification/Offers.thy ===== *)
theory Offers
  imports Extensions
begin

text \<open>
  The offer a client prints, read by the parser of the server: the two are written against
  different grammars (\<open>Display\<close> in \<open>compression.rs\<close>, \<open>parse_list\<close> in \<open>compression/offer.rs\<close>), and
  they agree on every offer RFC 7692 allows.
\<close>

section \<open>Printed parameters\<close>

fun print_param :: "string \<times> string option \<Rightarrow> string" where
  "print_param (key, None) = ''; '' @ key"
| "print_param (key, Some v) = ''; '' @ key @ ''='' @ v"

definition printable :: "string \<times> string option \<Rightarrow> bool" where
  "printable p \<longleftrightarrow> list_all is_key_char (fst p) \<and> fst p \<noteq> [] \<and>
     (case snd p of None \<Rightarrow> True | Some v \<Rightarrow> list_all is_digit v \<and> v \<noteq> [])"

lemma tchar_facts: "is_key_char c \<Longrightarrow> is_tchar c" "is_digit c \<Longrightarrow> is_tchar c"
  "\<not> is_tchar (CHR '';'')" "\<not> is_tchar (CHR ''='')" "\<not> is_tchar (CHR 0x22)"
  by (auto simp: is_key_char_def is_tchar_def is_alnum_def is_digit_def Let_def)

lemma token_append:
  assumes "list_all is_tchar t" "t \<noteq> []" "r = [] \<or> \<not> is_tchar (hd r)"
  shows "token (t @ r) = Some (t, r)"
proof -
  have "takeWhile is_tchar (t @ r) = t \<and> dropWhile is_tchar (t @ r) = r"
    using assms by (cases r) (auto simp: takeWhile_append dropWhile_append list_all_iff)
  then show ?thesis using assms(2) by (simp add: token_def)
qed

lemma space0_at_end: "at_end r \<Longrightarrow> space0 r = r"
  using at_end_cases [of r] key_char_facts(4) by (auto simp: space0_def)

lemma param_print:
  assumes "printable p" "at_end r"
  shows "param (drop 1 (print_param p @ r)) = Some (p, r)"
proof -
  obtain key v where p: "p = (key, v)" by (cases p)
  have key: "list_all is_key_char key" "key \<noteq> []" "list_all is_tchar key"
    using assms(1) tchar_facts(1) by (auto simp: printable_def p list_all_iff)
  have r: "r = [] \<or> (\<exists>s. r = CHR '';'' # s)" using at_end_cases [OF assms(2)] .
  show ?thesis
  proof (cases v)
    case None
    have "token (key @ r) = Some (key, r)" using token_append [OF key(3,2)] r tchar_facts(3) by auto
    then show ?thesis using space0_key [OF key(1,2)] space0_at_end [OF assms(2)] r None
      by (auto simp: p param_def eat_def)
  next
    case (Some w)
    have w: "list_all is_digit w" "w \<noteq> []" using assms(1) Some by (simp_all add: printable_def p)
    then have "list_all is_tchar w" using tchar_facts(2) by (auto simp: list_all_iff)
    then have "token (w @ r) = Some (w, r)" using token_append [of w r] w(2) r tchar_facts(3) by auto
    moreover have "space0 (w @ r) = w @ r" "hd w \<noteq> CHR 0x22"
      using w key_char_facts(6) by (cases w; auto simp: space0_def is_digit_def)+
    moreover have "token (key @ ''='' @ w @ r) = Some (key, ''='' @ w @ r)"
      using token_append [OF key(3,2), of "''='' @ w @ r"] tchar_facts(4) by simp
    moreover have "space0 (''='' @ w @ r) = ''='' @ w @ r" using key_char_facts(5) by (simp add: space0_def)
    ultimately show ?thesis using space0_key [OF key(1,2), of "''='' @ w @ r"] w(2) Some
      by (cases w) (simp_all add: p param_def eat_def param_value_def)
  qed
qed

lemma at_end_print: "at_end (concat (map print_param ps))"
proof (cases ps)
  case (Cons p qs)
  then show ?thesis by (cases p; cases "snd p") (auto simp: at_end_def)
qed (simp add: at_end_def)

lemma parse_params_print:
  "list_all printable ps \<Longrightarrow> parse_params (concat (map print_param ps)) acc = Some (acc @ ps, [])"
proof (induction ps arbitrary: acc)
  case Nil
  show ?case by (simp add: parse_params.simps [of "[]"] eat_def space0_def)
next
  case (Cons p ps)
  obtain s where s: "print_param p @ concat (map print_param ps) = CHR '';'' # s"
    by (cases p rule: print_param.cases) auto
  have "param s = Some (p, concat (map print_param ps))"
    using param_print [of p "concat (map print_param ps)"] at_end_print Cons.prems by (simp add: s)
  then show ?case using Cons s key_char_facts(4)
    by (simp add: parse_params.simps [of "CHR '';'' # _"] eat_def space0_def)
qed

section \<open>Printed offers\<close>

definition bits_param :: "string \<Rightarrow> nat option option \<Rightarrow> params" where
  "bits_param name v = (case v of None \<Rightarrow> [] | Some w \<Rightarrow> [(name, map_option dec w)])"

definition flag_param :: "string \<Rightarrow> bool \<Rightarrow> params" where
  "flag_param name b = (if b then [(name, None)] else [])"

definition params_of :: "extensions \<Rightarrow> params" where
  "params_of e =
    bits_param ''server_max_window_bits'' (server_max_window_bits e) @
    bits_param ''client_max_window_bits'' (client_max_window_bits e) @
    flag_param ''server_no_context_takeover'' (server_no_context_takeover e) @
    flag_param ''client_no_context_takeover'' (client_no_context_takeover e)"

lemma display_bits_print: "valid_bits v \<Longrightarrow> display_bits name v = concat (map print_param (bits_param name v))"
  by (auto simp: display_bits_def bits_param_def valid_bits_def split: option.splits)

lemma display_print:
  "valid_extensions e \<Longrightarrow> display e = PERMESSAGE_DEFLATE @ concat (map print_param (params_of e))"
  by (simp add: display_def params_of_def display_bits_print valid_extensions_def flag_param_def)

lemma params_of_printable: "list_all printable (params_of e)"
  using param_names dec_digits
  by (auto simp: params_of_def bits_param_def flag_param_def printable_def split: option.split)

lemma window_bits_dec: "negotiable b \<Longrightarrow> window_bits (dec b) = Some b"
  by (simp add: window_bits_def parse_u8_dec negotiable_le)

lemma offer_params_of:
  assumes "valid_offer e"
  shows "offer (params_of e) = Some e"
proof -
  have v: "valid_bits (server_max_window_bits e)" "valid_bits (client_max_window_bits e)"
    "server_max_window_bits e \<noteq> Some None"
    using assms by (simp_all add: valid_offer_def valid_extensions_def)
  obtain sb cb sn cn where e: "e = \<lparr>server_max_window_bits = sb, client_max_window_bits = cb,
      server_no_context_takeover = sn, client_no_context_takeover = cn\<rparr>" by (cases e)
  have s: "sb = None \<or> (\<exists>b. sb = Some (Some b) \<and> window_bits (dec b) = Some b)"
    using v(1,3) by (auto simp: e valid_bits_def window_bits_dec split: option.splits)
  have c: "cb = None \<or> cb = Some None \<or> (\<exists>b. cb = Some (Some b) \<and> window_bits (dec b) = Some b)"
    using v(2) by (auto simp: e valid_bits_def window_bits_dec split: option.splits)
  from s c show ?thesis
    by (elim disjE exE conjE)
      (simp_all add: e offer_def params_of_def bits_param_def flag_param_def offer_param_def extensions_default_def)
qed

lemma offers_single: "parse_list s [] = Some [(PERMESSAGE_DEFLATE, ps)] \<Longrightarrow> offer ps = Some e \<Longrightarrow> offers [Some s] = [e]"
  by (simp add: offers_def List.map_filter_def)

lemma parse_list_display:
  assumes "valid_extensions e"
  shows "parse_list (display e) [] = Some [(PERMESSAGE_DEFLATE, params_of e)]"
proof -
  let ?r = "concat (map print_param (params_of e))"
  have "token (display e) = Some (PERMESSAGE_DEFLATE, ?r)"
    unfolding display_print [OF assms]
    by (rule token_append) (use at_end_cases [OF at_end_print [of "params_of e"]] tchar_facts(3) in
        \<open>auto simp: PERMESSAGE_DEFLATE_def is_tchar_def is_alnum_def is_digit_def\<close>)
  moreover have "eat (CHR '','') (space0 (display e)) = (False, display e)" "display e \<noteq> []"
    by (simp_all add: display_def PERMESSAGE_DEFLATE_def space0_def is_space_def eat_def)
  moreover have "parse_params ?r [] = Some (params_of e, [])"
    using parse_params_print [OF params_of_printable, of e "[]"] by simp
  moreover have "parse_list [] acc = Some acc" for acc
    by (simp add: parse_list.simps [of "[]"] eat_def space0_def)
  ultimately show ?thesis by (simp add: parse_list.simps [of "display e"] eat_def [of _ "[]"])
qed

text \<open>
  The server reads an offer that RFC 7692 allows exactly as the client meant it when it
  printed it, although the two sides use different grammars.
\<close>

lemma offers_printed: "valid_offer e \<Longrightarrow> offers [Some (display e)] = [e]"
  using offers_single [OF parse_list_display offer_params_of] by (simp add: valid_offer_def)

end
