(* ===== verification/Receive.thy ===== *)
theory Receive
  imports Settings
begin

text \<open>
  Receiving whole messages.  A transport that is about to return given frames
  (\<open>frame_source\<close>) lets the message layer return the message these frames carry, with
  or without compression, in one frame or in fragments.
\<close>

section \<open>The frames of a message\<close>

fun message_frames :: "opcode \<Rightarrow> bool \<Rightarrow> bytes list \<Rightarrow> frame list" where
  "message_frames c rsv1 [] = []"
| "message_frames c rsv1 (p # ps) =
    \<lparr>fin = (ps = []), opcode = c, is_compressed = rsv1, mask_key = None, payload = p\<rparr>
      # message_frames Continuation False ps"

lemma message_frames_eq_Nil [simp]: "message_frames c rsv1 ps = [] \<longleftrightarrow> ps = []"
  by (cases ps) simp_all

lemma message_frames_not_control:
  "\<not> is_control c \<Longrightarrow> list_all (\<lambda>f. \<not> is_control (opcode f)) (message_frames c rsv1 ps)"
  by (induction ps arbitrary: c rsv1) simp_all

abbreviation unmasked :: "frame \<Rightarrow> frame" where
  "unmasked f \<equiv> f\<lparr>mask_key := None\<rparr>"

section \<open>A source of frames\<close>

locale frame_source =
  fixes tr :: "'s transport" and delivers :: "'s \<Rightarrow> frame list \<Rightarrow> bool"
  assumes next_delivers:
      "delivers s (f # fs) \<Longrightarrow> \<exists>s'. tr_next tr s = (Ready (Some (Ok f)), s') \<and> delivers s' fs"
    and resize_delivers: "delivers s fs \<Longrightarrow> delivers (tr_resize_read tr n s) fs"

text \<open>The in-memory transport delivers the frames whose bytes are still to be read, however they are cut.\<close>

definition framed_delivers :: "framed \<Rightarrow> frame list \<Rightarrow> bool" where
  "framed_delivers s fs \<longleftrightarrow> decoder_wf (codec_decoder (fr_codec s)) \<and>
     fr_read s @ concat (fr_input s) = concat (map wire fs) \<and>
     (\<forall>f\<in>set fs. \<forall>x. decode (fr_hw s) (codec_decoder (fr_codec s)) (wire f @ x)
        = (Item f, codec_decoder (fr_codec s), x))"

interpretation framed_frames: frame_source framed_transport framed_delivers
proof unfold_locales
  fix s f fs
  assume a: "framed_delivers s (f # fs)"
  let ?d = "codec_decoder (fr_codec s)"
  have wf: "decoder_wf ?d" and cat: "fr_read s @ concat (fr_input s) = wire f @ concat (map wire fs)"
    and dec: "\<forall>x. decode (fr_hw s) ?d (wire f @ x) = (Item f, ?d, x)"
    and rest: "\<forall>f\<in>set fs. \<forall>x. decode (fr_hw s) ?d (wire f @ x) = (Item f, ?d, x)"
    using a by (simp_all add: framed_delivers_def)
  have "decode (fr_hw s) ?d (fr_read s @ concat (fr_input s)) = (Item f, ?d, concat (map wire fs))"
    unfolding cat by (rule dec [rule_format])
  then obtain buf input where n: "buf @ concat input = concat (map wire fs)" "framed_next (fr_input s) s =
      (Ready (Some (Ok f)), s\<lparr>fr_codec := (fr_codec s)\<lparr>codec_decoder := ?d\<rparr>, fr_read := buf, fr_input := input\<rparr>)"
    using framed_next_item [OF wf] by blast
  have "framed_delivers (s\<lparr>fr_codec := (fr_codec s)\<lparr>codec_decoder := ?d\<rparr>, fr_read := buf, fr_input := input\<rparr>) fs"
    unfolding framed_delivers_def using wf n(1) rest by simp
  then show "\<exists>s'. tr_next framed_transport s = (Ready (Some (Ok f)), s') \<and> framed_delivers s' fs"
    using n(2) by (simp add: framed_transport_def)
qed (simp add: framed_transport_def)

section \<open>Receiving\<close>

text \<open>
  The state of a receiver: \<open>compressed\<close> is what its read half remembers of the message
  in progress, \<open>z\<close> its decompressor, \<open>l\<close> its fragment layer, \<open>fs\<close> what is on its way.
\<close>

definition receiving ::
  "('s \<Rightarrow> frame list \<Rightarrow> bool) \<Rightarrow> nat \<Rightarrow> bool \<Rightarrow> bool \<Rightarrow> 'd option \<Rightarrow> fragment_layer \<Rightarrow> frame list \<Rightarrow>
   ('s, 'c, 'd) web_socket \<Rightarrow> bool"
where
  "receiving delivers max_payload utf8 compressed z l fs ws \<longleftrightarrow>
    delivers (stream (ws_streaming ws)) fs \<and> \<not> is_closed (read_half (ws_streaming ws)) \<and>
    compressed_stream (read_half (ws_streaming ws)) = compressed \<and> inflate (ws_streaming ws) = z \<and>
    max_payload_read (ws_streaming ws) = max_payload \<and> check_utf8 ws = utf8 \<and> ws_layer ws = l"

text \<open>The payload of a frame after decompression.\<close>

definition unpack ::
  "('s, 'c, 'd) world \<Rightarrow> bool \<Rightarrow> bytes \<Rightarrow> bool \<Rightarrow> nat \<Rightarrow> 'd option \<Rightarrow> bytes \<Rightarrow> 'd option \<Rightarrow> bool"
where
  "unpack w compressed p stream_end lim z q z' \<longleftrightarrow>
    (if compressed then \<exists>d d'. z = Some d \<and> w_decompress w p stream_end lim d = (Ok q, d') \<and> z' = Some d'
     else q = p \<and> z' = z)"

lemma on_data_unpack:
  assumes "lim = (if \<not> fin g \<or> opcode g = Continuation then min (max_payload_read cn) m else max_payload_read cn)"
    "unpack w (is_compressed g) (payload g) (fin g) lim (inflate cn) q z'" "length q < lim"
  shows "on_data w g m cn = (Ok (g\<lparr>is_compressed := False, payload := q\<rparr>), cn\<lparr>inflate := z'\<rparr>)"
proof -
  have "decompress_frame w g lim cn = (Ok (g\<lparr>is_compressed := False, payload := q\<rparr>), cn\<lparr>inflate := z'\<rparr>)"
    using assms(2) by (cases cn; cases g) (auto simp: decompress_frame_def unpack_def split: if_splits)
  then show ?thesis using assms(3) unfolding on_data_def Let_def assms(1) [symmetric] by simp
qed

fun unpack_all ::
  "('s, 'c, 'd) world \<Rightarrow> bool \<Rightarrow> (nat \<Rightarrow> nat) \<Rightarrow> nat \<Rightarrow> bytes list \<Rightarrow> 'd option \<Rightarrow> bytes list \<Rightarrow> 'd option \<Rightarrow> bool"
where
  "unpack_all w compressed lim n [] z rs z' \<longleftrightarrow> rs = [] \<and> z' = z"
| "unpack_all w compressed lim n (q # qs) z rs z' \<longleftrightarrow>
    (\<exists>r z1 rs1. unpack w compressed q (qs = []) (lim n) z r z1 \<and> rs = r # rs1 \<and>
       unpack_all w compressed lim (n + length r) qs z1 rs1 z')"

lemma unpack_all_plain: "unpack_all w False lim n qs z qs z"
  by (induction qs arbitrary: n) (simp_all add: unpack_def)

lemma unpack_all_decompress:
  "decompress_all (w_decompress w) lim n qs d = (Ok rs, d') \<Longrightarrow> unpack_all w True lim n qs (Some d) rs (Some d')"
proof (induction qs arbitrary: n d rs)
  case (Cons q qs)
  then obtain r d1 rs1 where "w_decompress w q (qs = []) (lim n) d = (Ok r, d1)" "rs = r # rs1"
    "decompress_all (w_decompress w) lim (n + length r) qs d1 = (Ok rs1, d')"
    by (auto split: prod.splits sum.splits)
  then show ?case using Cons.IH by (auto simp: unpack_def)
qed simp

context frame_source
begin

lemma poll_read_half_next:
  assumes "w_tr w = tr" "delivers (stream cn) (f # fs)" "\<not> is_closed (read_half cn)"
  shows "\<exists>s px. delivers s fs \<and> poll_read_half w k cn =
    (Ready (Ok (fst (on_incoming f (read_half cn)))),
     cn\<lparr>read_half := snd (on_incoming f (read_half cn)), stream := s, wake_proxy := px\<rparr>)"
proof -
  obtain s where s: "tr_next tr (stream cn) = (Ready (Some (Ok f)), s)" "delivers s fs"
    using next_delivers [OF assms(2)] by blast
  then have rd: "read_poll w c = (Ready (Ok (fst (on_incoming f (read_half cn)))),
      c\<lparr>read_half := snd (on_incoming f (read_half cn)), stream := s\<rparr>)"
    if "read_half c = read_half cn" "stream c = stream cn" for c
    using that assms(1,3) by (simp add: read_poll_def poll_frame_def case_prod_unfold)
  show ?thesis
  proof (cases "tr_read_len (w_tr w) (stream cn) = 0")
    case True
    then show ?thesis using s(2)
      by (intro exI [of _ s] exI [of _ "set_waker Read k (wake_proxy cn)"]) (simp add: poll_read_half_def rd)
  next
    case False
    then show ?thesis using s(2)
      by (intro exI [of _ s] exI [of _ "wake_proxy cn"])
        (simp add: poll_read_half_def with_proxy_def poll_with_context_def rd)
  qed
qed

text \<open>One data frame from the transport to the message layer.\<close>

lemma receive_frame:
  assumes "w_tr w = tr" "receiving delivers P u cs z l (f # fs) ws" "\<not> is_control (opcode f)"
    and lim: "lim = (if \<not> fin f \<or> opcode f = Continuation then min P (remaining_read_capacity l) else P)"
    and up: "unpack w (is_compressed f \<or> cs) (payload f) (fin f) lim z q z'" "length q < lim"
  shows "\<exists>cn'. poll_next_frame_with_limit w k (remaining_read_capacity l) (ws_streaming ws) =
      (Ready (Ok (f\<lparr>mask_key := None, is_compressed := False, payload := q\<rparr>)), cn') \<and>
    receiving delivers P u (compressed_stream (snd (on_incoming f \<lparr>compressed_stream = cs, is_closed = False\<rparr>)))
      z' l fs (ws\<lparr>ws_streaming := cn'\<rparr>)"
proof -
  let ?cn = "ws_streaming ws"
  have rh: "read_half ?cn = \<lparr>compressed_stream = cs, is_closed = False\<rparr>"
    using assms(2) by (cases "read_half ?cn") (simp add: receiving_def)
  let ?i = "on_incoming f \<lparr>compressed_stream = cs, is_closed = False\<rparr>"
  have del: "delivers (stream ?cn) (f # fs)" "\<not> is_closed (read_half ?cn)"
    using assms(2) by (simp_all add: receiving_def)
  obtain s px where s: "delivers s fs" and pr: "poll_read_half w k ?cn =
      (Ready (Ok (fst ?i)), ?cn\<lparr>read_half := snd ?i, stream := s, wake_proxy := px\<rparr>)"
    using poll_read_half_next [OF assms(1) del, of k] rh by auto
  have g: "fst ?i = f\<lparr>mask_key := None, is_compressed := is_compressed f \<or> cs\<rparr>" "\<not> is_closed (snd ?i)"
    using assms(3) by (cases "opcode f"; simp add: on_incoming_def Let_def)+
  define cn1 where "cn1 = release_read_buffer w (length (payload (fst ?i)))
    (?cn\<lparr>read_half := snd ?i, stream := s, wake_proxy := px\<rparr>)"
  have cn1: "delivers (stream cn1) fs" "read_half cn1 = snd ?i" "inflate cn1 = z" "max_payload_read cn1 = P"
    using s assms(1,2) resize_delivers by (simp_all add: cn1_def release_read_buffer_def receiving_def)
  have "on_data w (fst ?i) (remaining_read_capacity l) cn1 =
      (Ok ((fst ?i)\<lparr>is_compressed := False, payload := q\<rparr>), cn1\<lparr>inflate := z'\<rparr>)"
    by (rule on_data_unpack [OF _ _ up(2)]) (use up(1) lim g(1) cn1 in simp_all)
  then have "poll_next_frame_with_limit w k (remaining_read_capacity l) ?cn =
      (Ready (Ok (f\<lparr>mask_key := None, is_compressed := False, payload := q\<rparr>)), cn1\<lparr>inflate := z'\<rparr>)"
    using assms(3) pr cn1_def [symmetric] unfolding g(1)
    by (cases "opcode f") (simp_all add: poll_next_frame_with_limit_def read_step_def finish_read_def on_frame_def)
  then show ?thesis using cn1 g(2) assms(2) by (auto simp: receiving_def)
qed

text \<open>The continuation frames of a message, the first of which is next.\<close>

lemma receive_rest:
  assumes tr: "w_tr w = tr" and l: "incoming_fragment l = None" "incoming_buffer l = []"
    and time: "\<forall>j. on_time t0 (clock j) l"
    and "receiving delivers P u rsv1 z (in_progress t0 c False got l) (gs @ rest) ws"
    and "map unmasked gs = message_frames Continuation False qs" "qs \<noteq> []"
    and "unpack_all w rsv1 (\<lambda>n. min P (max_read_buffer l - n)) (length got) qs z rs z'"
    and "length got + length (concat rs) < P" "length got + length (concat rs) < max_read_buffer l"
    and "\<not> (u \<and> c = Text \<and> from_utf8 (got @ concat rs) = None)"
  shows "\<exists>ws'. ws_poll_loop w k clock i ws =
      Some (Ready (Ok \<lparr>fin = True, opcode = c, is_compressed = False, mask_key = None, payload = got @ concat rs\<rparr>), ws') \<and>
    receiving delivers P u False z' l rest ws'"
  using assms(5-)
proof (induction qs arbitrary: got gs z rs i ws)
  case (Cons q qs)
  obtain f hs where gs: "gs = f # hs" and f: "unmasked f = \<lparr>fin = (qs = []), opcode = Continuation,
      is_compressed = False, mask_key = None, payload = q\<rparr>"
    and hs: "map unmasked hs = message_frames Continuation False qs"
    using Cons.prems(2) by auto
  have ff: "fin f = (qs = [])" "opcode f = Continuation" "\<not> is_compressed f" "payload f = q"
    using f by (cases f; simp)+
  obtain r z1 rs1 where up: "unpack w rsv1 q (qs = []) (min P (max_read_buffer l - length got)) z r z1"
    and rs: "rs = r # rs1" and more: "unpack_all w rsv1 (\<lambda>n. min P (max_read_buffer l - n)) (length (got @ r)) qs z1 rs1 z'"
    using Cons.prems(4) by auto
  let ?l = "in_progress t0 c False got l"
  have cap: "remaining_read_capacity ?l = max_read_buffer l - length got"
    by (simp add: remaining_read_capacity_def in_progress_def)
  let ?g = "f\<lparr>mask_key := None, is_compressed := False, payload := r\<rparr>"
  let ?rsv = "compressed_stream (snd (on_incoming f \<lparr>compressed_stream = rsv1, is_closed = False\<rparr>))"
  have rsv: "?rsv = (rsv1 \<and> qs \<noteq> [])"
    using ff by (simp add: on_incoming_def Let_def)
  have fits: "length r < min P (max_read_buffer l - length got)"
    using Cons.prems(5,6) rs by auto
  obtain cn where p: "poll_next_frame_with_limit w k (remaining_read_capacity ?l) (ws_streaming ws) = (Ready (Ok ?g), cn)"
    and rc: "receiving delivers P u ?rsv z1 ?l (hs @ rest) (ws\<lparr>ws_streaming := cn\<rparr>)"
    using receive_frame [OF tr, of P u rsv1 z ?l f "hs @ rest" ws "min P (max_read_buffer l - length got)" r z1 k]
      Cons.prems(1) gs ff up cap fits by auto
  have layer: "ws_layer ws = ?l" "check_utf8 ws = u" using Cons.prems(1) by (simp_all add: receiving_def)
  have l': "l\<lparr>incoming_fragment := None, incoming_buffer := []\<rparr> = l" using l by (cases l) simp
  have as: "assemble_incoming (clock i) ?g ?l =
      (if qs = [] then (Ok (Some (?g\<lparr>opcode := c, payload := got @ r\<rparr>)), l)
       else (Ok None, in_progress t0 c False (got @ r) l))"
    using assemble_in_progress [of ?g got l t0 "clock i" c False] time ff rs Cons.prems(6) l' by simp
  show ?case
  proof (cases "qs = []")
    case True
    then have "rs1 = []" "z1 = z'" using more by simp_all
    moreover have "?g\<lparr>opcode := c, payload := got @ r\<rparr> =
        \<lparr>fin = True, opcode = c, is_compressed = False, mask_key = None, payload = got @ r\<rparr>"
      using ff True by (cases f) simp
    moreover have "receiving delivers P u False z1 l rest (ws\<lparr>ws_streaming := cn, ws_layer := l\<rparr>)"
      using rc rsv True hs by (simp add: receiving_def)
    ultimately show ?thesis
      using p as layer True rs Cons.prems(7) by (subst ws_poll_loop.simps) (auto simp: ws_on_frame_def)
  next
    case False
    let ?ws = "ws\<lparr>ws_streaming := cn, ws_layer := in_progress t0 c False (got @ r) l\<rparr>"
    have "receiving delivers P u rsv1 z1 (in_progress t0 c False (got @ r) l) (hs @ rest) ?ws"
      using rc rsv False by (simp add: receiving_def)
    from Cons.IH [OF this hs False more, of "Suc i"] Cons.prems(5-7) rs
    have "\<exists>ws'. ws_poll_loop w k clock (Suc i) ?ws =
      Some (Ready (Ok \<lparr>fin = True, opcode = c, is_compressed = False, mask_key = None, payload = got @ concat rs\<rparr>), ws') \<and>
      receiving delivers P u False z' l rest ws'" by simp
    then show ?thesis using p as layer False by (subst ws_poll_loop.simps) (simp add: ws_on_frame_def)
  qed
qed simp

text \<open>A whole message.\<close>

lemma receive_message:
  assumes tr: "w_tr w = tr" and l: "incoming_fragment l = None" "incoming_buffer l = []"
    and time: "\<forall>i j. on_time (clock i) (clock j) l"
    and rcv: "receiving delivers P u False z l (gs @ rest) ws"
    and gs: "map unmasked gs = message_frames c rsv1 qs" "qs \<noteq> []" "c \<in> {Text, Binary}"
    and up: "unpack_all w rsv1 (\<lambda>n. if length qs = 1 then P else min P (max_read_buffer l - n)) 0 qs z rs z'"
    and len: "length (concat rs) < P" "length (concat rs) < max_read_buffer l"
    and utf8: "\<not> (u \<and> c = Text \<and> from_utf8 (concat rs) = None)"
  shows "\<exists>ws'. ws_poll_next_frame w k clock ws =
      Some (Ready (Ok \<lparr>fin = True, opcode = c, is_compressed = False, mask_key = None, payload = concat rs\<rparr>), ws') \<and>
    receiving delivers P u False z' l rest ws'"
proof -
  obtain q qs' where qs: "qs = q # qs'" using gs(2) by (cases qs) auto
  obtain f hs where fs: "gs = f # hs" and f: "unmasked f = \<lparr>fin = (qs' = []), opcode = c,
      is_compressed = rsv1, mask_key = None, payload = q\<rparr>"
    and hs: "map unmasked hs = message_frames Continuation False qs'"
    using gs(1) qs by auto
  have ff: "fin f = (qs' = [])" "opcode f = c" "is_compressed f = rsv1" "payload f = q"
    using f by (cases f; simp)+
  let ?lim = "if qs' = [] then P else min P (max_read_buffer l)"
  obtain r z1 rs1 where r: "unpack w rsv1 q (qs' = []) ?lim z r z1" and rs: "rs = r # rs1"
    and more: "unpack_all w rsv1 (\<lambda>n. if length qs = 1 then P else min P (max_read_buffer l - n)) (length r) qs' z1 rs1 z'"
    using up qs by (cases "qs' = []") auto
  have cap: "remaining_read_capacity l = max_read_buffer l" using l by (simp add: remaining_read_capacity_def)
  let ?g = "f\<lparr>mask_key := None, is_compressed := False, payload := r\<rparr>"
  let ?rsv = "compressed_stream (snd (on_incoming f \<lparr>compressed_stream = False, is_closed = False\<rparr>))"
  have rsv: "?rsv = (rsv1 \<and> qs' \<noteq> [])" using ff gs(3) by (auto simp: on_incoming_def Let_def)
  have fits: "length r < ?lim" using len rs by auto
  obtain cn where p: "poll_next_frame_with_limit w k (remaining_read_capacity l) (ws_streaming ws) = (Ready (Ok ?g), cn)"
    and rc: "receiving delivers P u ?rsv z1 l (hs @ rest) (ws\<lparr>ws_streaming := cn\<rparr>)"
    using receive_frame [OF tr, of P u False z l f "hs @ rest" ws ?lim r z1 k] rcv fs ff r cap fits gs(3) by auto
  have layer: "ws_layer ws = l" "check_utf8 ws = u" using rcv by (simp_all add: receiving_def)
  have as: "assemble_incoming (clock 0) ?g l =
      (if qs' = [] then (Ok (Some ?g), l) else (Ok None, in_progress (clock 0) c False r l))"
    using l ff gs(3) by (auto simp: assemble_incoming_def assemble_data_def in_progress_def)
  show ?thesis
  proof (cases "qs' = []")
    case True
    then have "?g = \<lparr>fin = True, opcode = c, is_compressed = False, mask_key = None, payload = concat rs\<rparr>"
      "z1 = z'" using ff more rs by (cases f; simp)+
    moreover have "receiving delivers P u False z1 l rest (ws\<lparr>ws_streaming := cn, ws_layer := l\<rparr>)"
      using rc rsv True hs by (simp add: receiving_def)
    ultimately show ?thesis unfolding ws_poll_next_frame_def
      using p as layer True utf8 by (subst ws_poll_loop.simps) (auto simp: ws_on_frame_def)
  next
    case False
    let ?ws = "ws\<lparr>ws_streaming := cn, ws_layer := in_progress (clock 0) c False r l\<rparr>"
    have "receiving delivers P u rsv1 z1 (in_progress (clock 0) c False r l) (hs @ rest) ?ws"
      using rc rsv False by (simp add: receiving_def)
    moreover have "unpack_all w rsv1 (\<lambda>n. min P (max_read_buffer l - n)) (length r) qs' z1 rs1 z'"
      using more qs False by (cases qs') simp_all
    ultimately have "\<exists>ws'. ws_poll_loop w k clock (Suc 0) ?ws =
      Some (Ready (Ok \<lparr>fin = True, opcode = c, is_compressed = False, mask_key = None, payload = concat rs\<rparr>), ws') \<and>
      receiving delivers P u False z' l rest ws'"
      using receive_rest [OF tr l, of "clock 0" clock P u rsv1 z1 c r hs rest ?ws qs' rs1 z' k "Suc 0"]
        time hs False len utf8 rs by simp
    then show ?thesis unfolding ws_poll_next_frame_def
      using p as layer False by (subst ws_poll_loop.simps) (simp add: ws_on_frame_def)
  qed
qed

end

end
