(* ===== verification/Send.thy ===== *)
theory Send
  imports Receive
begin

text \<open>
  Sending whole messages over a transport that accepts writes: what the message layer
  hands to the transport, with or without automatic fragmentation and compression.
\<close>

section \<open>Fragments of a payload\<close>

function parts :: "nat option \<Rightarrow> bytes \<Rightarrow> bytes list" where
  "parts sz p =
    (case sz of
       None \<Rightarrow> [p]
     | Some n \<Rightarrow> if n = 0 \<or> length p \<le> n then [p] else take n p # parts sz (drop n p))"
  by auto
termination by (relation "measure (\<lambda>(sz, p). length p)") auto

declare parts.simps [simp del]

lemma parts_simps [simp]:
  "parts None p = [p]"
  "length p \<le> n \<Longrightarrow> parts (Some n) p = [p]"
  "0 < n \<Longrightarrow> n < length p \<Longrightarrow> parts (Some n) p = take n p # parts (Some n) (drop n p)"
  by (simp_all add: parts.simps)

lemma parts_not_Nil [simp]: "parts sz p \<noteq> []"
  by (subst parts.simps) (simp split: option.split)

lemma concat_parts [simp]: "concat (parts sz p) = p"
  by (induction sz p rule: parts.induct) (subst parts.simps, auto split: option.split)

lemma rest_fragments_parts:
  assumes "0 < n" "mask_key f = None" "\<not> is_compressed f"
  shows "rest_fragments n f = message_frames Continuation False (parts (Some n) (payload f))"
  using assms
proof (induction n f rule: rest_fragments.induct)
  case (1 n f)
  show ?case
  proof (cases "length (payload f) \<le> n")
    case True
    then show ?thesis using "1.prems" by (cases f) (simp add: rest_fragments.simps [of n])
  next
    case False
    then show ?thesis using "1.prems" "1.IH" by (simp add: rest_fragments.simps [of n f] frame_new_def)
  qed
qed

definition data_message :: "frame \<Rightarrow> bool" where
  "data_message m \<longleftrightarrow> fin m \<and> opcode m \<in> {Text, Binary} \<and> \<not> is_compressed m \<and> mask_key m = None"

lemma data_message_frame:
  "data_message m \<Longrightarrow>
   m = \<lparr>fin = True, opcode = opcode m, is_compressed = False, mask_key = None, payload = payload m\<rparr>"
  by (cases m) (simp add: data_message_def)

lemma into_fragments_parts:
  assumes "0 < n" "data_message m"
  shows "into_fragments m n = Some (message_frames (opcode m) False (parts (Some n) (payload m)))"
proof (cases "length (payload m) \<le> n")
  case True
  then show ?thesis using assms data_message_frame [OF assms(2)] by (simp add: into_fragments_eq)
next
  case False
  then show ?thesis using assms
    by (simp add: into_fragments_eq rest_fragments_parts data_message_def frame_new_def)
qed

section \<open>Sending frames\<close>

definition sending ::
  "('s \<Rightarrow> frame list) \<Rightarrow> nat \<Rightarrow> 'c option \<Rightarrow> bool \<Rightarrow> frame list \<Rightarrow> ('s, 'c, 'd) conn \<Rightarrow> bool"
where
  "sending sent threshold z strm fs cn \<longleftrightarrow> obligated_sends cn = [] \<and> close_state (write_half cn) = None \<and>
     streaming (write_half cn) = strm \<and> deflate cn = z \<and> compression_threshold cn = threshold \<and>
     sent (stream cn) = fs"

text \<open>The payload of a frame after compression.\<close>

definition pack ::
  "('s, 'c, 'd) world \<Rightarrow> bool \<Rightarrow> bytes \<Rightarrow> bool \<Rightarrow> 'c option \<Rightarrow> bytes \<Rightarrow> 'c option \<Rightarrow> bool"
where
  "pack w compressed p flush z q z' \<longleftrightarrow>
    (if compressed then \<exists>c c'. z = Some c \<and> w_compress w p flush c = (Ok q, c') \<and> z' = Some c'
     else q = p \<and> z' = z)"

fun pack_all ::
  "('s, 'c, 'd) world \<Rightarrow> bool \<Rightarrow> bytes list \<Rightarrow> 'c option \<Rightarrow> bytes list \<Rightarrow> 'c option \<Rightarrow> bool"
where
  "pack_all w compressed [] z qs z' \<longleftrightarrow> qs = [] \<and> z' = z"
| "pack_all w compressed (p # ps) z qs z' \<longleftrightarrow>
    (\<exists>q z1 qs1. pack w compressed p (ps = []) z q z1 \<and> qs = q # qs1 \<and> pack_all w compressed ps z1 qs1 z')"

lemma pack_all_plain: "pack_all w False ps z ps z"
  by (induction ps) (simp_all add: pack_def)

lemma pack_all_compress:
  "compress_all (w_compress w) ps c = (Ok qs, c') \<Longrightarrow> pack_all w True ps (Some c) qs (Some c')"
proof (induction ps arbitrary: c qs)
  case (Cons p ps)
  then obtain q c1 qs1 where "w_compress w p (ps = []) c = (Ok q, c1)" "qs = q # qs1"
    "compress_all (w_compress w) ps c1 = (Ok qs1, c')"
    by (auto split: prod.splits sum.splits)
  then show ?case using Cons.IH by (auto simp: pack_def)
qed simp

lemma pack_all_length: "pack_all w compressed ps z qs z' \<Longrightarrow> length qs = length ps"
  by (induction ps arbitrary: z qs) auto

lemma ready_sending:
  assumes "frame_sink (w_tr w) sent" "prompt (w_tr w)" "sending sent thr z strm fs cn"
  shows "\<exists>cn'. poll_ready w k cn = (Ready (Ok ()), cn') \<and> sending sent thr z strm fs cn'"
  using poll_ready_prompt [OF assms(1,2), of cn k] assms(3) by (auto simp: sending_def)

lemma send_frame:
  assumes sink: "frame_sink (w_tr w) sent" "prompt (w_tr w)" and s: "sending sent thr z strm fs cn"
    and "\<not> is_control (opcode f)"
    and cmp: "cmp \<longleftrightarrow> z \<noteq> None \<and> should_compress cn f"
    and q: "pack w cmp (payload f) (fin f) z q z'"
  shows "\<exists>cn'. start_send w f cn = (Ok (), cn') \<and> sending sent thr z' (\<not> fin f)
    (fs @ [f\<lparr>is_compressed := (if cmp then \<not> strm else is_compressed f), payload := q\<rparr>]) cn'"
proof -
  let ?g = "f\<lparr>is_compressed := (if cmp then \<not> strm else is_compressed f), payload := q\<rparr>"
  have strm: "streaming (write_half cn) = strm" "deflate cn = z" "close_state (write_half cn) = None"
    "sent (stream cn) = fs" "obligated_sends cn = []" "compression_threshold cn = thr"
    using s by (simp_all add: sending_def)
  have c: "compress_frame w f cn = (Ok ?g, cn\<lparr>deflate := z'\<rparr>)"
  proof (cases cmp)
    case True
    then obtain c c' where "z = Some c" "w_compress w (payload f) (fin f) c = (Ok q, c')" "z' = Some c'"
      using q by (auto simp: pack_def)
    then show ?thesis using True cmp strm by (simp add: compress_frame_def)
  next
    case False
    then have "q = payload f" "z' = z" "z = None \<or> \<not> should_compress cn f" using q cmp by (simp_all add: pack_def)
    then show ?thesis using False strm(2) by (cases cn; cases f) (auto simp: compress_frame_def)
  qed
  obtain t where t: "tr_send (w_tr w) ?g (stream cn) = (Ok (), t)" using prompt_send [OF sink(2)] by blast
  have "sent t = fs @ [?g]" using frame_sink.send_ok [OF sink(1) t] strm(4) by simp
  then show ?thesis using c t strm assms(4)
    by (auto simp: start_send_def wh_start_send_def Let_def sending_def)
qed

section \<open>Sending messages\<close>

text \<open>Whether a message whose fragments are \<open>ps\<close> is compressed.\<close>

definition compresses :: "nat \<Rightarrow> 'c option \<Rightarrow> opcode \<Rightarrow> bytes list \<Rightarrow> bool" where
  "compresses thr z c ps \<longleftrightarrow> z \<noteq> None \<and> (c = Continuation \<or> length ps \<noteq> 1 \<or> thr \<le> length (hd ps))"

lemma flush_fragments_sends:
  assumes sink: "frame_sink (w_tr w) sent" "prompt (w_tr w)"
    and "sending sent thr z strm fs (ws_streaming ws)"
    and "outgoing_fragments (ws_layer ws) = message_frames c False ps" "\<not> is_control c"
    and "pack_all w (compresses thr z c ps) ps z qs z'"
    and "strm \<longrightarrow> c = Continuation" 
  shows "\<exists>ws'. poll_flush_fragments w k ws = (Ready (Ok ()), ws') \<and>
    sending sent thr z' (ps = [] \<and> strm)
      (fs @ message_frames c (compresses thr z c ps \<and> \<not> strm) qs) (ws_streaming ws') \<and>
    ws_layer ws' = (ws_layer ws)\<lparr>outgoing_fragments := []\<rparr> \<and> check_utf8 ws' = check_utf8 ws"
  using assms(3-)
proof (induction ps arbitrary: c strm z fs qs ws)
  case Nil
  have "(ws_layer ws)\<lparr>outgoing_fragments := []\<rparr> = ws_layer ws" using Nil(2) by (cases "ws_layer ws") simp
  then show ?case using Nil by (simp add: poll_flush_fragments.simps [of w k ws] has_outgoing_fragments_def)
next
  case (Cons p ps)
  let ?f = "\<lparr>fin = (ps = []), opcode = c, is_compressed = False, mask_key = None, payload = p\<rparr>"
  let ?cmp = "compresses thr z c (p # ps)"
  obtain q z1 qs1 where q: "pack w ?cmp p (ps = []) z q z1" and qs: "qs = q # qs1"
    and more: "pack_all w ?cmp ps z1 qs1 z'"
    using Cons.prems(4) by auto
  have z1: "z1 = None \<longleftrightarrow> z = None" using q by (auto simp: pack_def split: if_splits)
  have cmp: "pack_all w (compresses thr z1 Continuation ps) ps z1 qs1 z'"
    using more z1 by (cases ps) (auto simp: compresses_def)
  obtain cn1 where r: "poll_ready w k (ws_streaming ws) = (Ready (Ok ()), cn1)"
    and s1: "sending sent thr z strm fs cn1"
    using ready_sending [OF sink Cons.prems(1)] by blast
  have should: "?cmp \<longleftrightarrow> z \<noteq> None \<and> should_compress cn1 ?f"
    using s1 Cons.prems(3) by (auto simp: compresses_def should_compress_def sending_def)
  obtain cn2 where st: "start_send w ?f cn1 = (Ok (), cn2)"
    and s2: "sending sent thr z1 (ps \<noteq> [])
      (fs @ [?f\<lparr>is_compressed := (if ?cmp then \<not> strm else is_compressed ?f), payload := q\<rparr>]) cn2"
    using send_frame [OF sink s1 _ should, of q z1] Cons.prems(3) q by auto
  let ?ws = "ws\<lparr>ws_streaming := cn2, ws_layer := (ws_layer ws)\<lparr>outgoing_fragments := message_frames Continuation False ps\<rparr>\<rparr>"
  have step: "poll_flush_fragments w k ws = poll_flush_fragments w k ?ws"
    using Cons.prems(2) r st
    by (subst poll_flush_fragments.simps) (simp add: has_outgoing_fragments_def pop_outgoing_fragment_def)
  have frames: "message_frames Continuation (compresses thr z1 Continuation ps \<and> \<not> (ps \<noteq> [])) qs1
      = message_frames Continuation False qs1"
    using pack_all_length [OF more] by (cases ps) simp_all
  let ?h = "\<lparr>fin = (qs1 = []), opcode = c, is_compressed = (?cmp \<and> \<not> strm), mask_key = None, payload = q\<rparr>"
  have "(ps = []) = (qs1 = [])" using pack_all_length [OF more] by auto
  then have h: "?f\<lparr>is_compressed := (if ?cmp then \<not> strm else is_compressed ?f), payload := q\<rparr> = ?h" by auto
  show ?case
    using Cons.IH [where strm = "ps \<noteq> []" and z = z1 and ws = ?ws and c = Continuation and qs = qs1 and
        fs = "fs @ [?h]"] s2 [unfolded h] cmp step qs frames by auto
qed

text \<open>Flushing the queue of the layer brings the connection to a state between messages.\<close>

definition flushes_to ::
  "('s \<Rightarrow> frame list) \<Rightarrow> ('s, 'c, 'd) world \<Rightarrow> nat \<Rightarrow> nat \<Rightarrow> 'c option \<Rightarrow> frame list \<Rightarrow> fragment_layer \<Rightarrow>
   ('s, 'c, 'd) web_socket \<Rightarrow> bool"
where
  "flushes_to sent w k thr z fs l ws \<longleftrightarrow>
    (\<exists>ws'. poll_flush_fragments w k ws = (Ready (Ok ()), ws') \<and>
       sending sent thr z False fs (ws_streaming ws') \<and> ws_layer ws' = l)"

lemma send_message:
  assumes sink: "frame_sink (w_tr w) sent" "prompt (w_tr w)"
    and ws: "flushes_to sent w k thr z fs l ws" "outgoing_fragments l = []" "fragment_size l \<noteq> Some 0"
    and m: "data_message m" "ps = parts (fragment_size l) (payload m)" "cmp = compresses thr z (opcode m) ps"
    and q: "pack_all w cmp ps z qs z'"
  shows "\<exists>ws1 ws2. ws_poll_ready w k ws = (Ready (Ok ()), ws1) \<and>
    ws_start_send w m ws1 = Finished (Ok (), ws2) \<and>
    flushes_to sent w k thr z' (fs @ message_frames (opcode m) cmp qs) l ws2"
proof -
  obtain wsf where wsf: "poll_flush_fragments w k ws = (Ready (Ok ()), wsf)"
    "sending sent thr z False fs (ws_streaming wsf)" "ws_layer wsf = l"
    using ws(1) by (auto simp: flushes_to_def)
  obtain cn1 where r: "poll_ready w k (ws_streaming wsf) = (Ready (Ok ()), cn1)" and s1: "sending sent thr z False fs cn1"
    using ready_sending [OF sink wsf(2)] by blast
  let ?ws1 = "wsf\<lparr>ws_streaming := cn1\<rparr>"
  have ready: "ws_poll_ready w k ws = (Ready (Ok ()), ?ws1)" using wsf(1) r by (simp add: ws_poll_ready_def)
  have dm: "\<not> is_control (opcode m)" "fin m" "opcode m \<noteq> Continuation" using m(1) by (auto simp: data_message_def)
  show ?thesis
  proof (cases "fragment_size l")
    case None
    then have ps: "ps = [payload m]" using m(2) by simp
    then obtain q1 where q1: "pack w cmp (payload m) True z q1 z'" "qs = [q1]" using q by auto
    have should: "cmp \<longleftrightarrow> z \<noteq> None \<and> should_compress cn1 m"
      using m(3) ps dm s1 by (auto simp: compresses_def should_compress_def sending_def)
    obtain cn2 where st: "start_send w m cn1 = (Ok (), cn2)"
      and s2: "sending sent thr z' False (fs @ [m\<lparr>is_compressed := (if cmp then \<not> False else is_compressed m), payload := q1\<rparr>]) cn2"
      using send_frame [OF sink s1 dm(1) should, of q1 z'] q1(1) dm(2) by auto
    have "[m\<lparr>is_compressed := (if cmp then \<not> False else is_compressed m), payload := q1\<rparr>] = message_frames (opcode m) cmp qs"
      using m(1) q1(2) by (cases m) (simp add: data_message_def)
    then have "flushes_to sent w k thr z' (fs @ message_frames (opcode m) cmp qs) l (?ws1\<lparr>ws_streaming := cn2\<rparr>)"
      using s2 wsf(3) ws(2) by (simp add: flushes_to_def poll_flush_fragments.simps has_outgoing_fragments_def)
    then show ?thesis using ready st None wsf(3) by (auto simp: ws_start_send_def)
  next
    case (Some n)
    then have n: "0 < n" using ws(3) by simp
    let ?ws2 = "?ws1\<lparr>ws_layer := l\<lparr>outgoing_fragments := message_frames (opcode m) False ps\<rparr>\<rparr>"
    have st: "ws_start_send w m ?ws1 = Finished (Ok (), ?ws2)"
      using Some n wsf(3) ws(2) dm(2) m(2) into_fragments_parts [OF n m(1)]
      by (simp add: ws_start_send_def fragment_outgoing_def)
    have "l\<lparr>outgoing_fragments := []\<rparr> = l" using ws(2) by (cases l) simp
    then have "flushes_to sent w k thr z' (fs @ message_frames (opcode m) cmp qs) l ?ws2"
      using flush_fragments_sends [OF sink, of thr z False fs ?ws2 "opcode m" ps qs z' k] s1 dm(1) q m(3)
      by (auto simp: flushes_to_def)
    then show ?thesis using ready st by blast
  qed
qed

end
