(* ===== verification/Stored_Flate.thy ===== *)
theory Stored_Flate
  imports Compression_Roundtrip
begin

text \<open>
  A small library that keeps \<open>flate_contract\<close>, so that the contract can hold: a code
  that writes a byte \<open>b\<close> as \<open>1, b\<close> and ends a sync flush with an empty stored block, and
  gives out its output in pieces as large as the caller has room for.
\<close>

section \<open>The code\<close>

datatype token = Literal byte | Block

fun token_bytes :: "token \<Rightarrow> bytes" where
  "token_bytes (Literal b) = [1, b]"
| "token_bytes Block = empty_block"

fun token_value :: "token \<Rightarrow> bytes" where
  "token_value (Literal b) = [b]"
| "token_value Block = []"

definition tokens_bytes :: "token list \<Rightarrow> bytes" where
  "tokens_bytes ts = concat (map token_bytes ts)"

definition tokens_value :: "token list \<Rightarrow> bytes" where
  "tokens_value ts = concat (map token_value ts)"

fun stored_decode :: "bytes \<Rightarrow> bytes" where
  "stored_decode [] = []"
| "stored_decode (x # xs) =
    (if x = 1 then (case xs of [] \<Rightarrow> [] | b # ys \<Rightarrow> b # stored_decode ys)
     else stored_decode (drop 4 xs))"

lemma stored_decode_block [simp]: "stored_decode (empty_block @ t) = stored_decode t"
  by (simp add: empty_block_def sync_marker_def)

lemma stored_decode_tokens: "stored_decode (tokens_bytes ts @ t) = tokens_value ts @ stored_decode t"
proof (induction ts)
  case (Cons x ts)
  then show ?case by (cases x) (simp_all add: tokens_bytes_def tokens_value_def)
qed (simp add: tokens_bytes_def tokens_value_def)

lemma stored_decode_append: "\<exists>t. stored_decode (xs @ ys) = stored_decode xs @ t"
proof (induction xs arbitrary: ys rule: stored_decode.induct)
  case (2 x xs)
  show ?case
  proof (cases "x = 1")
    case True
    then show ?thesis using "2.IH"(1) [OF True] by (cases xs) auto
  next
    case False
    then show ?thesis using "2.IH"(2) [OF False, of "drop (4 - length xs) ys"] by simp
  qed
qed simp

section \<open>The compressor\<close>

text \<open>\<open>sz_done\<close> was written before; of the current segment \<open>sz_pos\<close> bytes are written.\<close>

record stored_z =
  sz_done :: "token list"
  sz_cur :: bytes
  sz_marked :: bool
  sz_pos :: nat

definition segment :: "stored_z \<Rightarrow> bytes" where
  "segment z = tokens_bytes (map Literal (sz_cur z)) @ (if sz_marked z then empty_block else [])"

definition sz_in :: "stored_z \<Rightarrow> bytes" where
  "sz_in z = tokens_value (sz_done z) @ sz_cur z"

definition sz_out :: "stored_z \<Rightarrow> bytes" where
  "sz_out z = tokens_bytes (sz_done z) @ take (sz_pos z) (segment z)"

definition sz_flushed :: "stored_z \<Rightarrow> bool" where
  "sz_flushed z \<longleftrightarrow> sz_marked z \<and> length (segment z) \<le> sz_pos z"

definition sz_idle :: "stored_z \<Rightarrow> bool" where
  "sz_idle z \<longleftrightarrow> sz_marked z \<longrightarrow> length (segment z) \<le> sz_pos z"

definition sz_tail :: "stored_z \<Rightarrow> bytes" where
  "sz_tail z = (if sz_idle z then [] else drop (2 * length (sz_cur z)) (take (sz_pos z) (segment z)))"

definition sz_todo :: "stored_z \<Rightarrow> nat" where
  "sz_todo z = length (segment (z\<lparr>sz_marked := True\<rparr>)) - min (sz_pos z) (length (segment z))"

definition emit :: "nat \<Rightarrow> stored_z \<Rightarrow> bytes \<times> stored_z" where
  "emit room z =
    (let p = min (sz_pos z) (length (segment z)); w = take room (drop p (segment z))
     in (w, z\<lparr>sz_pos := p + length w\<rparr>))"

definition sz_step :: "stored_z z_call" where
  "sz_step input room flush z =
    (if flush = Sync_Flush then
       case emit room (z\<lparr>sz_marked := True, sz_pos := min (sz_pos z) (length (segment z))\<rparr>) of
         (w, z) \<Rightarrow> (Inr (if w = [] then Z_BufError else Z_Ok), 0, w, z)
     else if \<not> sz_idle z then (Inr Z_Ok, 0, [], z)
     else
       case emit room (if sz_marked z
           then \<lparr>sz_done = sz_done z @ map Literal (sz_cur z) @ [Block], sz_cur = input, sz_marked = False, sz_pos = 0\<rparr>
           else z\<lparr>sz_cur := sz_cur z @ input, sz_pos := min (sz_pos z) (length (segment z))\<rparr>) of
         (w, z) \<Rightarrow> (Inr Z_Ok, length input, w, z))"

definition sz_new :: stored_z where
  "sz_new = \<lparr>sz_done = [], sz_cur = [], sz_marked = False, sz_pos = 0\<rparr>"

section \<open>The decompressor\<close>

record stored_y =
  sy_in :: bytes
  sy_pos :: nat

definition sy_out :: "stored_y \<Rightarrow> bytes" where
  "sy_out y = take (sy_pos y) (stored_decode (sy_in y))"

definition sy_step :: "stored_y z_call" where
  "sy_step input room flush y =
    (let p = min (sy_pos y) (length (stored_decode (sy_in y)));
         w = take room (drop p (stored_decode (sy_in y @ input)))
     in (Inr Z_Ok, length input, w, \<lparr>sy_in = sy_in y @ input, sy_pos = p + length w\<rparr>))"

definition sy_new :: stored_y where "sy_new = \<lparr>sy_in = [], sy_pos = 0\<rparr>"

definition stored_flate :: "(stored_z, stored_y) flate" where
  "stored_flate = \<lparr>z_new = (\<lambda>_ _. sz_new), z_reset = (\<lambda>_. sz_new), z_compress = sz_step,
     y_new = (\<lambda>_. sy_new), y_reset = (\<lambda>_. sy_new), y_decompress = sy_step, grow = (\<lambda>len cap. len + 1024)\<rparr>"

section \<open>The contract\<close>

lemma take_more: "take (length (take r xs)) xs = take r xs"
  by (simp add: min_def)

lemma last_take: "0 < k \<Longrightarrow> k \<le> length xs \<Longrightarrow> last (take k xs) = xs ! (k - 1)"
  by (cases k) (simp_all add: take_Suc_conv_app_nth)

lemma take_piece: "take (p + length (take r (drop p xs))) xs = take p xs @ take r (drop p xs)"
  by (simp only: take_add take_more)

lemma take_step: "take (min p (length xs) + length (take r (drop (min p (length xs)) xs))) xs
    = take p xs @ take r (drop (min p (length xs)) xs)"
  by (simp add: take_add min_def)

lemma emit_out:
  assumes "emit room z = (w, z')"
  shows "length w \<le> room \<and> sz_out z' = sz_out z @ w \<and> sz_in z' = sz_in z \<and> segment z' = segment z \<and>
    sz_marked z' = sz_marked z \<and> sz_cur z' = sz_cur z \<and> sz_done z' = sz_done z \<and>
    sz_pos z' \<le> length (segment z) \<and> (length w = room \<or> sz_pos z' = length (segment z))"
proof -
  have seg: "segment z' = segment z" using assms by (auto simp: emit_def Let_def segment_def)
  have "take (sz_pos z') (segment z) = take (sz_pos z) (segment z) @ w"
    using assms take_step [of "sz_pos z" "segment z" room] by (auto simp: emit_def Let_def)
  then show ?thesis using assms seg by (auto simp: emit_def Let_def sz_out_def sz_in_def min_def)
qed

lemma segment_append: "\<not> sz_marked z \<Longrightarrow>
    segment (z\<lparr>sz_cur := sz_cur z @ input, sz_pos := p\<rparr>) = segment z @ tokens_bytes (map Literal input)"
  and segment_marked: "\<not> sz_marked z \<Longrightarrow> segment (z\<lparr>sz_marked := True, sz_pos := p\<rparr>) = segment z @ empty_block"
  by (simp_all add: segment_def tokens_bytes_def)

lemma sz_log:
  assumes "sz_step input room flush z = (st, n, w, z')"
  shows "n \<le> length input \<and> length w \<le> room \<and> sz_in z' = sz_in z @ take n input \<and> sz_out z' = sz_out z @ w"
proof (cases "flush = Sync_Flush")
  case True
  let ?z = "z\<lparr>sz_marked := True, sz_pos := min (sz_pos z) (length (segment z))\<rparr>"
  obtain v y where e: "emit room ?z = (v, y)" by fastforce
  have "segment ?z = segment z @ (if sz_marked z then [] else empty_block)"
    by (simp add: segment_def)
  then have "sz_out ?z = sz_out z" "sz_in ?z = sz_in z" by (simp_all add: sz_out_def sz_in_def min_def)
  then show ?thesis using assms True e emit_out [OF e] by (auto simp: sz_step_def)
next
  case False
  show ?thesis
  proof (cases "sz_idle z")
    case idle: True
    define y where "y = (if sz_marked z
      then \<lparr>sz_done = sz_done z @ map Literal (sz_cur z) @ [Block], sz_cur = input, sz_marked = False, sz_pos = 0\<rparr>
      else z\<lparr>sz_cur := sz_cur z @ input, sz_pos := min (sz_pos z) (length (segment z))\<rparr>)"
    obtain v y' where e: "emit room y = (v, y')" by fastforce
    have lit: "tokens_value (map Literal xs) = xs" for xs by (induction xs) (simp_all add: tokens_value_def)
    have "sz_in y = sz_in z @ input"
      using lit [of "sz_cur z"] by (simp add: y_def sz_in_def tokens_value_def)
    moreover have "sz_out y = sz_out z"
    proof (cases "sz_marked z")
      case True
      then show ?thesis using idle by (simp add: y_def sz_out_def sz_idle_def segment_def tokens_bytes_def)
    next
      case False
      then show ?thesis using segment_append [OF False, where input = input and p = "min (sz_pos z) (length (segment z))"]
        by (simp add: y_def sz_out_def min_def)
    qed
    moreover have "n = length input" "w = v" "z' = y'" using assms False idle e by (simp_all add: sz_step_def y_def)
    ultimately show ?thesis using emit_out [OF e] by simp
  qed (use assms False in \<open>auto simp: sz_step_def\<close>)
qed

lemma sz_partial:
  assumes "sz_idle z" "sz_step input room Partial_Flush z = (st, n, w, z')"
  shows "st = Inr Z_Ok \<and> sz_idle z' \<and> n = length input"
proof -
  define y where "y = (if sz_marked z
    then \<lparr>sz_done = sz_done z @ map Literal (sz_cur z) @ [Block], sz_cur = input, sz_marked = False, sz_pos = 0\<rparr>
    else z\<lparr>sz_cur := sz_cur z @ input, sz_pos := min (sz_pos z) (length (segment z))\<rparr>)"
  obtain v y' where e: "emit room y = (v, y')" by fastforce
  have "\<not> sz_marked y" by (simp add: y_def)
  then show ?thesis using assms e emit_out [OF e] by (auto simp: sz_step_def y_def [symmetric] sz_idle_def)
qed

text \<open>A sync flush: the segment with its marker, from a position to a later one.\<close>

lemma sz_sync_cases:
  assumes "0 < room" "sz_step [] room Sync_Flush z = (st, n, w, z')"
  obtains p where "p = min (sz_pos z) (length (segment z))"
    "segment z' = tokens_bytes (map Literal (sz_cur z)) @ empty_block" "sz_marked z'" "sz_cur z' = sz_cur z"
    "sz_done z' = sz_done z" "w = take room (drop p (segment z'))" "sz_pos z' = p + length w"
    "st = Inr (if w = [] then Z_BufError else Z_Ok)"
    "segment z' = segment z @ (if sz_marked z then [] else empty_block)"
proof -
  define p where "p = min (sz_pos z) (length (segment z))"
  define y where "y = z\<lparr>sz_marked := True, sz_pos := p\<rparr>"
  have seg: "segment y = tokens_bytes (map Literal (sz_cur z)) @ empty_block"
    "segment y = segment z @ (if sz_marked z then [] else empty_block)"
    by (simp_all add: y_def segment_def)
  have pos: "min (sz_pos y) (length (segment y)) = p" using seg(2) by (simp add: y_def p_def)
  have "emit room y = (take room (drop p (segment y)), y\<lparr>sz_pos := p + length (take room (drop p (segment y)))\<rparr>)"
    using pos by (simp add: emit_def Let_def)
  then have z': "w = take room (drop p (segment y))" "z' = y\<lparr>sz_pos := p + length w\<rparr>"
    "st = Inr (if w = [] then Z_BufError else Z_Ok)"
    using assms(2) unfolding sz_step_def p_def [symmetric] y_def [symmetric] by auto
  from z'(2) have segz: "segment z' = segment y" by (simp add: segment_def)
  from z'(2) have sel: "sz_marked z'" "sz_cur z' = sz_cur z" "sz_done z' = sz_done z" "sz_pos z' = p + length w"
    by (simp_all add: y_def)
  have "w = take room (drop p (segment z'))" unfolding segz by (rule z'(1))
  from that [OF p_def trans [OF segz seg(1)] sel(1,2,3) this sel(4) z'(3) trans [OF segz seg(2)]] show thesis .
qed

lemma length_tokens_literal [simp]: "length (tokens_bytes (map Literal xs)) = 2 * length xs"
  by (induction xs) (simp_all add: tokens_bytes_def)

lemma nth_tokens_literal: "i < length xs \<Longrightarrow> tokens_bytes (map Literal xs) ! (2 * i) = 1"
proof (induction xs arbitrary: i)
  case (Cons x xs)
  have "tokens_bytes (map Literal (x # xs)) = 1 # x # tokens_bytes (map Literal xs)"
    by (simp add: tokens_bytes_def)
  then show ?case using Cons by (cases i) simp_all
qed simp

lemma length_empty_block [simp]: "length empty_block = 5" by (simp add: empty_block_def sync_marker_def)

text \<open>No prefix of a marked segment ends with two bytes 255, except the whole of it.\<close>

lemma segment_prefix:
  assumes "s = tokens_bytes (map Literal xs) @ empty_block" "2 \<le> k" "k < length s"
  shows "\<not> (s ! (k - 1) = 255 \<and> s ! (k - 2) = 255)"
proof
  assume ff: "s ! (k - 1) = 255 \<and> s ! (k - 2) = 255"
  have odd: "s ! j \<noteq> 255" if "even j" "j < 2 * length xs" for j
    using that nth_tokens_literal [of "j div 2" xs] assms(1) by (auto simp: nth_append)
  show False
  proof (cases "k - 1 < 2 * length xs")
    case True
    have "even (k - 1) \<or> even (k - 2)" using assms(2) by auto
    then show False using odd [of "k - 1"] odd [of "k - 2"] ff True assms(2) by linarith
  next
    case False
    define j where "j = k - 1 - 2 * length xs"
    have j: "k - 1 = 2 * length xs + j" "j < 4" using False assms by (simp_all add: j_def)
    then have "empty_block ! j = 255" using ff assms(1) by (simp add: nth_append)
    moreover have "j = 0 \<or> j = 1 \<or> j = 2 \<or> j = 3" using j(2) by auto
    ultimately have "j = 3" by (auto simp: empty_block_def sync_marker_def)
    then have "k - 2 = 2 * length xs + 2" using j(1) by simp
    then have "s ! (k - 2) = empty_block ! 2" using assms(1) by (simp add: nth_append)
    then show False using ff by (simp add: empty_block_def sync_marker_def)
  qed
qed

lemma sz_sync:
  assumes "0 < room" "sz_step [] room Sync_Flush z = (st, n, w, z')"
  shows "\<exists>s. st = Inr s \<and> (w = [] \<longrightarrow> s = Z_BufError)"
    and "\<not> sz_flushed z' \<Longrightarrow> length w = room \<and> sz_todo z' < sz_todo z \<and> ends_with (sz_tail z @ w) (sz_tail z')"
    and "sz_flushed z' \<Longrightarrow> w \<noteq> [] \<Longrightarrow> ends_with (sz_tail z @ w) sync_marker"
    and "ends_with (sz_out z') sync_marker \<Longrightarrow> sz_flushed z'"
proof -
  obtain p where p: "p = min (sz_pos z) (length (segment z))"
    and seg: "segment z' = tokens_bytes (map Literal (sz_cur z)) @ empty_block"
    and sel: "sz_marked z'" "sz_cur z' = sz_cur z" "sz_done z' = sz_done z"
    and w: "w = take room (drop p (segment z'))" and pos: "sz_pos z' = p + length w"
    and st: "st = Inr (if w = [] then Z_BufError else Z_Ok)"
    and grown: "segment z' = segment z @ (if sz_marked z then [] else empty_block)"
    by (rule sz_sync_cases [OF assms])
  let ?s = "segment z'" and ?k = "sz_pos z'" and ?b = "2 * length (sz_cur z)"
  have len: "length ?s = ?b + 5" by (simp add: seg)
  have "p \<le> length ?s" using p grown by simp
  then have k: "?k \<le> length ?s" "p \<le> ?k" "take ?k ?s = take p ?s @ w"
    unfolding pos w take_piece by simp_all
  have full: "length w = room" if "?k \<noteq> length ?s"
  proof -
    have "length w = min (length ?s - p) room" by (simp add: w)
    then show ?thesis using that pos \<open>p \<le> length ?s\<close> by (cases "length ?s - p \<le> room") simp_all
  qed
  have flushed: "sz_flushed z' \<longleftrightarrow> ?k = length ?s" using sel(1) k(1) by (auto simp: sz_flushed_def)
  show "\<exists>s. st = Inr s \<and> (w = [] \<longrightarrow> s = Z_BufError)" by (simp add: st)
  \<comment> \<open>The tail before and the bytes written are the segment from its marker on, or from \<open>p\<close>.\<close>
  have tail: "\<exists>u. sz_tail z @ w = u @ drop ?b (take ?k ?s)" if "w \<noteq> []"
  proof (cases "sz_idle z")
    case True
    have "p \<le> ?b"
    proof (cases "sz_marked z")
      case True
      then have "p = length ?s" using \<open>sz_idle z\<close> p grown by (simp add: sz_idle_def)
      then show ?thesis using that w by simp
    next
      case False
      then have "length (segment z) = ?b" by (simp add: segment_def)
      then show ?thesis using p by simp
    qed
    then have "drop ?b (take ?k ?s) = drop (?b - p) w" unfolding k(3) using k(1) by (simp add: len)
    then show ?thesis using True append_take_drop_id [of "?b - p" w] by (metis append.left_neutral sz_tail_def)
  next
    case False
    then have "segment z = ?s" "p = sz_pos z" using grown p by (auto simp: sz_idle_def)
    then have "sz_tail z = drop ?b (take p ?s)" using False by (simp add: sz_tail_def)
    then have t: "sz_tail z @ w = drop ?b (take p ?s) @ take (?b - p) w @ drop (?b - p) w" by simp
    have d: "drop ?b (take ?k ?s) = drop ?b (take p ?s) @ drop (?b - p) w"
      unfolding k(3) using \<open>p \<le> length ?s\<close> by simp
    show ?thesis
    proof (cases "p \<le> ?b")
      case True
      then have "drop ?b (take p ?s) = []" by simp
      then show ?thesis unfolding t d by (intro exI [of _ "take (?b - p) w"]) simp
    next
      case False
      then show ?thesis unfolding t d by (intro exI [of _ "[]"]) simp
    qed
  qed
  show "length w = room \<and> sz_todo z' < sz_todo z \<and> ends_with (sz_tail z @ w) (sz_tail z')" if "\<not> sz_flushed z'"
  proof -
    have "length w = room" using that flushed full by blast
    moreover have "sz_todo z' < sz_todo z"
    proof -
      have "segment (z\<lparr>sz_marked := True\<rparr>) = ?s" "segment (z'\<lparr>sz_marked := True\<rparr>) = ?s"
        using seg sel by (simp_all add: segment_def)
      then have "sz_todo z' = length ?s - (p + room)" "sz_todo z = length ?s - p"
        using \<open>length w = room\<close> pos p k(1) by (simp_all add: sz_todo_def min_absorb1)
      then show ?thesis using that flushed k(1) \<open>length w = room\<close> assms(1) pos by simp
    qed
    moreover have "sz_tail z' = drop ?b (take ?k ?s)" using that sel by (simp add: sz_tail_def sz_idle_def sz_flushed_def)
    ultimately show ?thesis using tail assms(1) by (auto simp: ends_with_iff)
  qed
  show "ends_with (sz_tail z @ w) sync_marker" if f: "sz_flushed z'" and "w \<noteq> []"
  proof -
    have "drop ?b (take ?k ?s) = [0] @ sync_marker" using f flushed by (simp add: seg empty_block_def)
    then show ?thesis using tail [OF that(2)] by (auto simp: ends_with_iff)
  qed
  show "sz_flushed z'" if e: "ends_with (sz_out z') sync_marker"
  proof (rule ccontr)
    assume "\<not> sz_flushed z'"
    then have less: "?k < length ?s" using flushed k(1) by simp
    then have "length w = room" using full by simp
    then have pos_k: "0 < ?k" using assms(1) pos by simp
    obtain u where u: "tokens_bytes (sz_done z) @ take ?k ?s = u @ [0, 0, 255, 255]"
      using e sel by (auto simp: sz_out_def ends_with_iff sync_marker_def)
    show False
    proof (cases "2 \<le> ?k")
      case True
      have "last (take ?k ?s) = 255" "last (butlast (take ?k ?s)) = 255"
        using arg_cong [OF u, of last] arg_cong [OF u, of "\<lambda>x. last (butlast x)"] True less
        by (auto simp: butlast_append last_append take_eq_Nil butlast_take split: if_splits)
      then have "?s ! (?k - 1) = 255 \<and> ?s ! (?k - 2) = 255"
        using True less last_take [of ?k ?s] last_take [of "?k - 1" ?s] by (simp add: butlast_take numeral_2_eq_2)
      then show False using segment_prefix [OF seg True less] by blast
    next
      case False
      then have "?k = 1" using pos_k by simp
      moreover have "?s ! 0 \<noteq> 255"
        unfolding seg by (cases "sz_cur z") (simp_all add: tokens_bytes_def empty_block_def)
      ultimately show False using arg_cong [OF u, of last] less last_take [of 1 ?s]
        by (cases ?s) simp_all
    qed
  qed
qed

interpretation stored: flate_contract stored_flate stored_decode "\<lambda>_. True" sz_in sz_out sz_tail sz_idle sz_flushed
  sz_todo sy_in sy_out
proof unfold_locales
  fix input room flush y st n w y'
  assume step: "y_decompress stored_flate input room flush y = (st, n, w, y')"
  let ?p = "min (sy_pos y) (length (stored_decode (sy_in y)))" and ?d = "stored_decode (sy_in y @ input)"
  have eq: "st = Inr Z_Ok" "n = length input" "w = take room (drop ?p ?d)"
    "y' = \<lparr>sy_in = sy_in y @ input, sy_pos = ?p + length w\<rparr>"
    using step by (auto simp: stored_flate_def sy_step_def Let_def)
  obtain t where t: "?d = stored_decode (sy_in y) @ t" using stored_decode_append by blast
  have "sy_out y = take ?p ?d" by (simp add: sy_out_def t min_def)
  then have out: "sy_out y' = sy_out y @ w" using eq(4) by (simp add: sy_out_def eq(3) take_piece del: length_take)
  then show "n \<le> length input \<and> sy_in y' = sy_in y @ take n input \<and> sy_out y' = sy_out y @ w"
    using eq by simp
  show "length w \<le> room" by (simp add: eq)
  show "(st = Inr Z_Ok \<or> st = Inr Z_BufError) \<and> (length w < room \<longrightarrow> n = length input \<and> sy_out y' = stored_decode (sy_in y'))"
    using eq by (auto simp: sy_out_def)
next
  show "\<exists>t. stored_decode (sy_in y) = sy_out y @ t" for y
    by (auto simp: sy_out_def intro!: exI [of _ "drop (sy_pos y) (stored_decode (sy_in y))"])
  show "\<exists>t. stored_decode (xs @ ys) = stored_decode xs @ t" for xs ys by (rule stored_decode_append)
  show "stored_decode (sz_out z) = sz_in z \<and> sz_idle z" if "sz_flushed z" for z
  proof -
    have "tokens_value (map Literal xs) = xs" for xs by (induction xs) (simp_all add: tokens_value_def)
    then have "stored_decode (tokens_bytes (map Literal (sz_cur z)) @ empty_block) = sz_cur z"
      using stored_decode_tokens [of "map Literal (sz_cur z)" empty_block] stored_decode_block [of "[]"] by simp
    then show ?thesis using that
      by (auto simp: sz_flushed_def sz_idle_def sz_out_def sz_in_def segment_def stored_decode_tokens)
  qed
  show "True = True \<and> stored_decode (sz_out z @ empty_block @ t) = stored_decode (sz_out z @ t)" if "sz_flushed z" for z t
  proof -
    have "sz_out z = tokens_bytes (sz_done z @ map Literal (sz_cur z) @ [Block])"
      using that by (auto simp: sz_flushed_def sz_out_def segment_def tokens_bytes_def)
    then show ?thesis by (simp add: stored_decode_tokens)
  qed
next
  fix input room flush z st n w z'
  assume "z_compress stored_flate input room flush z = (st, n, w, z')"
  then show "n \<le> length input \<and> length w \<le> room \<and> sz_in z' = sz_in z @ take n input \<and> sz_out z' = sz_out z @ w"
    using sz_log by (simp add: stored_flate_def)
next
  fix input :: bytes and room z st n w z'
  assume "sz_idle z" "input \<noteq> []" "z_compress stored_flate input room Partial_Flush z = (st, n, w, z')"
  then show "st = Inr Z_Ok \<and> sz_idle z' \<and> (n = 0 \<longrightarrow> sz_todo z' < sz_todo z)"
    using sz_partial [of z input room st n w z'] by (simp add: stored_flate_def)
next
  fix room z st n w z'
  assume "0 < room" "z_compress stored_flate [] room Sync_Flush z = (st, n, w, z')"
  note sync = sz_sync [OF this(1), of z st n w z'] and step = this(2)
  show "(\<exists>s. st = Inr s \<and> (w = [] \<longrightarrow> s = Z_BufError)) \<and>
    (\<not> sz_flushed z' \<longrightarrow> length w = room \<and> sz_todo z' < sz_todo z \<and> ends_with (sz_tail z @ w) (sz_tail z')) \<and>
    (sz_flushed z' \<and> w \<noteq> [] \<longrightarrow> ends_with (sz_tail z @ w) sync_marker)"
    using sync step by (simp add: stored_flate_def)
  show "sz_flushed z'" if "ends_with (sz_out z') sync_marker"
    using sync(4) step that by (simp add: stored_flate_def)
qed (simp_all add: stored_flate_def sz_new_def sy_new_def sz_in_def sz_out_def sz_idle_def sz_tail_def
    sy_out_def tokens_bytes_def tokens_value_def segment_def)


end
