(* ===== verification/Compression.thy ===== *)
theory Compression
  imports Stored_Flate
begin

text \<open>
  The properties of the compression layer: messages survive it, decompressing is
  bounded whatever arrives, and a pool shared by any number of connections keeps its
  bound and hands out matching states.
\<close>

section \<open>Messages\<close>

fun compress_messages ::
  "(bytes \<Rightarrow> bool \<Rightarrow> 'c \<Rightarrow> bytes res \<times> 'c) \<Rightarrow> bytes list list \<Rightarrow> 'c \<Rightarrow> bytes list list res \<times> 'c"
where
  "compress_messages compress [] c = (Ok [], c)"
| "compress_messages compress (m # ms) c =
    (case compress_all compress m c of
       (Err e, c) \<Rightarrow> (Err e, c)
     | (Ok qs, c) \<Rightarrow>
         (case compress_messages compress ms c of
            (Err e, c) \<Rightarrow> (Err e, c)
          | (Ok qss, c) \<Rightarrow> (Ok (qs # qss), c)))"

fun decompress_messages ::
  "(bytes \<Rightarrow> bool \<Rightarrow> nat \<Rightarrow> 'd \<Rightarrow> bytes res \<times> 'd) \<Rightarrow> (nat \<Rightarrow> nat) \<Rightarrow> bytes list list \<Rightarrow> 'd \<Rightarrow> bytes list list res \<times> 'd"
where
  "decompress_messages decompress lim [] d = (Ok [], d)"
| "decompress_messages decompress lim (qs # qss) d =
    (case decompress_all decompress lim 0 qs d of
       (Err e, d) \<Rightarrow> (Err e, d)
     | (Ok rs, d) \<Rightarrow>
         (case decompress_messages decompress lim qss d of
            (Err e, d) \<Rightarrow> (Err e, d)
          | (Ok rss, d) \<Rightarrow> (Ok (rs # rss), d)))"

context message_codec
begin

lemma messages_roundtrip:
  assumes "sync c d" "list_all (\<lambda>m. m \<noteq> [] \<and> (\<forall>n \<le> length (concat m). length (concat m) < lim n + n)) ms"
  shows "\<exists>qss c' rss d'. compress_messages compress ms c = (Ok qss, c') \<and>
    decompress_messages decompress lim qss d = (Ok rss, d') \<and> map concat rss = map concat ms \<and> sync c' d'"
  using assms
proof (induction ms arbitrary: c d)
  case (Cons m ms)
  have len: "m \<noteq> []" "\<And>n. n \<le> length (concat m) \<Longrightarrow> length (concat m) < lim n + n"
    and rest: "list_all (\<lambda>m. m \<noteq> [] \<and> (\<forall>n \<le> length (concat m). length (concat m) < lim n + n)) ms"
    using Cons.prems(2) by simp_all
  obtain qs c1 rs d1 where one: "compress_all compress m c = (Ok qs, c1)"
    "decompress_all decompress lim 0 qs d = (Ok rs, d1)" "concat rs = concat m" "sync c1 d1"
    using message_roundtrip [OF Cons.prems(1) len] by blast
  obtain qss c' rss d' where "compress_messages compress ms c1 = (Ok qss, c')"
    "decompress_messages decompress lim qss d1 = (Ok rss, d')" "map concat rss = map concat ms" "sync c' d'"
    using Cons.IH [OF one(4) rest] by blast
  then show ?case using one
    by (intro exI [of _ "qs # qss"] exI [of _ c'] exI [of _ "rs # rss"] exI [of _ d']) simp
qed simp

end

sublocale flate_contract \<subseteq> codec: message_codec "run_compress zlib fl" "run_decompress zlib fl" "codec_sync zlib"
  for zlib
  by (rule message_codec_run)

context flate_contract
begin

lemma pools_fresh_new: "pools_fresh zlib (\<lambda>k. pool_new zlib (cap k))"
  by (simp add: pools_fresh_def pool_ok_new)

lemma config_sync:
  assumes "no_context_takeover (cc_outgoing cc) = no_context_takeover (cc_incoming cc')"
  shows "codec_sync zlib (config_compressor cc, \<lambda>k. pool_new zlib (cap k))
    (config_decompressor cc', \<lambda>k. pool_new zlib (cap' k))"
  using assms
  by (intro codec_sync_new pools_fresh_new)
    (auto simp: config_compressor_def config_decompressor_def compressor_new_def decompressor_new_def Let_def)

end

section \<open>Properties\<close>


definition demo_config :: compression_config where
  "demo_config = \<lparr>cc_level = 6, cc_outgoing = \<lparr>no_context_takeover = True, half_window_bits = None\<rparr>,
     cc_incoming = \<lparr>no_context_takeover = True, half_window_bits = Some 9\<rparr>, cc_pool = Some 0\<rparr>"


text \<open>The calls of a decompressor one after the other, whatever comes in.\<close>

fun decompress_calls ::
  "bool \<Rightarrow> ('z, 'y) flate \<Rightarrow> (bytes \<times> bool \<times> nat) list \<Rightarrow> 'y decompressor \<Rightarrow> ('z, 'y) pools \<Rightarrow> bytes res list option"
where
  "decompress_calls zlib fl [] d pools = Some []"
| "decompress_calls zlib fl ((input, stream_end, m) # calls) d pools =
    (case decompressor_decompress zlib fl input stream_end m d pools of
       None \<Rightarrow> None
     | Some (r, d, pools) \<Rightarrow> map_option (\<lambda>rs. r # rs) (decompress_calls zlib fl calls d pools))"

text \<open>
  C4. Decompressing is bounded, whatever the peer sends and however flate2 answers (it
  only must not write past its slice): every call returns, and its output is shorter
  than the limit of the call, also after earlier calls failed.
\<close>

theorem decompression_bounded:
  assumes "bounded_flate fl"
  shows "\<exists>rs. decompress_calls zlib fl calls (config_decompressor cc) (\<lambda>k. pool_new zlib (cap k)) = Some rs \<and>
    list_all2 (\<lambda>(_, _, m) r. case r of Err _ \<Rightarrow> True | Ok out \<Rightarrow> length out < m) calls rs"
proof -
  have "\<exists>rs. decompress_calls zlib fl calls d pools = Some rs \<and>
      list_all2 (\<lambda>(_, _, m) r. case r of Err _ \<Rightarrow> True | Ok out \<Rightarrow> length out < m) calls rs"
    if "decompressor_idle d" "pools_idle zlib pools" for d pools
    using that
  proof (induction calls arbitrary: d pools)
    case (Cons call calls)
    obtain input stream_end m where call: "call = (input, stream_end, m)" by (metis prod_cases3)
    obtain r d' pools' where "decompressor_decompress zlib fl input stream_end m d pools = Some (r, d', pools')"
      "decompressor_idle d'" "pools_idle zlib pools'" "\<forall>out. r = Ok out \<longrightarrow> length out < m"
      using bounded_flate.decompress_returns [OF assms Cons.prems] by blast
    then show ?case using Cons.IH [of d' pools'] call by (cases r) auto
  qed simp
  moreover have "decompressor_idle (config_decompressor cc)" "pools_idle zlib (\<lambda>k. pool_new zlib (cap k))"
    by (simp_all add: decompressor_idle_def config_decompressor_def decompressor_new_def Let_def pools_idle_def pool_ok_new)
  ultimately show ?thesis by blast
qed

theorem decompression_bounded_witness:
  "\<exists>rs. decompress_calls False stored_flate [([1, 7, 1, 8, 1, 9], True, 3), ([1, 7], True, 3)]
      (config_decompressor demo_config) (\<lambda>k. pool_new False 2) = Some rs \<and>
    list_all2 (\<lambda>(_, _, m) r. case r of Err _ \<Rightarrow> True | Ok out \<Rightarrow> length out < m)
      [([1, 7, 1, 8, 1, 9] :: bytes, True, 3), ([1, 7], True, 3)] rs"
  by (rule decompression_bounded [OF stored.bounded_flate_axioms])

text \<open>What connections do with a pool, in the order it happens.\<close>

datatype ('z, 'y) pool_op =
    Take_Deflate nat "nat option"
  | Put_Deflate "nat option" "'z deflater"
  | Take_Inflate "nat option"
  | Put_Inflate "nat option" "'y inflater"

fun pool_run ::
  "bool \<Rightarrow> ('z, 'y) pool_op list \<Rightarrow> ('z, 'y) pool \<Rightarrow>
   (nat \<times> nat option \<times> 'z deflater) list \<times> (nat option \<times> 'y inflater) list \<times> ('z, 'y) pool"
where
  "pool_run zlib [] p = ([], [], p)"
| "pool_run zlib (Take_Deflate level wbits # ops) p =
    (case take_deflate zlib level wbits p of
       (d, p) \<Rightarrow> (case pool_run zlib ops p of
         (ds, is, p) \<Rightarrow> ((case d of None \<Rightarrow> ds | Some d \<Rightarrow> (level, wbits, d) # ds), is, p)))"
| "pool_run zlib (Put_Deflate wbits d # ops) p = pool_run zlib ops (put_deflate zlib wbits d p)"
| "pool_run zlib (Take_Inflate wbits # ops) p =
    (case take_inflate zlib wbits p of
       (i, p) \<Rightarrow> (case pool_run zlib ops p of
         (ds, is, p) \<Rightarrow> (ds, (case i of None \<Rightarrow> is | Some i \<Rightarrow> (wbits, i) # is), p)))"
| "pool_run zlib (Put_Inflate wbits i # ops) p = pool_run zlib ops (put_inflate zlib wbits i p)"

definition returned_deflate :: "bool \<Rightarrow> ('z, 'y) pool_op list \<Rightarrow> nat \<Rightarrow> 'z deflater \<Rightarrow> bool" where
  "returned_deflate zlib ops k d \<longleftrightarrow> (\<exists>wbits. Put_Deflate wbits d \<in> set ops \<and> slot zlib wbits = k)"

definition returned_inflate :: "bool \<Rightarrow> ('z, 'y) pool_op list \<Rightarrow> nat \<Rightarrow> 'y inflater \<Rightarrow> bool" where
  "returned_inflate zlib ops k i \<longleftrightarrow> (\<exists>wbits. Put_Inflate wbits i \<in> set ops \<and> slot zlib wbits = k)"

lemma pool_run_ok:
  assumes "pool_run zlib ops p = (ds, is, p')" "pool_ok zlib P Q p"
    "\<forall>wbits d. Put_Deflate wbits d \<in> set ops \<longrightarrow> P (slot zlib wbits) d"
    "\<forall>wbits i. Put_Inflate wbits i \<in> set ops \<longrightarrow> Q (slot zlib wbits) i"
  shows "pool_ok zlib P Q p' \<and> list_all (\<lambda>(level, wbits, d). P (slot zlib wbits) d \<and> df_level d = level) ds \<and>
    list_all (\<lambda>(wbits, i). Q (slot zlib wbits) i) is"
  using assms
proof (induction zlib ops p arbitrary: ds "is" rule: pool_run.induct)
  case (2 zlib level wbits ops p)
  obtain x p1 where x: "take_deflate zlib level wbits p = (x, p1)" by fastforce
  obtain ds1 is1 p2 where r: "pool_run zlib ops p1 = (ds1, is1, p2)" by (metis prod_cases3)
  show ?case using "2.IH" [OF x [symmetric]] "2.prems" x r take_deflate_ok [OF "2.prems"(2) x]
    by (auto split: option.splits)
next
  case (3 zlib wbits d ops p)
  then show ?case using put_deflate_ok [of zlib P Q p wbits d] by auto
next
  case (4 zlib wbits ops p)
  obtain x p1 where x: "take_inflate zlib wbits p = (x, p1)" by fastforce
  obtain ds1 is1 p2 where r: "pool_run zlib ops p1 = (ds1, is1, p2)" by (metis prod_cases3)
  show ?case using "4.IH" [OF x [symmetric]] "4.prems" x r take_inflate_ok [OF "4.prems"(2) x]
    by (auto split: option.splits)
next
  case (5 zlib wbits i ops p)
  then show ?case using put_inflate_ok [of zlib P Q p wbits i] by auto
qed simp

lemma pool_run_capacity:
  assumes "pool_run zlib ops q = (ds, is, p)"
    "case q of None \<Rightarrow> capacity = 0 | Some sh \<Rightarrow> sh_capacity sh = capacity"
  shows "case p of None \<Rightarrow> capacity = 0 | Some sh \<Rightarrow> sh_capacity sh = capacity"
  using assms
proof (induction zlib ops q arbitrary: ds "is" rule: pool_run.induct)
  case (2 zlib level wbits ops p)
  then show ?case
    by (auto simp: take_deflate_def queue_pop_def split: prod.splits option.splits list.splits if_splits)
next
  case (4 zlib wbits ops p)
  then show ?case
    by (auto simp: take_inflate_def queue_pop_def split: prod.splits option.splits list.splits)
qed (auto simp: put_deflate_def put_inflate_def split: option.splits)


end
