(* ===== verification/Delivery.thy ===== *)
theory Delivery
  imports Send Compression
begin

text \<open>
  Two connections: what one sends the other receives.  The sender's messages are
  packed into frames, the frames travel as bytes that arrive in any pieces, and the
  receiver unpacks and reassembles them.
\<close>

section \<open>Many messages\<close>

fun ws_send_all ::
  "('s, 'c, 'd) world \<Rightarrow> nat \<Rightarrow> frame list \<Rightarrow> ('s, 'c, 'd) web_socket \<Rightarrow>
   (unit res poll \<times> ('s, 'c, 'd) web_socket) exec"
where
  "ws_send_all w k [] ws = Finished (ws_poll_flush w k ws)"
| "ws_send_all w k (m # ms) ws =
    (case ws_poll_ready w k ws of
       (Pending, ws) \<Rightarrow> Finished (Pending, ws)
     | (Ready (Err e), ws) \<Rightarrow> Finished (Ready (Err e), ws)
     | (Ready (Ok _), ws) \<Rightarrow>
         (case ws_start_send w m ws of
            Finished (Err e, ws) \<Rightarrow> Finished (Ready (Err e), ws)
          | Finished (Ok _, ws) \<Rightarrow> ws_send_all w k ms ws
          | Panic \<Rightarrow> Panic
          | Diverges \<Rightarrow> Diverges))"

text \<open>One poll per clock, up to the first one without a message.\<close>

fun ws_receive_all ::
  "('s, 'c, 'd) world \<Rightarrow> nat \<Rightarrow> (nat \<Rightarrow> nat) list \<Rightarrow> ('s, 'c, 'd) web_socket \<Rightarrow>
   (frame list \<times> ('s, 'c, 'd) web_socket) option"
where
  "ws_receive_all w k [] ws = Some ([], ws)"
| "ws_receive_all w k (clock # clocks) ws =
    (case ws_poll_next_frame w k clock ws of
       None \<Rightarrow> None
     | Some (Ready (Ok m), ws) \<Rightarrow> map_option (\<lambda>(ms, ws). (m # ms, ws)) (ws_receive_all w k clocks ws)
     | Some (_, ws) \<Rightarrow> Some ([], ws))"

text \<open>A message on the wire: its opcode, whether it is compressed, the payloads of its frames.\<close>

type_synonym wire_message = "opcode \<times> bool \<times> bytes list"

definition wire_message_frames :: "wire_message list \<Rightarrow> frame list" where
  "wire_message_frames xs = concat (map (\<lambda>(c, cmp, qs). message_frames c cmp qs) xs)"

lemma wire_message_frames_Cons [simp]:
  "wire_message_frames [] = []"
  "wire_message_frames ((c, cmp, qs) # xs) = message_frames c cmp qs @ wire_message_frames xs"
  by (simp_all add: wire_message_frames_def)

fun packs ::
  "('s, 'c, 'd) world \<Rightarrow> nat \<Rightarrow> nat option \<Rightarrow> 'c option \<Rightarrow> frame list \<Rightarrow> wire_message list \<Rightarrow> bool"
where
  "packs w thr sz z [] xs \<longleftrightarrow> xs = []"
| "packs w thr sz z (m # ms) xs \<longleftrightarrow>
    (\<exists>qs z1 ys. pack_all w (compresses thr z (opcode m) (parts sz (payload m))) (parts sz (payload m)) z qs z1 \<and>
       xs = (opcode m, compresses thr z (opcode m) (parts sz (payload m)), qs) # ys \<and> packs w thr sz z1 ms ys)"

fun unpacks :: "('s, 'c, 'd) world \<Rightarrow> nat \<Rightarrow> nat \<Rightarrow> 'd option \<Rightarrow> wire_message list \<Rightarrow> frame list \<Rightarrow> bool" where
  "unpacks w P B y [] ms \<longleftrightarrow> ms = []"
| "unpacks w P B y ((c, cmp, qs) # xs) ms \<longleftrightarrow>
    (\<exists>rs y1 m ms'. qs \<noteq> [] \<and>
       unpack_all w cmp (\<lambda>n. if length qs = 1 then P else min P (B - n)) 0 qs y rs y1 \<and>
       ms = m # ms' \<and> opcode m = c \<and> payload m = concat rs \<and> unpacks w P B y1 xs ms')"

section \<open>The sender\<close>

lemma poll_flush_prompt:
  assumes "frame_sink (w_tr w) sent" "prompt (w_tr w)"
  shows "\<exists>cn'. poll_flush w k cn = (Ready (Ok ()), cn') \<and> sent (stream cn') = sent (stream cn)"
proof -
  obtain t where t: "tr_flush (w_tr w) (stream cn) = (Ready (Ok ()), t)" using prompt_flush [OF assms(2)] by blast
  then show ?thesis using frame_sink.flush_sent [OF assms(1) t] frame_sink.resize_sent [OF assms(1)]
    by (auto simp: poll_flush_def wh_poll_flush_def release_write_buffer_def Let_def)
qed

lemma send_messages:
  assumes sink: "frame_sink (w_tr w) sent" "prompt (w_tr w)"
    and "flushes_to sent w k thr z fs l ws" "outgoing_fragments l = []" "fragment_size l \<noteq> Some 0"
    and "list_all data_message ms" "packs w thr (fragment_size l) z ms xs"
  shows "\<exists>ws1 ws2. ws_send_all w k ms ws = Finished (Ready (Ok ()), ws2) \<and>
    ws_poll_flush w k ws1 = (Ready (Ok ()), ws2) \<and>
    sent (stream (ws_streaming ws2)) = fs @ wire_message_frames xs"
  using assms(3,6,7)
proof (induction ms arbitrary: z fs ws xs)
  case Nil
  obtain ws1 where ws1: "poll_flush_fragments w k ws = (Ready (Ok ()), ws1)" "sent (stream (ws_streaming ws1)) = fs"
    using Nil.prems(1) by (auto simp: flushes_to_def sending_def)
  obtain cn where "poll_flush w k (ws_streaming ws1) = (Ready (Ok ()), cn)" "sent (stream cn) = fs"
    using poll_flush_prompt [OF sink, of k "ws_streaming ws1"] ws1(2) by auto
  then have "ws_poll_flush w k ws = (Ready (Ok ()), ws1\<lparr>ws_streaming := cn\<rparr>)" using ws1(1) by (simp add: ws_poll_flush_def)
  then show ?case using Nil.prems(3) \<open>sent (stream cn) = fs\<close> by auto
next
  case (Cons m ms)
  obtain qs z1 ys where q: "pack_all w (compresses thr z (opcode m) (parts (fragment_size l) (payload m)))
      (parts (fragment_size l) (payload m)) z qs z1"
    and xs: "xs = (opcode m, compresses thr z (opcode m) (parts (fragment_size l) (payload m)), qs) # ys"
    and more: "packs w thr (fragment_size l) z1 ms ys"
    using Cons.prems(3) by auto
  obtain wsa wsb where "ws_poll_ready w k ws = (Ready (Ok ()), wsa)" "ws_start_send w m wsa = Finished (Ok (), wsb)"
    and fl: "flushes_to sent w k thr z1
      (fs @ message_frames (opcode m) (compresses thr z (opcode m) (parts (fragment_size l) (payload m))) qs) l wsb"
    using send_message [OF sink Cons.prems(1) assms(4,5) _ refl refl q] Cons.prems(2) by auto
  then show ?case using Cons.IH [OF fl _ more] Cons.prems(2) xs by simp
qed

section \<open>The receiver\<close>

context frame_source
begin

lemma receive_messages:
  assumes tr: "w_tr w = tr" and l: "incoming_fragment l = None" "incoming_buffer l = []"
    and "length clocks = length ms" "list_all (\<lambda>clock. \<forall>i j. on_time (clock i) (clock j) l) clocks"
    and "receiving delivers P u False y l gs ws"
    and "map unmasked gs = wire_message_frames xs" "unpacks w P (max_read_buffer l) y xs ms"
    and "list_all (\<lambda>m. data_message m \<and> length (payload m) < P \<and> length (payload m) < max_read_buffer l \<and>
      \<not> (u \<and> opcode m = Text \<and> from_utf8 (payload m) = None)) ms"
  shows "\<exists>ws'. ws_receive_all w k clocks ws = Some (ms, ws')"
  using assms(4-)
proof (induction xs arbitrary: ms clocks gs y ws)
  case (Cons x xs)
  obtain c cmp qs where x: "x = (c, cmp, qs)" by (metis prod_cases3)
  obtain rs y1 m ms' where u: "qs \<noteq> []" "ms = m # ms'" "opcode m = c" "payload m = concat rs"
    "unpack_all w cmp (\<lambda>n. if length qs = 1 then P else min P (max_read_buffer l - n)) 0 qs y rs y1"
    "unpacks w P (max_read_buffer l) y1 xs ms'"
    using Cons.prems(5) x by auto
  obtain clock clocks' where clocks: "clocks = clock # clocks'" using Cons.prems(1) u(2) by (cases clocks) auto
  define n where "n = length (message_frames c cmp qs)"
  have gs: "map unmasked (take n gs) = message_frames c cmp qs" "map unmasked (drop n gs) = wire_message_frames xs"
    using Cons.prems(4) x unfolding take_map [symmetric] drop_map [symmetric] by (simp_all add: n_def)
  have m: "data_message m" using Cons.prems(6) u(2) by simp
  have "\<exists>ws1. ws_poll_next_frame w k clock ws = Some (Ready (Ok \<lparr>fin = True, opcode = c, is_compressed = False,
      mask_key = None, payload = concat rs\<rparr>), ws1) \<and> receiving delivers P u False y1 l (drop n gs) ws1"
    by (rule receive_message [OF tr l _ _ gs(1) u(1) _ u(5)])
      (use Cons.prems clocks u m in \<open>auto simp: data_message_def\<close>)
  then obtain ws1 where ws1: "ws_poll_next_frame w k clock ws = Some (Ready (Ok m), ws1)"
    "receiving delivers P u False y1 l (drop n gs) ws1"
    using data_message_frame [OF m] u(3,4) by auto
  then show ?case using Cons.IH [where clocks = clocks' and ms = ms' and gs = "drop n gs" and y = y1 and ws = ws1] Cons.prems clocks u gs by auto
qed simp

end

section \<open>Both ends agree\<close>

context message_codec
begin

lemma packs_unpacks:
  assumes "w_compress w = compress" "w_decompress w' = decompress"
    and "(z = None \<and> y = None) \<or> (\<exists>c d. z = Some c \<and> y = Some d \<and> sync c d)"
    and "list_all (\<lambda>m. length (payload m) < P \<and> length (payload m) < B) ms"
  shows "\<exists>xs. packs w thr sz z ms xs \<and> unpacks w' P B y xs ms"
  using assms(3,4)
proof (induction ms arbitrary: z y)
  case (Cons m ms)
  let ?ps = "parts sz (payload m)"
  let ?cmp = "compresses thr z (opcode m) ?ps"
  have "\<exists>qs z1 rs y1. pack_all w ?cmp ?ps z qs z1 \<and> qs \<noteq> [] \<and>
      unpack_all w' ?cmp (\<lambda>n. if length qs = 1 then P else min P (B - n)) 0 qs y rs y1 \<and> concat rs = payload m \<and>
      ((z1 = None \<and> y1 = None) \<or> (\<exists>c d. z1 = Some c \<and> y1 = Some d \<and> sync c d))"
  proof (cases ?cmp)
    case False
    then show ?thesis using Cons.prems(1)
      by (intro exI [of _ ?ps] exI [of _ z] exI [of _ y]) (simp add: pack_all_plain unpack_all_plain)
  next
    case True
    then obtain c d where cd: "z = Some c" "y = Some d" "sync c d" using Cons.prems(1) by (auto simp: compresses_def)
    let ?lim = "\<lambda>n. if length ?ps = 1 then P else min P (B - n)"
    have "length (concat ?ps) < ?lim n + n" if "n \<le> length (concat ?ps)" for n
      using Cons.prems(2) that by auto
    then obtain qs c' rs d' where r: "compress_all compress ?ps c = (Ok qs, c')" "length qs = length ?ps"
      "decompress_all decompress ?lim 0 qs d = (Ok rs, d')" "concat rs = concat ?ps" "sync c' d'"
      using message_roundtrip [OF cd(3), of ?ps ?lim] by auto
    then have "pack_all w True ?ps z qs (Some c')" "unpack_all w' True ?lim 0 qs y rs (Some d')"
      using pack_all_compress [of w] unpack_all_decompress [of w'] assms(1,2) cd by auto
    moreover have "qs \<noteq> []" using r(2) parts_not_Nil by fastforce
    ultimately show ?thesis using r(2,4,5) True
      by (intro exI [of _ qs] exI [of _ "Some c'"] exI [of _ rs] exI [of _ "Some d'"]) simp
  qed
  then obtain qs z1 rs y1 where one: "pack_all w ?cmp ?ps z qs z1" "qs \<noteq> []"
    "unpack_all w' ?cmp (\<lambda>n. if length qs = 1 then P else min P (B - n)) 0 qs y rs y1" "concat rs = payload m"
    "(z1 = None \<and> y1 = None) \<or> (\<exists>c d. z1 = Some c \<and> y1 = Some d \<and> sync c d)" by blast
  obtain xs where "packs w thr sz z1 ms xs" "unpacks w' P B y1 xs ms" using Cons.IH [OF one(5)] Cons.prems(2) by auto
  then have "packs w thr sz z (m # ms) ((opcode m, ?cmp, qs) # xs)" "unpacks w' P B y ((opcode m, ?cmp, qs) # xs) (m # ms)"
    using one(1-3) one(4) [symmetric] unfolding packs.simps unpacks.simps by blast+
  then show ?case by blast
qed simp

end

section \<open>Over the in-memory transport\<close>

text \<open>
  \<open>Framed::from_parts\<close> over a socket whose reads will be \<open>input\<close>; \<open>boundary\<close> is the
  backpressure boundary it starts with.
\<close>

definition framed_parts ::
  "hardware \<Rightarrow> nat \<Rightarrow> (nat \<Rightarrow> mask4) \<Rightarrow> bytes list \<Rightarrow> codec \<Rightarrow> bytes \<Rightarrow> framed"
where
  "framed_parts hw boundary random input c read_buf =
    \<lparr>fr_hw = hw, fr_codec = c, fr_read = read_buf, fr_input = input, fr_eof = False, fr_write = [],
     fr_out = [], fr_log = [], fr_random = random, fr_boundary = boundary\<rparr>"

definition framed_set_boundary :: "nat \<Rightarrow> framed \<Rightarrow> framed" where
  "framed_set_boundary b s = s\<lparr>fr_boundary := b\<rparr>"

text \<open>
  The frames sent so far, with a mark in front when the bytes written are not their
  encoding for the role \<open>rl\<close>: no operation sets or clears the mark.
\<close>

definition framed_sent :: "role \<Rightarrow> framed \<Rightarrow> frame list" where
  "framed_sent rl s = (if framed_ok s \<and> codec_role (fr_codec s) = rl then [] else [close_raw []]) @ fr_log s"

lemma framed_ok_cong:
  "framed_bytes s' = framed_bytes s \<Longrightarrow> fr_log s' = fr_log s \<Longrightarrow> fr_random s' = fr_random s \<Longrightarrow>
   codec_role (fr_codec s') = codec_role (fr_codec s) \<Longrightarrow> framed_sent rl s' = framed_sent rl s"
  by (simp add: framed_sent_def framed_ok_def)

lemma framed_sent_send: "framed_send f s = (r, s') \<Longrightarrow> r = Ok () \<and> framed_sent rl s' = framed_sent rl s @ [f]"
  by (auto simp: framed_sent_def framed_ok_def framed_bytes_def framed_send_def codec_encode_def encode_wire
      enumerate_append_eq)

interpretation framed_role: frame_sink framed_transport "framed_sent rl" for rl
proof unfold_locales
  fix s s' r
  assume "tr_next framed_transport s = (r, s')"
  then show "framed_sent rl s' = framed_sent rl s"
    using framed_next_log [of "fr_input s" s r s'] by (intro framed_ok_cong) (simp_all add: framed_transport_def framed_bytes_def)
next
  fix s s' r
  assume "tr_ready framed_transport s = (r, s')"
  then show "framed_sent rl s' = framed_sent rl s"
    by (intro framed_ok_cong) (auto simp: framed_transport_def framed_ready_def framed_flush_def framed_bytes_def split: if_splits)
next
  fix s s' r
  assume "tr_flush framed_transport s = (r, s')"
  then show "framed_sent rl s' = framed_sent rl s"
    by (intro framed_ok_cong) (auto simp: framed_transport_def framed_flush_def framed_bytes_def)
next
  fix s s' r
  assume "tr_close framed_transport s = (r, s')"
  then show "framed_sent rl s' = framed_sent rl s"
    by (intro framed_ok_cong) (auto simp: framed_transport_def framed_flush_def framed_bytes_def)
next
  fix f s s' u
  assume "tr_send framed_transport f s = (Ok u, s')"
  then show "framed_sent rl s' = framed_sent rl s @ [f]"
    using framed_sent_send by (auto simp: framed_transport_def)
next
  fix f s s' e
  assume "tr_send framed_transport f s = (Err e, s')"
  then show "framed_sent rl s' = framed_sent rl s"
    using framed_sent_send [of f s "Err e" s' rl] by (simp add: framed_transport_def)
qed (simp_all add: framed_transport_def)

definition peer :: "role \<Rightarrow> role" where
  "peer rl = (case rl of Server \<Rightarrow> Client | Client \<Rightarrow> Server)"

text \<open>What the peer's decoder makes of a data frame that was sent.\<close>

lemma peer_decodes:
  assumes "mask_key f = None" "\<not> is_control (opcode f)" "length (payload f) < limit" "length (payload f) < 2 ^ 64"
  shows "decode hw (decoder_new (peer rl) limit) (wire (outgoing r rl f) @ x) =
    (Item (outgoing r rl f), decoder_new (peer rl) limit, x)"
proof -
  have "header_ok (fin f) (opcode f) (length (payload f)) limit"
    using assms by (auto simp: header_ok_def)
  then show ?thesis
    using assms decode_wire_client [of "decoder_new Client limit" f hw x]
      decode_wire_server [of "decoder_new Server limit" "f\<lparr>mask_key := Some r\<rparr>" r hw x]
    by (cases rl) (simp_all add: peer_def outgoing_def decoder_new_def set_random_mask_if_not_set_def)
qed

lemma peer_decodes_all:
  assumes "list_all (\<lambda>f. \<not> is_control (opcode f) \<and> mask_key f = None) fs"
    "list_all (\<lambda>f. length (payload f) < min limit (2 ^ 64)) fs"
    "\<forall>g\<in>set gs. \<exists>r f. f \<in> set fs \<and> g = outgoing r rl f"
  shows "\<forall>g\<in>set gs. \<forall>x. decode hw (decoder_new (peer rl) limit) (wire g @ x) = (Item g, decoder_new (peer rl) limit, x)"
proof (intro ballI allI)
  fix g x assume "g \<in> set gs"
  then obtain r f where f: "f \<in> set fs" "g = outgoing r rl f" using assms(3) by blast
  then have "mask_key f = None" "\<not> is_control (opcode f)" "length (payload f) < limit" "length (payload f) < 2 ^ 64"
    using assms(1,2) by (simp_all add: list_all_iff)
  then show "decode hw (decoder_new (peer rl) limit) (wire g @ x) = (Item g, decoder_new (peer rl) limit, x)"
    unfolding f(2) by (rule peer_decodes)
qed

lemma unmasked_outgoing: "mask_key f = None \<Longrightarrow> unmasked (outgoing r rl f) = f"
  by (cases f) (simp add: outgoing_def set_random_mask_if_not_set_def)

lemma packs_frames:
  assumes "packs w thr sz z ms xs" "list_all data_message ms"
  shows "list_all (\<lambda>f. \<not> is_control (opcode f) \<and> mask_key f = None) (wire_message_frames xs)"
proof -
  have *: "list_all (\<lambda>f. \<not> is_control (opcode f) \<and> mask_key f = None) (message_frames c cmp qs)"
    if "\<not> is_control c" for c cmp qs
    using that by (induction qs arbitrary: c cmp) simp_all
  show ?thesis using assms
    by (induction ms arbitrary: xs z) (auto simp: data_message_def intro!: *)
qed

lemma poll_flush_framed:
  "w_tr w = framed_transport \<Longrightarrow> ws_poll_flush w k ws = (Ready (Ok ()), ws') \<Longrightarrow>
   fr_write (stream (ws_streaming ws')) = []"
  by (auto simp: ws_poll_flush_def poll_flush_def wh_poll_flush_def framed_transport_def framed_flush_def
      release_write_buffer_def Let_def split: prod.splits poll.splits sum.splits if_splits)

text \<open>What the sender has written are the encodings of its frames, each masked when its role asks for it.\<close>

lemma framed_sent_wire:
  assumes "framed_sent rl s = fs" "list_all (\<lambda>f. \<not> is_control (opcode f) \<and> mask_key f = None) fs" "fr_write s = []"
  shows "\<exists>gs. fr_log s = fs \<and> fr_out s = concat (map wire gs) \<and> map unmasked gs = fs \<and>
    (\<forall>g\<in>set gs. \<exists>r f. f \<in> set fs \<and> g = outgoing r rl f)"
proof -
  have ok: "framed_ok s" "codec_role (fr_codec s) = rl" and log: "fr_log s = fs"
    using assms(1,2) by (auto simp: framed_sent_def close_raw_def split: if_splits)
  let ?gs = "map (\<lambda>(i, f). outgoing (fr_random s i) rl f) (enumerate 0 fs)"
  have mem: "snd x \<in> set fs" if "x \<in> set (enumerate 0 fs)" for x
    using that set_zip_rightD [of "fst x" "snd x" "[0..<length fs]" fs] by (simp add: enumerate_eq_zip)
  have "map unmasked ?gs = map snd (enumerate 0 fs)"
    unfolding map_map
  proof (rule map_cong [OF refl])
    fix x assume "x \<in> set (enumerate 0 fs)"
    then have "snd x \<in> set fs" by (rule mem)
    then show "(unmasked \<circ> (\<lambda>(i, f). outgoing (fr_random s i) rl f)) x = snd x"
      using assms(2) by (auto simp: list_all_iff unmasked_outgoing split: prod.split)
  qed
  moreover have "fr_out s = concat (map wire ?gs)"
    using ok log assms(3) by (simp add: framed_ok_def framed_bytes_def comp_def case_prod_unfold)
  moreover have "\<forall>g\<in>set ?gs. \<exists>r f. f \<in> set fs \<and> g = outgoing r rl f"
  proof
    fix g assume "g \<in> set ?gs"
    then obtain x where "x \<in> set (enumerate 0 fs)" "g = outgoing (fr_random s (fst x)) rl (snd x)" by auto
    then show "\<exists>r f. f \<in> set fs \<and> g = outgoing r rl f" using mem by blast
  qed
  ultimately show ?thesis using log by (intro exI [of _ ?gs]) simp
qed

section \<open>Connections built from the same agreement\<close>

lemma resolve_mirrored:
  assumes "resolve exts level rl = Ok cc" "resolve exts level' (peer rl) = Ok cc'"
  shows "(cc = None \<and> cc' = None) \<or>
    (\<exists>c c'. cc = Some c \<and> cc' = Some c' \<and> cc_outgoing c = cc_incoming c' \<and> cc_incoming c = cc_outgoing c')"
  using assms by (cases rl) (auto simp: resolve_def peer_def Let_def split: option.splits)

lemma negotiation_mirrored:
  assumes "negotiation_new checks exts opts rl = Finished (Ok n)"
    "negotiation_new checks' exts opts' (peer rl) = Finished (Ok n')"
  shows "(ng_compression n = None \<and> ng_compression n' = None) \<or>
    (\<exists>c c'. ng_compression n = Some c \<and> ng_compression n' = Some c' \<and>
      no_context_takeover (cc_outgoing c) = no_context_takeover (cc_incoming c'))"
proof -
  obtain cc cc' where r: "resolve exts (map_option do_level (opt_compression opts)) rl = Ok cc"
    "resolve exts (map_option do_level (opt_compression opts')) (peer rl) = Ok cc'"
    and n: "ng_compression n = map_option (with_pool (Option.bind (opt_compression opts) do_pool)) cc"
    "ng_compression n' = map_option (with_pool (Option.bind (opt_compression opts') do_pool)) cc'"
    using assms by (auto simp: negotiation_new_def split: sum.splits exec.splits)
  from resolve_mirrored [OF r] show ?thesis using n by (auto simp: with_pool_def)
qed

lemma from_stream_settings:
  assumes "from_stream_with_extensions checks tr from_parts set_boundary pools rl header opts = Finished (Ok ws)"
  shows "\<exists>n. negotiation_new checks (Option.bind header from_str) opts rl = Finished (Ok n) \<and>
    ws = ws_new tr from_parts set_boundary pools rl [] n"
  using assms by (auto simp: from_stream_with_extensions_def split: exec.splits sum.splits)

lemma sender_new:
  assumes "ws = ws_new framed_transport (framed_parts hw boundary random input) framed_set_boundary pools rl buf n"
  shows "flushes_to (framed_sent rl) w k (ng_compression_threshold n)
      (map_option (\<lambda>c. (config_compressor c, pools)) (ng_compression n)) [] (ws_layer ws) ws"
    and "outgoing_fragments (ws_layer ws) = []"
  unfolding assms
  by (auto simp: ws_new_def streaming_new_def conn_new_def flushes_to_def sending_def write_half_new_def
      poll_flush_fragments.simps has_outgoing_fragments_def fragment_layer_new_def framed_sent_def framed_ok_def
      framed_bytes_def framed_parts_def framed_set_boundary_def framed_transport_def codec_of_def Let_def
      negotiation_compressor_def comp_def option.map_comp split: option.split)

lemma receiver_new:
  assumes "ws = ws_new framed_transport (framed_parts hw boundary random input) framed_set_boundary pools rl buf n"
    and "buf @ concat input = concat (map wire gs)"
    and "\<forall>g\<in>set gs. \<forall>x. decode hw (decoder_new rl (ng_max_payload_read n)) (wire g @ x) =
      (Item g, decoder_new rl (ng_max_payload_read n), x)"
  shows "receiving framed_delivers (ng_max_payload_read n) (ng_utf8 n) False
      (map_option (\<lambda>d. (config_decompressor d, pools)) (ng_compression n)) (ws_layer ws) gs ws"
  using assms(2,3) unfolding assms(1)
  by (auto simp: ws_new_def streaming_new_def conn_new_def receiving_def read_half_new_def
      framed_delivers_def framed_parts_def framed_set_boundary_def framed_transport_def codec_of_def Let_def
      negotiation_decompressor_def comp_def option.map_comp split: option.split)

text \<open>Reads of given sizes, then one of all that is left: every way to cut a stream of bytes.\<close>

fun cut :: "nat list \<Rightarrow> bytes \<Rightarrow> bytes list" where
  "cut [] bs = [bs]"
| "cut (n # ns) bs = take n bs # cut ns (drop n bs)"

lemma concat_cut [simp]: "concat (cut ns bs) = bs"
  by (induction ns bs rule: cut.induct) simp_all

definition acceptable :: "('s, 'c, 'd) web_socket \<Rightarrow> frame \<Rightarrow> bool" where
  "acceptable ws m \<longleftrightarrow> data_message m \<and> length (payload m) < max_payload_read (ws_streaming ws) \<and>
     length (payload m) < max_read_buffer (ws_layer ws) \<and>
     \<not> (check_utf8 ws \<and> opcode m = Text \<and> from_utf8 (payload m) = None)"

fun wire_log :: "(unit res poll \<times> (framed, 'c, 'd) web_socket) exec \<Rightarrow> frame list" where
  "wire_log (Finished (r, ws)) = fr_log (stream (ws_streaming ws))"
| "wire_log _ = []"

section \<open>Delivery between connections with the same agreement\<close>

text \<open>
  Connections built from the same extensions, in whatever state their own input is; the
  receiver may have been given the first \<open>early\<close> bytes of the stream when it was built.
\<close>

lemma messages_delivered_new:
  assumes contract: "flate_contract fl D V c_in c_out c_tail c_idle c_flushed c_todo y_in y_out"
    and w: "w = \<lparr>w_tr = framed_transport, w_compress = run_compress zlib fl, w_decompress = run_decompress zlib fl\<rparr>"
    and n: "negotiation_new checks exts opts rl = Finished (Ok n)"
    and n': "negotiation_new checks' exts opts' (peer rl) = Finished (Ok n')"
    and s: "sender = ws_new framed_transport (framed_parts hw boundary random own) framed_set_boundary
      (\<lambda>i. pool_new zlib (cap i)) rl own_buf n"
    and r: "\<And>buf input. receiver buf input = ws_new framed_transport (framed_parts hw' boundary' random' input)
      framed_set_boundary (\<lambda>i. pool_new zlib (cap' i)) (peer rl) buf n'"
    and size: "fragment_size (ws_layer sender) \<noteq> Some 0"
    and ms: "list_all (acceptable (receiver [] [])) ms"
    and fits: "list_all (\<lambda>f. length (payload f) < min (max_payload_read (ws_streaming (receiver [] []))) (2 ^ 64))
      (wire_log (ws_send_all w k ms sender))"
    and clocks: "length clocks = length ms"
      "list_all (\<lambda>clock. \<forall>i j. on_time (clock i) (clock j) (ws_layer (receiver [] []))) clocks"
  shows "\<exists>sender' receiver'. ws_send_all w k ms sender = Finished (Ready (Ok ()), sender') \<and>
    ws_receive_all w k' clocks (receiver (take early (fr_out (stream (ws_streaming sender'))))
      (cut sizes (drop early (fr_out (stream (ws_streaming sender')))))) = Some (ms, receiver')"
proof -
  let ?pools = "\<lambda>i. pool_new zlib (cap i)" and ?pools' = "\<lambda>i. pool_new zlib (cap' i)"
  define z :: "('a compressor \<times> ('a, 'b) pools) option"
    where "z = map_option (\<lambda>c. (config_compressor c, ?pools)) (ng_compression n)"
  define y :: "('b decompressor \<times> ('a, 'b) pools) option"
    where "y = map_option (\<lambda>d. (config_decompressor d, ?pools')) (ng_compression n')"
  define l where "l = ws_layer (receiver [] [])"
  have l: "ws_layer (receiver buf input) = l" "incoming_fragment l = None" "incoming_buffer l = []"
    "max_payload_read (ws_streaming (receiver [] [])) = ng_max_payload_read n'" "check_utf8 (receiver [] []) = ng_utf8 n'" for buf input
    by (simp_all add: l_def r ws_new_def fragment_layer_new_def streaming_new_def conn_new_def Let_def)
  have sync: "(z = None \<and> y = None) \<or> (\<exists>c d. z = Some c \<and> y = Some d \<and> flate_contract.codec_sync D V c_in c_out c_idle y_in y_out zlib c d)"
    using negotiation_mirrored [OF n n'] flate_contract.config_sync [OF contract]
    by (auto simp: z_def y_def)
  have msl: "list_all data_message ms"
    "list_all (\<lambda>m. length (payload m) < ng_max_payload_read n' \<and> length (payload m) < max_read_buffer l) ms"
    using ms l by (auto simp: acceptable_def list_all_iff)
  obtain xs where xs: "packs w (ng_compression_threshold n) (fragment_size (ws_layer sender)) z ms xs"
    "unpacks w (ng_max_payload_read n') (max_read_buffer l) y xs ms"
    using message_codec.packs_unpacks [OF flate_contract.message_codec_run [OF contract] _ _ sync msl(2), of w w] w by auto
  have wf: "frame_sink (w_tr w) (framed_sent rl)" "prompt (w_tr w)"
    using framed_role.frame_sink_axioms framed_prompt w by simp_all
  obtain ws1 ws2 where send: "ws_send_all w k ms sender = Finished (Ready (Ok ()), ws2)"
    "ws_poll_flush w k ws1 = (Ready (Ok ()), ws2)"
    "framed_sent rl (stream (ws_streaming ws2)) = wire_message_frames xs"
    using send_messages [OF wf sender_new [OF s] size msl(1) xs(1) [unfolded z_def], of k] by auto
  have written: "fr_write (stream (ws_streaming ws2)) = []" using poll_flush_framed [OF _ send(2)] w by simp
  note data = packs_frames [OF xs(1) msl(1)]
  obtain gs where gs: "fr_log (stream (ws_streaming ws2)) = wire_message_frames xs"
    "fr_out (stream (ws_streaming ws2)) = concat (map wire gs)" "map unmasked gs = wire_message_frames xs"
    "\<forall>g\<in>set gs. \<exists>r f. f \<in> set (wire_message_frames xs) \<and> g = outgoing r rl f"
    using framed_sent_wire [OF send(3) data written] by blast
  have dec: "\<forall>g\<in>set gs. \<forall>x. decode hw' (decoder_new (peer rl) (ng_max_payload_read n')) (wire g @ x) =
      (Item g, decoder_new (peer rl) (ng_max_payload_read n'), x)"
    by (rule peer_decodes_all [OF data _ gs(4)]) (use fits send(1) gs(1) l(4) in simp)
  let ?out = "fr_out (stream (ws_streaming ws2))"
  let ?buf = "take early ?out" and ?input = "cut sizes (drop early ?out)"
  have rcv: "receiving framed_delivers (ng_max_payload_read n') (ng_utf8 n') False y l gs (receiver ?buf ?input)"
    using receiver_new [OF r, of ?buf ?input gs] dec gs(2) l(1) by (simp add: y_def)
  have "list_all (\<lambda>m. data_message m \<and> length (payload m) < ng_max_payload_read n' \<and>
      length (payload m) < max_read_buffer l \<and>
      \<not> (ng_utf8 n' \<and> opcode m = Text \<and> from_utf8 (payload m) = None)) ms"
    using ms l(1) [of "[]" "[]"] l(4,5) by (simp add: acceptable_def list_all_iff)
  then have "\<exists>receiver'. ws_receive_all w k' clocks (receiver ?buf ?input) = Some (ms, receiver')"
    using framed_frames.receive_messages [OF _ l(2,3) clocks(1) clocks(2) [folded l_def] rcv gs(3) xs(2)] w by simp
  then show ?thesis using send(1) by blast
qed

section \<open>Properties\<close>


text \<open>A client that fragments and a server, over the library of \<open>Stored_Flate\<close>, for the witness.\<close>

definition demo_header :: "string option" where
  "demo_header = Some ''permessage-deflate; client_no_context_takeover''"

definition demo_opts :: "nat option \<Rightarrow> options" where
  "demo_opts sz = options_default\<lparr>opt_max_payload_read := Some 100, opt_max_read_buffer := Some 200, opt_read_buffer_capacity := Some 64, opt_write_buffer_capacity := Some 64, opt_check_utf8 := True,
     opt_compression := Some (balanced\<lparr>do_compression_threshold := 1\<rparr>),
     opt_fragmentation := Some \<lparr>frg_timeout = None, frg_size = sz\<rparr>\<rparr>"

definition demo_negotiation :: "nat option \<Rightarrow> half_config \<Rightarrow> half_config \<Rightarrow> negotiation" where
  "demo_negotiation sz out inc =
    \<lparr>ng_compression = Some \<lparr>cc_level = 6, cc_outgoing = out, cc_incoming = inc, cc_pool = None\<rparr>,
     ng_max_payload_read = 100, ng_max_read_buffer = 200, ng_read_buffer_capacity = Some 64,
     ng_write_buffer_capacity = Some 64, ng_utf8 = True,
     ng_fragmentation = Some \<lparr>frg_timeout = None, frg_size = sz\<rparr>, ng_backpressure = None, ng_compression_threshold = 1\<rparr>"

lemma demo_agreement: "from_str ''permessage-deflate; client_no_context_takeover'' = Some (extensions_default\<lparr>client_no_context_takeover := True\<rparr>)"
  by code_simp

lemma demo_negotiated:
  "negotiation_new True (Option.bind demo_header from_str) (demo_opts sz) Client = Finished (Ok (demo_negotiation sz
     \<lparr>no_context_takeover = True, half_window_bits = None\<rparr> \<lparr>no_context_takeover = False, half_window_bits = None\<rparr>))"
  "negotiation_new True (Option.bind demo_header from_str) (demo_opts sz) Server = Finished (Ok (demo_negotiation sz
     \<lparr>no_context_takeover = False, half_window_bits = None\<rparr> \<lparr>no_context_takeover = True, half_window_bits = None\<rparr>))"
  by (simp_all add: demo_header_def demo_agreement demo_opts_def demo_negotiation_def negotiation_new_def resolve_def
      extensions_default_def balanced_def options_default_def twice_def with_pool_def clamp_bits_def Let_def)

definition demo_stored :: "(framed, stored_z compressor \<times> (stored_z, stored_y) pools, stored_y decompressor \<times> (stored_z, stored_y) pools) world"
  where "demo_stored = \<lparr>w_tr = framed_transport, w_compress = run_compress True stored_flate, w_decompress = run_decompress True stored_flate\<rparr>"

definition demo_hw :: hardware where
  "demo_hw = \<lparr>hw_arch = X86 True, hw_addr = 0\<rparr>"

definition demo_ws :: "nat option \<Rightarrow> role \<Rightarrow> bytes list \<Rightarrow> (framed, stored_z, stored_y) crate_socket" where
  "demo_ws sz rl input = ws_new framed_transport (framed_parts demo_hw 16 (\<lambda>_. (1, 2, 3, 4)) input)
     framed_set_boundary (\<lambda>_. pool_new True 0) rl []
     (let client = \<lparr>no_context_takeover = True, half_window_bits = None\<rparr>;
          server = \<lparr>no_context_takeover = False, half_window_bits = None\<rparr>
      in if rl = Client then demo_negotiation sz client server else demo_negotiation sz server client)"

lemma demo_client: "demo_ws sz Client input = \<lparr>ws_streaming = conn_new (framed_parts demo_hw 16 (\<lambda>_. (1, 2, 3, 4)) input
     \<lparr>codec_decoder = decoder_new Client 100, codec_role = Client\<rparr> [])
     (Some (compressor_new 6 \<lparr>no_context_takeover = True, half_window_bits = None\<rparr>, \<lambda>_. None))
     (Some (decompressor_new \<lparr>no_context_takeover = False, half_window_bits = None\<rparr>, \<lambda>_. None)) 100 1 64 64,
     check_utf8 = True, ws_layer = fragment_layer_new sz 200 None\<rparr>"
  by (simp add: demo_ws_def ws_new_def streaming_new_def demo_negotiation_def Let_def negotiation_compressor_def
     negotiation_decompressor_def config_compressor_def config_decompressor_def pool_new_def framed_transport_def codec_of_def
      compressor_new_def)

lemma demo_fits:
  "list_all (\<lambda>f. length (payload f) < 100)
     (wire_log (ws_send_all demo_stored 1 [text_frame [0x48, 0x69, 0x21], binary_frame []] (demo_ws (Some 2) Client [])))"
  unfolding demo_client by code_simp


end
