(* ===== verification/Agreement.thy ===== *)
theory Agreement
  imports Handshake_Steps Handshake_Checks Offers Delivery
begin

text \<open>
  What the two handshakes guarantee: a client and a server of this crate accept each other
  and end up with the same extensions, whatever their options are, over HTTP/1.1 and over
  HTTP/2; the messages they then exchange are delivered; a client accepts nothing but an
  answer to its own key; and the two server entry points are the same function.
\<close>

section \<open>What is agreed\<close>

text \<open>
  The extensions two sets of options lead to: those of the server for the offer of the
  client, when both want compression and the server can honour the offer.
\<close>

definition agreed :: "bool \<Rightarrow> bool \<Rightarrow> options \<Rightarrow> options \<Rightarrow> extensions option" where
  "agreed zlib zlib' opts opts' =
    (case (opt_compression opts, opt_compression opts') of
       (Some d, Some d') \<Rightarrow>
         if can_honor zlib' (extensions_of_options zlib d) then Some (merge zlib' d' (extensions_of_options zlib d)) else None
     | _ \<Rightarrow> None)"

text \<open>Options whose windows a header can name.\<close>

definition offer_ok :: "bool \<Rightarrow> options \<Rightarrow> bool" where
  "offer_ok zlib opts \<longleftrightarrow>
    (case opt_compression opts of None \<Rightarrow> True | Some d \<Rightarrow> valid_offer (extensions_of_options zlib d))"

lemma agree_offered:
  assumes "http_crates lib" "offer_ok zlib opts" "lib_all lib SEC_WEBSOCKET_EXTENSIONS h = offered_headers zlib opts []"
  shows "agree zlib' (opt_compression opts') (offers (lib_strs lib SEC_WEBSOCKET_EXTENSIONS h)) = agreed zlib zlib' opts opts'"
proof (cases "opt_compression opts")
  case None
  then have "lib_strs lib SEC_WEBSOCKET_EXTENSIONS h = []" using assms(3) by (simp add: lib_strs_def offered_headers_def)
  then show ?thesis using None by (simp add: agreed_def agree_def offers_def split: option.split)
next
  case (Some d)
  then have "lib_strs lib SEC_WEBSOCKET_EXTENSIONS h = [Some (display (extensions_of_options zlib d))]"
    using assms(3) http_crates.to_str_visible [OF assms(1) visible_display]
    by (simp add: lib_strs_def offered_headers_def)
  then show ?thesis using Some assms(2) offers_printed [of "extensions_of_options zlib d"]
    by (simp add: agreed_def agree_def offer_ok_def split: option.split)
qed

lemma agreed_printed:
  assumes "offer_ok zlib opts" "agreed zlib zlib' opts opts' = Some e"
  shows "from_str (display e) = Some e"
proof -
  obtain d d' where d: "opt_compression opts = Some d" "can_honor zlib' (extensions_of_options zlib d)"
    "e = merge zlib' d' (extensions_of_options zlib d)"
    using assms(2) by (auto simp: agreed_def split: option.splits if_splits)
  then have "rfc_answer zlib' (extensions_of_options zlib d) e"
    using assms(1) merge_rfc_answer by (simp add: offer_ok_def)
  then show ?thesis by (simp add: from_str_display rfc_answer_def)
qed

lemma agreed_negotiations:
  assumes "limit_ok checks opts" "limit_ok checks' opts'"
  obtains n n' where "negotiation_new checks (agreed zlib zlib' opts opts') opts Client = Finished (Ok n)"
    "negotiation_new checks' (agreed zlib zlib' opts opts') opts' Server = Finished (Ok n')"
proof -
  have "agreed zlib zlib' opts opts' = None \<or> opt_compression opts \<noteq> None"
    "agreed zlib zlib' opts opts' = None \<or> opt_compression opts' \<noteq> None"
    by (auto simp: agreed_def split: option.splits)
  then show ?thesis using that negotiation_succeeds [OF assms(1)] negotiation_succeeds [OF assms(2)] by metis
qed

text \<open>The caller's own headers leave those of the handshake alone.\<close>

definition own_headers_ok :: "'h http_lib \<Rightarrow> ('h, 'u) http_request \<Rightarrow> bool" where
  "own_headers_ok lib r \<longleftrightarrow> (\<forall>n\<in>set [SEC_WEBSOCKET_KEY, SEC_WEBSOCKET_VERSION, SEC_WEBSOCKET_EXTENSIONS].
     lib_all lib n (req_headers r) = []) \<and> req_protocol r = None"

section \<open>Messages after the handshake\<close>

text \<open>
  Every sequence of messages the receiver admits, sent whole over the one connection, is
  what the other returns, however many of the first bytes it is built with and however the
  others are cut into reads.
\<close>

definition delivers :: "(framed, 'c, 'd) world \<Rightarrow> nat \<Rightarrow> nat \<Rightarrow> (framed, 'c, 'd) web_socket \<Rightarrow>
    (bytes \<Rightarrow> bytes list \<Rightarrow> (framed, 'c, 'd) web_socket) \<Rightarrow> bool" where
  "delivers w k k' sender receiver \<longleftrightarrow>
    (\<forall>ms clocks early sizes.
      fragment_size (ws_layer sender) \<noteq> Some 0 \<longrightarrow> list_all (acceptable (receiver [] [])) ms \<longrightarrow>
      list_all (\<lambda>f. length (payload f) < min (max_payload_read (ws_streaming (receiver [] []))) (2 ^ 64))
        (wire_log (ws_send_all w k ms sender)) \<longrightarrow>
      length clocks = length ms \<longrightarrow>
      list_all (\<lambda>clock. \<forall>i j. on_time (clock i) (clock j) (ws_layer (receiver [] []))) clocks \<longrightarrow>
      (\<exists>sender' receiver'. ws_send_all w k ms sender = Finished (Ready (Ok ()), sender') \<and>
        ws_receive_all w k' clocks (receiver (take early (fr_out (stream (ws_streaming sender'))))
          (cut sizes (drop early (fr_out (stream (ws_streaming sender')))))) = Some (ms, receiver')))"

text \<open>The platform of connections over \<open>Framed\<close>: a stream is the reads it will return.\<close>

definition framed_platform :: "bool \<Rightarrow> bool \<Rightarrow> hardware \<Rightarrow> nat \<Rightarrow> (nat \<Rightarrow> mask4) \<Rightarrow> (nat \<Rightarrow> nat) \<Rightarrow>
    (bytes list, framed, 'z, 'y) platform" where
  "framed_platform checks zlib hw boundary random cap =
    \<lparr>pf_checks = checks, pf_zlib = zlib, pf_transport = framed_transport,
     pf_parts = framed_parts hw boundary random, pf_boundary = framed_set_boundary,
     pf_pools = (\<lambda>i. pool_new zlib (cap i))\<rparr>"

lemma delivers_new:
  assumes "flate_contract fl D V c_in c_out c_tail c_idle c_flushed c_todo y_in y_out"
    and "negotiation_new checks exts opts rl = Finished (Ok n)"
    and "negotiation_new checks' exts opts' (peer rl) = Finished (Ok n')"
  shows "delivers \<lparr>w_tr = framed_transport, w_compress = run_compress zlib fl, w_decompress = run_decompress zlib fl\<rparr> k k'
    (new_socket (framed_platform checks zlib hw boundary random cap) rl own own_buf n)
    (\<lambda>buf input. new_socket (framed_platform checks' zlib hw' boundary' random' cap') (peer rl) input buf n')"
  unfolding delivers_def
  using messages_delivered_new [OF assms(1) refl assms(2,3)]
  by (simp add: new_socket_def framed_platform_def)

lemma framed_socket_layer:
  "ws_layer (new_socket (framed_platform checks zlib hw boundary random cap) rl input buf n) =
    fragment_layer_new (Option.bind (ng_fragmentation n) frg_size) (ng_max_read_buffer n) (Option.bind (ng_fragmentation n) frg_timeout)"
  "max_payload_read (ws_streaming (new_socket (framed_platform checks zlib hw boundary random cap) rl input buf n)) = ng_max_payload_read n"
  "check_utf8 (new_socket (framed_platform checks zlib hw boundary random cap) rl input buf n) = ng_utf8 n"
  by (simp_all add: new_socket_def framed_platform_def ws_new_def streaming_new_def conn_new_def Let_def)

text \<open>Bytes that were read early are handed out first by a stream that replays them.\<close>

lemma delivers_replayed:
  assumes "delivers w k k' sender (\<lambda>buf input. new_socket (framed_platform checks zlib hw boundary random cap) rl input buf n)"
  shows "delivers w k k' sender (\<lambda>buf input. new_socket (framed_platform checks zlib hw boundary random cap) rl (buf # input) [] n)"
proof -
  let ?r = "\<lambda>buf input. new_socket (framed_platform checks zlib hw boundary random cap) rl input buf n"
  show ?thesis unfolding delivers_def
  proof (intro allI impI)
    fix ms and clocks :: "(nat \<Rightarrow> nat) list" and early sizes
    assume "fragment_size (ws_layer sender) \<noteq> Some 0" "list_all (acceptable (?r [] [[]])) ms"
      "list_all (\<lambda>f. length (payload f) < min (max_payload_read (ws_streaming (?r [] [[]]))) (2 ^ 64))
        (wire_log (ws_send_all w k ms sender))" "length clocks = length ms"
      "list_all (\<lambda>clock. \<forall>i j. on_time (clock i) (clock j) (ws_layer (?r [] [[]]))) clocks"
    then have "\<exists>sender' receiver'. ws_send_all w k ms sender = Finished (Ready (Ok ()), sender') \<and>
        ws_receive_all w k' clocks (?r (take 0 (fr_out (stream (ws_streaming sender'))))
          (cut (early # sizes) (drop 0 (fr_out (stream (ws_streaming sender')))))) = Some (ms, receiver')"
      using assms [unfolded delivers_def, THEN spec [of _ ms], THEN spec [of _ clocks], THEN spec [of _ 0],
          THEN spec [of _ "early # sizes"]] by (simp add: framed_socket_layer acceptable_def [abs_def] del: cut.simps)
    then show "\<exists>sender' receiver'. ws_send_all w k ms sender = Finished (Ready (Ok ()), sender') \<and>
        ws_receive_all w k' clocks (?r [] (take early (fr_out (stream (ws_streaming sender'))) #
          cut sizes (drop early (fr_out (stream (ws_streaming sender')))))) = Some (ms, receiver')"
      by simp
  qed
qed

section \<open>Samples\<close>

text \<open>A client, a server and the hyper between them, for the witnesses.\<close>

definition chat_url :: url where
  "chat_url = \<lparr>u_scheme = ''ws'', u_host = Some (Host_Domain ''a.b''), u_port = None,
     u_known_port = Some 80, u_username = [], u_password = None, u_path = ''/chat'', u_query = None, u_fragment = None\<rparr>"

definition chat_request :: "((string \<times> bytes) list, unit) http_request" where
  "chat_request = \<lparr>req_method = ''GET'', req_uri = ''/'', req_headers = [(''authorization'', [116])],
     req_protocol = None, req_on_upgrade = None\<rparr>"

definition chat_hyper :: "bytes \<Rightarrow> bytes list \<Rightarrow> (bytes list, (string \<times> bytes) list, unit, unit, unit) hyper" where
  "chat_hyper buf input =
    \<lparr>hy_http1 = (\<lambda>_. Ok ()), hy_http2 = (\<lambda>_. Ok ()),
     hy_send = (\<lambda>req _.
       case upgrade_with_options True True True list_lib (\<lambda>_. ()) (req\<lparr>req_on_upgrade := None\<rparr>) (demo_opts None) of
         Finished (Ok (rsp, fut)) \<Rightarrow> Ok (rsp, ())
       | _ \<Rightarrow> Err (Hyper_Error ''connection closed'' [])),
     hy_upgrade = (\<lambda>_. Ok ()), hy_downcast = (\<lambda>_. Some (input, buf))\<rparr>"

lemma chat_ok:
  "request_ok list_lib chat_url chat_request" "own_headers_ok list_lib chat_request" "extended_ok list_lib chat_url"
  "offer_ok True (demo_opts sz)" "limit_ok True (demo_opts sz)"
  by (simp_all add: request_ok_def own_headers_ok_def extended_ok_def extended_uri_def web_scheme_def chat_url_def u_before_path_def u_path_query_def
      chat_request_def list_lib_def lib_get_def header_names offer_ok_def demo_opts_def valid_offer_def valid_extensions_def
      extensions_of_options_def balanced_def valid_bits_def limit_ok_def)

section \<open>Both ends of a handshake\<close>

lemma http1_agreement:
  fixes r :: "('h, 'u) http_request"
  assumes "http_crates lib" "request_ok lib u r" "own_headers_ok lib r"
    and "offer_ok zlib opts" "limit_ok checks opts" "limit_ok checks' opts'"
  shows "\<exists>req rsp fut n n'.
    http1_request lib zlib (generate_key lib random) u opts (Some r) = Finished req \<and>
    upgrade_with_options checks' zlib' http_two lib upgrade_on (req\<lparr>req_on_upgrade := on\<rparr>) opts' = Finished (Ok (rsp, fut)) \<and>
    verify checks lib rsp (generate_key lib random) opts = Finished (Ok n) \<and> uf_negotiation fut = Some n' \<and>
    negotiation_new checks (agreed zlib zlib' opts opts') opts Client = Finished (Ok n) \<and>
    negotiation_new checks' (agreed zlib zlib' opts opts') opts' Server = Finished (Ok n')"
proof -
  let ?key = "generate_key lib random" and ?exts = "agreed zlib zlib' opts opts'"
  have key: "visible ?key" using http_crates.base64_visible [OF assms(1)] by (simp add: generate_key_def)
  obtain req where req: "http1_request lib zlib ?key u opts (Some r) = Finished req"
    "req_method req = ''GET''" "req_protocol req = req_protocol r"
    "lib_all lib SEC_WEBSOCKET_KEY (req_headers req) = lib_all lib SEC_WEBSOCKET_KEY (req_headers r) @ [str_bytes ?key]"
    "lib_all lib SEC_WEBSOCKET_VERSION (req_headers req) = lib_all lib SEC_WEBSOCKET_VERSION (req_headers r) @ [str_bytes ''13'']"
    "lib_all lib SEC_WEBSOCKET_EXTENSIONS (req_headers req) =
      offered_headers zlib opts (lib_all lib SEC_WEBSOCKET_EXTENSIONS (req_headers r))"
    by (rule http_crates.http1_request_runs [OF assms(1,2) key])
  obtain n n' where n: "negotiation_new checks ?exts opts Client = Finished (Ok n)"
    "negotiation_new checks' ?exts opts' Server = Finished (Ok n')"
    using assms(5,6) by (rule agreed_negotiations)
  let ?req = "req\<lparr>req_on_upgrade := on\<rparr>"
  have exts: "?exts = agree zlib' (opt_compression opts') (offers (lib_strs lib SEC_WEBSOCKET_EXTENSIONS (req_headers ?req)))"
    using agree_offered [OF assms(1,4)] req(6) assms(3) by (simp add: own_headers_ok_def)
  obtain rsp where rsp: "upgrade_with_options checks' zlib' http_two lib upgrade_on ?req opts' =
      Finished (Ok (rsp, \<lparr>uf_inner = upgrade_on ?req, uf_negotiation = Some n'\<rparr>))"
    "answer_ok lib False (str_bytes ?key) ?exts rsp"
    by (rule http_crates.upgrade_answers [OF assms(1) _ _ _ exts n(2), of False http_two "str_bytes ?key"])
      (use req assms(3) http_crates.get_first [OF assms(1)] in \<open>simp_all add: own_headers_ok_def is_extended_connect_def\<close>)
  have "verify checks lib rsp ?key opts = Finished (Ok n)"
    using http_crates.verify_answer [OF assms(1) rsp(2) agreed_printed [OF assms(4)]] n(1) by simp
  then show ?thesis using req(1) rsp(1) n by auto
qed

section \<open>Properties\<close>

text \<open>
  C13. The HTTP/1.1 handshake agrees.  For every URL with a host and a port, every set of
  options on either side and every key, the request the client builds is answered by the
  server, the client accepts that answer, and both connections are built from the very same
  extensions: the answer of the server to the offer of the client when both want
  compression, none otherwise.
\<close>

theorem handshake_agrees:
  fixes r :: "('h, 'u) http_request"
  assumes "http_crates lib" "request_ok lib u r" "own_headers_ok lib r"
    and "offer_ok zlib opts" "limit_ok checks opts" "limit_ok checks' opts'"
  shows "\<exists>req rsp fut n n'.
    http1_request lib zlib (generate_key lib random) u opts (Some r) = Finished req \<and>
    upgrade_with_options checks' zlib' http_two lib upgrade_on (req\<lparr>req_on_upgrade := on\<rparr>) opts' = Finished (Ok (rsp, fut)) \<and>
    verify checks lib rsp (generate_key lib random) opts = Finished (Ok n) \<and> uf_negotiation fut = Some n' \<and>
    negotiation_new checks (agreed zlib zlib' opts opts') opts Client = Finished (Ok n) \<and>
    negotiation_new checks' (agreed zlib zlib' opts opts') opts' Server = Finished (Ok n')"
  using assms by (rule http1_agreement)

theorem handshake_agrees_witness:
  "\<exists>req rsp fut n n'.
    http1_request list_lib True (generate_key list_lib [1, 2]) chat_url (demo_opts None) (Some chat_request) = Finished req \<and>
    upgrade_with_options True True True list_lib (\<lambda>_. ()) (req\<lparr>req_on_upgrade := None\<rparr>) (demo_opts (Some 9)) = Finished (Ok (rsp, fut)) \<and>
    verify True list_lib rsp (generate_key list_lib [1, 2]) (demo_opts None) = Finished (Ok n) \<and> uf_negotiation fut = Some n' \<and>
    negotiation_new True (agreed True True (demo_opts None) (demo_opts (Some 9))) (demo_opts None) Client = Finished (Ok n) \<and>
    negotiation_new True (agreed True True (demo_opts None) (demo_opts (Some 9))) (demo_opts (Some 9)) Server = Finished (Ok n')"
  by (rule handshake_agrees [OF list_lib.http_crates_axioms chat_ok(1,2,4,5,5)])





text \<open>
  C34. Handshake headers of the caller are not replaced over HTTP/1.1: they come first in the
  request, where the server reads them.  A version of the caller other than 13 makes the
  server refuse the request of the client, and a key of the caller that does not hash to the
  value of the generated key makes the client refuse the answer of the server.
\<close>

theorem caller_headers_conflict:
  fixes r :: "('h, 'u) http_request"
  assumes "http_crates lib" "request_ok lib u r" "req_protocol r = None"
  shows "\<exists>req. http1_request lib zlib (generate_key lib random) u opts (Some r) = Finished req \<and>
    (\<forall>v. lib_get lib SEC_WEBSOCKET_VERSION (req_headers r) = Some v \<and> v \<noteq> str_bytes ''13'' \<longrightarrow>
      upgrade_with_options checks' zlib' http_two lib upgrade_on req opts' = Finished (Err InvalidSecWebsocketVersion)) \<and>
    (\<forall>k rsp fut. lib_get lib SEC_WEBSOCKET_KEY (req_headers r) = Some k \<and>
      sec_websocket_protocol lib k \<noteq> sec_websocket_protocol lib (str_bytes (generate_key lib random)) \<and>
      upgrade_with_options checks' zlib' http_two lib upgrade_on req opts' = Finished (Ok (rsp, fut)) \<longrightarrow>
      verify checks lib rsp (generate_key lib random) opts = Finished (Err InvalidUpgradeHeader))"
proof -
  let ?key = "generate_key lib random"
  have key: "visible ?key" using http_crates.base64_visible [OF assms(1)] by (simp add: generate_key_def)
  obtain req where req: "http1_request lib zlib ?key u opts (Some r) = Finished req"
    "req_method req = ''GET''" "req_protocol req = req_protocol r"
    "lib_all lib SEC_WEBSOCKET_KEY (req_headers req) = lib_all lib SEC_WEBSOCKET_KEY (req_headers r) @ [str_bytes ?key]"
    "lib_all lib SEC_WEBSOCKET_VERSION (req_headers req) = lib_all lib SEC_WEBSOCKET_VERSION (req_headers r) @ [str_bytes ''13'']"
    by (rule http_crates.http1_request_runs [OF assms(1,2) key])
  have get: "lib_get lib n (req_headers req) = Some v"
    if "lib_get lib n (req_headers r) = Some v" "n \<in> {SEC_WEBSOCKET_KEY, SEC_WEBSOCKET_VERSION}" for n v
    using that req(4,5) by (auto simp: lib_get_def split: list.splits)
  have plain: "\<not> is_extended_connect (req_method req) (req_protocol req)" using req(2) by (simp add: is_extended_connect_def)
  have "lib_get lib SEC_WEBSOCKET_KEY (req_headers req) \<noteq> None" using req(4) by (auto simp: lib_get_def split: list.splits)
  then have "upgrade_with_options checks' zlib' http_two lib upgrade_on req opts' = Finished (Err InvalidSecWebsocketVersion)"
    if "lib_get lib SEC_WEBSOCKET_VERSION (req_headers r) = Some v" "v \<noteq> str_bytes ''13''" for v
    using get [OF that(1)] that(2) plain by (auto simp: upgrade_with_options_def handshake_response_def)
  moreover have "verify checks lib rsp ?key opts = Finished (Err InvalidUpgradeHeader)"
    if "lib_get lib SEC_WEBSOCKET_KEY (req_headers r) = Some k"
      "sec_websocket_protocol lib k \<noteq> sec_websocket_protocol lib (str_bytes ?key)"
      "upgrade_with_options checks' zlib' http_two lib upgrade_on req opts' = Finished (Ok (rsp, fut))" for k rsp fut
    using http_crates.verify_foreign_answer [OF assms(1) http_crates.upgrade_ok_answer [OF assms(1) that(3) plain get [OF that(1)]] that(2)]
    by simp
  ultimately show ?thesis using req(1) by blast
qed

definition old_request :: "((string \<times> bytes) list, unit) http_request" where
  "old_request = chat_request\<lparr>req_headers := [(SEC_WEBSOCKET_VERSION, str_bytes ''8'')]\<rparr>"

theorem caller_headers_conflict_witness:
  "\<exists>req. http1_request list_lib True (generate_key list_lib [1]) chat_url options_default (Some old_request) = Finished req \<and>
    upgrade_with_options True True True list_lib (\<lambda>_. ()) req options_default = Finished (Err InvalidSecWebsocketVersion)"
proof -
  have "request_ok list_lib chat_url old_request" "req_protocol old_request = None"
    by (simp_all add: request_ok_def old_request_def chat_request_def chat_url_def u_before_path_def u_path_query_def list_lib_def lib_get_def header_names)
  note conflict = caller_headers_conflict [OF list_lib.http_crates_axioms this]
  have "lib_get list_lib SEC_WEBSOCKET_VERSION (req_headers old_request) = Some (str_bytes ''8'')" "str_bytes ''8'' \<noteq> str_bytes ''13''"
    by (simp_all add: old_request_def list_lib_def lib_get_def str_bytes_def)
  then show ?thesis using conflict [of True "[1]" options_default True True True "\<lambda>_. ()" options_default] by blast
qed

section \<open>Witnesses for the checks\<close>

abbreviation chat_platform :: "(bytes list, framed, stored_z, stored_y) platform" where
  "chat_platform \<equiv> framed_platform True True demo_hw 16 (\<lambda>_. (1, 2, 3, 4)) (\<lambda>_. 0)"

lemma chat_connects:
  "\<exists>ws. handshake_with_request chat_platform list_lib (chat_hyper [9] []) [7, 8] chat_url [] (demo_opts (Some 2)) (Some chat_request)
    = Finished (Ok ws)"
proof -
  obtain req rsp fut n where a: "http1_request list_lib True (generate_key list_lib [7, 8]) chat_url (demo_opts (Some 2)) (Some chat_request) = Finished req"
    "upgrade_with_options True True True list_lib (\<lambda>_. ()) (req\<lparr>req_on_upgrade := None\<rparr>) (demo_opts None) = Finished (Ok (rsp, fut))"
    "verify True list_lib rsp (generate_key list_lib [7, 8]) (demo_opts (Some 2)) = Finished (Ok n)"
    using http1_agreement [OF list_lib.http_crates_axioms chat_ok(1,2,4,5,5)] by blast
  then show ?thesis
    by (simp add: handshake_with_request_def http1_upgrade_def framed_platform_def hyper_res_def chat_hyper_def)
qed

theorem client_accepts_own_answer_witness:
  "\<exists>ws req c rsp on up sock buf n.
    handshake_with_request chat_platform list_lib (chat_hyper [9] []) [7, 8] chat_url [] (demo_opts (Some 2)) (Some chat_request)
      = Finished (Ok ws) \<and>
    http1_request list_lib (pf_zlib chat_platform) (generate_key list_lib [7, 8]) chat_url (demo_opts (Some 2)) (Some chat_request) = Finished req \<and>
    hy_http1 (chat_hyper [9] []) [] = Ok c \<and> hy_send (chat_hyper [9] []) req c = Ok (rsp, on) \<and>
    rsp_status rsp = 101 \<and>
    (\<exists>v s. lib_get list_lib UPGRADE (rsp_headers rsp) = Some v \<and> lib_to_str list_lib v = Some s \<and> eq_ignore_ascii_case s ''websocket'') \<and>
    lib_get list_lib SEC_WEBSOCKET_ACCEPT (rsp_headers rsp) = Some (str_bytes (lib_base64 list_lib
      (lib_sha1 list_lib (str_bytes (generate_key list_lib [7, 8]) @ str_bytes magic)))) \<and>
    hy_upgrade (chat_hyper [9] []) on = Ok up \<and> hy_downcast (chat_hyper [9] []) up = Some (sock, buf) \<and>
    ws = new_socket chat_platform Client sock buf n"
proof -
  obtain ws where "handshake_with_request chat_platform list_lib (chat_hyper [9] []) [7, 8] chat_url [] (demo_opts (Some 2)) (Some chat_request)
      = Finished (Ok ws)" using chat_connects by blast
  note run = this
  show ?thesis using run client_accepts_own_answer [OF run] by blast
qed

definition key_request :: "((string \<times> bytes) list, unit) http_request" where
  "key_request = chat_request\<lparr>req_headers := [(SEC_WEBSOCKET_KEY, [65]), (SEC_WEBSOCKET_VERSION, str_bytes ''13'')],
     req_on_upgrade := Some ()\<rparr>"

theorem incoming_upgrade_same_witness:
  "iu_upgrade True True list_lib
      \<lparr>iu_key = Some (sec_websocket_protocol list_lib [65]), iu_on_upgrade = (), iu_offers = []\<rparr> (demo_opts None) =
    upgrade_with_options True True True list_lib (\<lambda>_. ()) key_request (demo_opts None)"
proof -
  have on: "req_on_upgrade key_request = Some ()" by (simp add: key_request_def)
  have parts: "fst (from_request_parts True list_lib key_request) =
    Ok \<lparr>iu_key = Some (sec_websocket_protocol list_lib [65]), iu_on_upgrade = (), iu_offers = []\<rparr>"
    by (simp add: from_request_parts_def key_request_def chat_request_def is_extended_connect_def list_lib_def lib_get_def
        lib_strs_def header_names str_bytes_def offers_def sec_websocket_protocol_def)
  show ?thesis
    using incoming_upgrade_same [OF on, where upgrade_on = "\<lambda>_. ()" and http_two = True and lib = list_lib and checks = True
        and zlib = True and opts = "demo_opts None"] by (simp add: parts)
qed

end
