(* ===== verification/Socks5.thy ===== *)
theory Socks5
  imports Net Utf8
begin

text \<open>
  The SOCKS5 client (\<open>native/socks5.rs\<close>): parsing a proxy URL, the method negotiation, the
  username and password exchange of RFC 1929, and the \<open>CONNECT\<close> request and its reply.

  A username or password is the bytes of its UTF-8 encoding.  \<open>Host::parse\<close> and
  \<open>percent_decode\<close> of the url and percent-encoding crates and the network are parameters;
  the stream to the proxy is an \<open>io_stream\<close>.
\<close>

section \<open>Data\<close>

definition VERSION :: byte where "VERSION = 5"
definition CMD_CONNECT :: byte where "CMD_CONNECT = 1"
definition AUTH_VERSION :: byte where "AUTH_VERSION = 1"
definition DEFAULT_PORT :: u16 where "DEFAULT_PORT = 1080"
definition MAX_CREDENTIAL_LEN :: nat where "MAX_CREDENTIAL_LEN = 255"
definition MAX_HOSTNAME_LEN :: nat where "MAX_HOSTNAME_LEN = 255"

lemmas socks_consts = VERSION_def CMD_CONNECT_def AUTH_VERSION_def DEFAULT_PORT_def
  MAX_CREDENTIAL_LEN_def MAX_HOSTNAME_LEN_def

datatype auth_method = No_Auth | UserPass | Unacceptable

fun method_code :: "auth_method \<Rightarrow> byte" where
  "method_code No_Auth = 0x00"
| "method_code UserPass = 0x02"
| "method_code Unacceptable = 0xFF"

definition method_from_code :: "byte \<Rightarrow> auth_method option" where
  "method_from_code code =
    (if code = 0x00 then Some No_Auth
     else if code = 0x02 then Some UserPass
     else if code = 0xFF then Some Unacceptable
     else None)"

datatype address_type = Ipv4 | Domain | Ipv6

fun address_type_code :: "address_type \<Rightarrow> byte" where
  "address_type_code Ipv4 = 1"
| "address_type_code Domain = 3"
| "address_type_code Ipv6 = 4"

definition address_type_from_code :: "byte \<Rightarrow> address_type option" where
  "address_type_from_code code =
    (if code = 1 then Some Ipv4
     else if code = 3 then Some Domain
     else if code = 4 then Some Ipv6
     else None)"

record auth =
  auth_username :: bytes
  auth_password :: bytes

record proxy =
  px_host :: host
  px_port :: u16
  px_auth :: "auth option"
  px_remote_dns :: bool

datatype target = Target_Domain string u16 | Target_Addr socket_addr

definition reply_code_from :: "byte \<Rightarrow> reply_code" where
  "reply_code_from code =
    (if code = 1 then GeneralFailure
     else if code = 2 then NotAllowed
     else if code = 3 then NetworkUnreachable
     else if code = 4 then HostUnreachable
     else if code = 5 then ConnectionRefused
     else if code = 6 then TtlExpired
     else if code = 7 then CommandNotSupported
     else if code = 8 then AddressTypeNotSupported
     else Unassigned code)"

section \<open>The proxy URL\<close>

definition decode_userinfo :: "(string \<Rightarrow> bytes) \<Rightarrow> string \<Rightarrow> bytes res" where
  "decode_userinfo percent_decode value =
    (case from_utf8 (percent_decode value) of
       Some s \<Rightarrow> Ok s
     | None \<Rightarrow> Err (Socks5 InvalidCredentials))"

definition socks5_host :: "(string \<Rightarrow> string + host) \<Rightarrow> url \<Rightarrow> host res" where
  "socks5_host parse_host u =
    (case u_host u of
       Some (Host_Domain domain) \<Rightarrow>
         (case parse_host domain of Err m \<Rightarrow> Err (UrlParseError m) | Ok h \<Rightarrow> Ok h)
     | Some (Host_Ipv4 ip) \<Rightarrow> Ok (Host_Ipv4 ip)
     | Some (Host_Ipv6 ip) \<Rightarrow> Ok (Host_Ipv6 ip)
     | None \<Rightarrow> Err (Socks5 MissingHost))"

definition socks5_auth :: "(string \<Rightarrow> bytes) \<Rightarrow> url \<Rightarrow> auth option res" where
  "socks5_auth percent_decode u =
    (case decode_userinfo percent_decode (u_username u) of
       Err e \<Rightarrow> Err e
     | Ok username \<Rightarrow>
         if username = [] then Ok None
         else case decode_userinfo percent_decode (case u_password u of None \<Rightarrow> [] | Some p \<Rightarrow> p) of
           Err e \<Rightarrow> Err e
         | Ok password \<Rightarrow> Ok (Some \<lparr>auth_username = username, auth_password = password\<rparr>))"

definition too_long :: "auth option \<Rightarrow> bool" where
  "too_long a =
    (case a of
       None \<Rightarrow> False
     | Some a \<Rightarrow> length (auth_username a) > MAX_CREDENTIAL_LEN \<or> length (auth_password a) > MAX_CREDENTIAL_LEN)"

definition socks5 :: "(string \<Rightarrow> string + host) \<Rightarrow> (string \<Rightarrow> bytes) \<Rightarrow> url \<Rightarrow> proxy res" where
  "socks5 parse_host percent_decode u =
    (if u_scheme u \<noteq> ''socks5'' \<and> u_scheme u \<noteq> ''socks5h''
     then Err (Socks5 (UnsupportedScheme (u_scheme u)))
     else case socks5_host parse_host u of
       Err e \<Rightarrow> Err e
     | Ok h \<Rightarrow>
         (case socks5_auth percent_decode u of
            Err e \<Rightarrow> Err e
          | Ok a \<Rightarrow>
              if too_long a then Err (Socks5 CredentialsTooLong)
              else Ok \<lparr>px_host = h, px_port = (case u_port u of None \<Rightarrow> DEFAULT_PORT | Some p \<Rightarrow> p),
                       px_auth = a, px_remote_dns = (u_scheme u = ''socks5h'')\<rparr>))"

section \<open>The exchange\<close>

definition greeting :: "proxy \<Rightarrow> bytes" where
  "greeting proxy =
    (case px_auth proxy of
       Some _ \<Rightarrow> [VERSION, 2, method_code No_Auth, method_code UserPass]
     | None \<Rightarrow> [VERSION, 1, method_code No_Auth])"

definition auth_request :: "auth \<Rightarrow> bytes" where
  "auth_request a =
    [AUTH_VERSION, word_of_nat (length (auth_username a))] @ auth_username a @
    [word_of_nat (length (auth_password a))] @ auth_password a"

definition on_status :: "bytes \<Rightarrow> 's \<Rightarrow> unit res \<times> 's" where
  "on_status status =
    (if status ! 0 \<noteq> AUTH_VERSION then fail (UnsupportedVersion (status ! 0))
     else if status ! 1 \<noteq> 0 then fail (AuthFailed (status ! 1))
     else give ())"

definition authenticate :: "'s io_stream \<Rightarrow> auth \<Rightarrow> 's \<Rightarrow> unit res \<times> 's" where
  "authenticate st a =
    andthen (lift_io (st_write st (auth_request a))) (\<lambda>_.
    andthen (lift_io (st_flush st)) (\<lambda>_.
    andthen (lift_io (st_read st 2)) on_status))"

definition on_choice :: "'s io_stream \<Rightarrow> proxy \<Rightarrow> bytes \<Rightarrow> 's \<Rightarrow> unit res \<times> 's" where
  "on_choice st proxy chosen =
    (if chosen ! 0 \<noteq> VERSION then fail (UnsupportedVersion (chosen ! 0))
     else case (method_from_code (chosen ! 1), px_auth proxy) of
       (Some No_Auth, _) \<Rightarrow> give ()
     | (Some UserPass, Some a) \<Rightarrow> authenticate st a
     | (Some Unacceptable, _) \<Rightarrow> fail NoAcceptableAuth
     | _ \<Rightarrow> fail (UnsupportedMethod (chosen ! 1)))"

definition negotiate :: "'s io_stream \<Rightarrow> proxy \<Rightarrow> 's \<Rightarrow> unit res \<times> 's" where
  "negotiate st proxy =
    andthen (lift_io (st_write st (greeting proxy))) (\<lambda>_.
    andthen (lift_io (st_flush st)) (\<lambda>_.
    andthen (lift_io (st_read st 2)) (on_choice st proxy)))"

fun connect_request :: "target \<Rightarrow> bytes" where
  "connect_request (Target_Domain host port) =
    [VERSION, CMD_CONNECT, 0] @ [address_type_code Domain, word_of_nat (length host)] @
    str_bytes host @ be_bytes 2 port"
| "connect_request (Target_Addr (SockV4 ip port)) =
    [VERSION, CMD_CONNECT, 0] @ [address_type_code Ipv4] @ be_bytes 4 ip @ be_bytes 2 port"
| "connect_request (Target_Addr (SockV6 ip port)) =
    [VERSION, CMD_CONNECT, 0] @ [address_type_code Ipv6] @ be_bytes 16 ip @ be_bytes 2 port"

definition send_request :: "'s io_stream \<Rightarrow> target \<Rightarrow> 's \<Rightarrow> unit res \<times> 's" where
  "send_request st tgt =
    andthen (lift_io (st_write st (connect_request tgt))) (\<lambda>_.
    andthen (lift_io (st_flush st)) (\<lambda>_. give ()))"

definition read_bound :: "'s io_stream \<Rightarrow> nat \<Rightarrow> 's \<Rightarrow> unit res \<times> 's" where
  "read_bound st address_len = andthen (lift_io (st_read st (address_len + 2))) (\<lambda>_. give ())"

definition on_reply :: "'s io_stream \<Rightarrow> bytes \<Rightarrow> 's \<Rightarrow> unit res \<times> 's" where
  "on_reply st head =
    (if head ! 0 \<noteq> VERSION then fail (UnsupportedVersion (head ! 0))
     else if head ! 1 \<noteq> 0 then fail (Rejected (reply_code_from (head ! 1)))
     else case address_type_from_code (head ! 3) of
       Some Ipv4 \<Rightarrow> read_bound st 4
     | Some Ipv6 \<Rightarrow> read_bound st 16
     | Some Domain \<Rightarrow> andthen (lift_io (st_read st 1)) (\<lambda>len. read_bound st (unat (len ! 0)))
     | None \<Rightarrow> fail (InvalidAddressType (head ! 3)))"

definition read_reply :: "'s io_stream \<Rightarrow> 's \<Rightarrow> unit res \<times> 's" where
  "read_reply st = andthen (lift_io (st_read st 4)) (on_reply st)"

definition hostname_too_long :: "target \<Rightarrow> bool" where
  "hostname_too_long tgt =
    (case tgt of Target_Domain host _ \<Rightarrow> length host > MAX_HOSTNAME_LEN | Target_Addr _ \<Rightarrow> False)"

definition connect :: "'s io_stream \<Rightarrow> proxy \<Rightarrow> target \<Rightarrow> 's \<Rightarrow> unit res \<times> 's" where
  "connect st proxy tgt =
    (if hostname_too_long tgt then fail HostnameTooLong
     else andthen (negotiate st proxy) (\<lambda>_. andthen (send_request st tgt) (\<lambda>_. read_reply st)))"

section \<open>Dialling\<close>

definition target_of :: "('w, 'k, 's) network \<Rightarrow> proxy \<Rightarrow> url \<Rightarrow> socket_addr option \<Rightarrow> 'w \<Rightarrow> (target res \<times> 'w) exec" where
  "target_of nw proxy u pinned w =
    (case pinned of
       Some addr \<Rightarrow> Finished (Ok (Target_Addr addr), w)
     | None \<Rightarrow>
         (case (u_known_port u, u_host u) of
            (Some port, Some (Host_Ipv4 ip)) \<Rightarrow> Finished (Ok (Target_Addr (SockV4 ip port)), w)
          | (Some port, Some (Host_Ipv6 ip)) \<Rightarrow> Finished (Ok (Target_Addr (SockV6 ip port)), w)
          | (Some port, Some (Host_Domain domain)) \<Rightarrow>
              if px_remote_dns proxy then Finished (Ok (Target_Domain domain port), w)
              else Finished (andthen (lift_io (nw_lookup nw (To_Name domain port))) (\<lambda>addrs w.
                case addrs of
                  [] \<Rightarrow> (Err (IoError (Io_Error NotFound ''no address for host'')), w)
                | a # _ \<Rightarrow> (Ok (Target_Addr a), w)) w)
          | _ \<Rightarrow> Panic))"

definition host_target :: "host \<Rightarrow> u16 \<Rightarrow> sock_target" where
  "host_target h port =
    (case h of
       Host_Domain domain \<Rightarrow> To_Name domain port
     | Host_Ipv4 ip \<Rightarrow> To_Addr (SockV4 ip port)
     | Host_Ipv6 ip \<Rightarrow> To_Addr (SockV6 ip port))"

definition proxy_dial :: "('w, 'k, 's) network \<Rightarrow> proxy \<Rightarrow> ip_addr option \<Rightarrow> 'w \<Rightarrow> 's res \<times> 'w" where
  "proxy_dial nw proxy local_address =
    lift_io (connect_tcp nw local_address (host_target (px_host proxy) (px_port proxy)))"

definition connect_from :: "('w, 'k, 's) network \<Rightarrow> 's io_stream \<Rightarrow> proxy \<Rightarrow> url \<Rightarrow> socket_addr option \<Rightarrow>
    ip_addr option \<Rightarrow> 'w \<Rightarrow> ('s res \<times> 'w) exec" where
  "connect_from nw st proxy u address local_address w =
    (if \<not> web_scheme (u_scheme u) then Finished (Err InvalidHttpScheme, w)
     else if u_host u = None
     then Finished (Err (IoError (Io_Error InvalidInput ''target URL has no host'')), w)
     else case target_of nw proxy u address w of
       Panic \<Rightarrow> Panic
     | Diverges \<Rightarrow> Diverges
     | Finished (Err e, w) \<Rightarrow> Finished (Err e, w)
     | Finished (Ok tgt, w) \<Rightarrow>
         Finished (andthen (proxy_dial nw proxy local_address) (handed (connect st proxy tgt)) w))"

definition proxy_connect :: "('w, 'k, 's) network \<Rightarrow> 's io_stream \<Rightarrow> proxy \<Rightarrow> url \<Rightarrow> socket_addr option \<Rightarrow>
    'w \<Rightarrow> ('s res \<times> 'w) exec" where
  "proxy_connect nw st proxy u address = connect_from nw st proxy u address None"

section \<open>The protocol as the RFCs state it\<close>

text \<open>
  What a proxy has to send for the tunnel to be granted (RFC 1928, sections 3 and 6, and
  RFC 1929): the choice of a method the client offered, with the status of the password
  exchange where it chose it, and a success reply with a bound address.
\<close>

definition choice :: "proxy \<Rightarrow> bool \<Rightarrow> bytes \<Rightarrow> bool" where
  "choice proxy userpass bs \<longleftrightarrow> (if userpass then px_auth proxy \<noteq> None \<and> bs = [5, 2, 1, 0] else bs = [5, 0])"

definition bound_reply :: "bytes \<Rightarrow> bool" where
  "bound_reply bs \<longleftrightarrow>
    (\<exists>r addr port. length port = 2 \<and>
       (bs = [5, 0, r, 1] @ addr @ port \<and> length addr = 4 \<or>
        bs = [5, 0, r, 4] @ addr @ port \<and> length addr = 16 \<or>
        (\<exists>len. bs = [5, 0, r, 3, len] @ addr @ port \<and> length addr = unat len)))"

definition granted :: "proxy \<Rightarrow> bool \<Rightarrow> bytes \<Rightarrow> bytes \<Rightarrow> bool" where
  "granted proxy userpass bs rest \<longleftrightarrow>
    (\<exists>chosen reply. bs = chosen @ reply @ rest \<and> choice proxy userpass chosen \<and> bound_reply reply)"

text \<open>The bytes the client owes for it.\<close>

definition requests :: "proxy \<Rightarrow> target \<Rightarrow> bool \<Rightarrow> bytes" where
  "requests proxy tgt userpass =
    greeting proxy @ (if userpass then auth_request (the (px_auth proxy)) else []) @ connect_request tgt"

text \<open>How a proxy reads them.\<close>

definition bytes_str :: "bytes \<Rightarrow> string" where
  "bytes_str bs = map (\<lambda>b. char_of (unat b)) bs"

definition counted :: "bytes \<Rightarrow> (bytes \<times> bytes) option" where
  "counted bs =
    (case bs of
       [] \<Rightarrow> None
     | n # bs \<Rightarrow> if unat n \<le> length bs then Some (take (unat n) bs, drop (unat n) bs) else None)"

definition read_greeting :: "bytes \<Rightarrow> (bytes \<times> bytes) option" where
  "read_greeting bs = (case bs of v # bs \<Rightarrow> if v = 5 then counted bs else None | [] \<Rightarrow> None)"

definition read_auth :: "bytes \<Rightarrow> (auth \<times> bytes) option" where
  "read_auth bs =
    (case bs of
       v # bs \<Rightarrow>
         if v \<noteq> 1 then None
         else (case counted bs of
             None \<Rightarrow> None
           | Some (user, bs) \<Rightarrow>
               (case counted bs of
                  None \<Rightarrow> None
                | Some (pass, bs) \<Rightarrow> Some (\<lparr>auth_username = user, auth_password = pass\<rparr>, bs)))
     | [] \<Rightarrow> None)"

definition read_request :: "bytes \<Rightarrow> target option" where
  "read_request bs =
    (case bs of
       v # c # z # t # bs \<Rightarrow>
         if (v, c, z) \<noteq> (5, 1, 0) then None
         else if t = 1 \<and> length bs = 6 then Some (Target_Addr (SockV4 (be_word (take 4 bs)) (be_word (drop 4 bs))))
         else if t = 4 \<and> length bs = 18 then Some (Target_Addr (SockV6 (be_word (take 16 bs)) (be_word (drop 16 bs))))
         else if t = 3 then
           (case counted bs of
              Some (name, port) \<Rightarrow> if length port = 2 then Some (Target_Domain (bytes_str name) (be_word port)) else None
            | None \<Rightarrow> None)
         else None
     | _ \<Rightarrow> None)"

definition server_view :: "bool \<Rightarrow> bytes \<Rightarrow> (bytes \<times> auth option \<times> target option) option" where
  "server_view userpass bs =
    (case read_greeting bs of
       None \<Rightarrow> None
     | Some (methods, bs) \<Rightarrow>
         if userpass
         then (case read_auth bs of None \<Rightarrow> None | Some (a, bs) \<Rightarrow> Some (methods, Some a, read_request bs))
         else Some (methods, None, read_request bs))"

section \<open>What the client sends\<close>

definition fits :: "auth option \<Rightarrow> bool" where
  "fits a \<longleftrightarrow> \<not> too_long a \<and> (case a of None \<Rightarrow> True | Some a \<Rightarrow>
     auth_username a \<noteq> [] \<and> utf8_valid (auth_username a) \<and> utf8_valid (auth_password a))"

lemma socks5_fits: "socks5 parse_host percent_decode u = Ok proxy \<Longrightarrow> fits (px_auth proxy)"
  by (auto simp: socks5_def socks5_auth_def decode_userinfo_def from_utf8_def fits_def
      split: if_splits sum.splits option.splits)

lemma bytes_str_str_bytes [simp]: "bytes_str (str_bytes s) = s"
  by (induction s) (simp_all add: bytes_str_def str_bytes_def unat_of_nat)

lemma unat_len [simp]: "n \<le> 255 \<Longrightarrow> unat (word_of_nat n :: byte) = n"
  by (simp add: unat_of_nat)

lemma counted_append [simp]: "length xs \<le> 255 \<Longrightarrow> counted (word_of_nat (length xs) # xs @ ys) = Some (xs, ys)"
  by (simp add: counted_def)

lemma read_auth_request:
  "fits (Some a) \<Longrightarrow> read_auth (auth_request a @ bs) = Some (a, bs)"
  by (simp add: read_auth_def auth_request_def socks_consts fits_def too_long_def)

lemma read_connect_request:
  "\<not> hostname_too_long tgt \<Longrightarrow> read_request (connect_request tgt) = Some tgt"
proof (induction tgt rule: connect_request.induct)
  case (1 host port)
  have "counted (word_of_nat (length host) # str_bytes host @ be_bytes 2 port) = Some (str_bytes host, be_bytes 2 port)"
    using 1 counted_append [of "str_bytes host"] by (simp add: hostname_too_long_def socks_consts)
  then show ?case by (simp add: read_request_def socks_consts be_word_be_bytes)
qed (simp_all add: read_request_def socks_consts be_word_be_bytes)

definition offered :: "proxy \<Rightarrow> bytes" where
  "offered proxy = (if px_auth proxy = None then [0] else [0, 2])"

lemma read_greeting_greeting: "read_greeting (greeting proxy @ bs) = Some (offered proxy, bs)"
  by (simp add: read_greeting_def greeting_def counted_def socks_consts offered_def split: option.splits)

lemma server_view_requests:
  assumes "fits (px_auth proxy)" "\<not> hostname_too_long tgt" "userpass \<longrightarrow> px_auth proxy \<noteq> None"
  shows "server_view userpass (requests proxy tgt userpass) =
    Some (offered proxy, if userpass then px_auth proxy else None, Some tgt)"
  using assms
  by (auto simp: server_view_def requests_def read_greeting_greeting read_auth_request read_connect_request)

section \<open>The exchange on a stream\<close>

lemma two_bytes: "length bs = 2 \<Longrightarrow> bs = [bs ! 0, bs ! 1]"
  by (cases bs; cases "tl bs") auto

lemma four_bytes: "length bs = 4 \<Longrightarrow> bs = [bs ! 0, bs ! 1, bs ! 2, bs ! 3]"
  by (auto dest!: length4_conv)

lemma bound_reply_ipv4: "length addr = 4 \<Longrightarrow> length port = 2 \<Longrightarrow> bound_reply ([5, 0, r, 1] @ addr @ port)"
  unfolding bound_reply_def by blast

lemma bound_reply_ipv6: "length addr = 16 \<Longrightarrow> length port = 2 \<Longrightarrow> bound_reply ([5, 0, r, 4] @ addr @ port)"
  unfolding bound_reply_def by blast

lemma bound_reply_domain:
  "length addr = unat len \<Longrightarrow> length port = 2 \<Longrightarrow> bound_reply ([5, 0, r, 3, len] @ addr @ port)"
  unfolding bound_reply_def by blast

context byte_stream
begin

lemma authenticate_ok:
  assumes "authenticate st a s = (Ok u, s')"
  shows "unread s = [1, 0] @ unread s' \<and> written s' = written s @ auth_request a"
  using assms unfolding authenticate_def on_status_def
  by (auto simp: ok_iff socks_consts split: if_splits dest!: write_ok flush_ok read_ok two_bytes)

lemma greeting_ok:
  assumes "andthen (lift_io (st_write st bs)) (\<lambda>_. andthen (lift_io (st_flush st)) (\<lambda>_. andthen (lift_io (st_read st 2)) f)) s = (Ok u, s')"
  obtains v m s1 where "f [v, m] s1 = (Ok u, s')" "unread s = [v, m] @ unread s1" "written s1 = written s @ bs"
proof -
  obtain s1 s2 s3 cs where steps: "st_write st bs s = (Ok (), s1)" "st_flush st s1 = (Ok (), s2)"
      "st_read st 2 s2 = (Ok cs, s3)" and f: "f cs s3 = (Ok u, s')"
    using assms by (auto simp: ok_iff)
  have "cs = [cs ! 0, cs ! 1]" "unread s = cs @ unread s3" "written s3 = written s @ bs"
    using write_ok [OF steps(1)] flush_ok [OF steps(2)] read_ok [OF steps(3)] two_bytes by auto
  then show ?thesis using that [of "cs ! 0" "cs ! 1" s3] f by simp
qed

lemma negotiate_ok:
  assumes "negotiate st proxy s = (Ok u, s')"
  obtains userpass chosen where "choice proxy userpass chosen" "unread s = chosen @ unread s'"
    "written s' = written s @ greeting proxy @ (if userpass then auth_request (the (px_auth proxy)) else [])"
proof -
  obtain v m s1 where s1: "unread s = [v, m] @ unread s1" "written s1 = written s @ greeting proxy"
    and run: "on_choice st proxy [v, m] s1 = (Ok u, s')"
    using assms unfolding negotiate_def by (rule greeting_ok)
  from run have v: "v = 5" by (auto simp: on_choice_def ok_iff socks_consts split: if_splits)
  from run consider "m = 0" "s' = s1"
    | a where "m = 2" "px_auth proxy = Some a" "authenticate st a s1 = (Ok u, s')"
    by (auto simp: on_choice_def ok_iff method_from_code_def split: if_splits option.splits)
  then show ?thesis
  proof cases
    case 1
    then show ?thesis using that [of False "[5, 0]"] s1 v by (simp add: choice_def)
  next
    case 2
    then show ?thesis using that [of True "[5, 2, 1, 0]"] s1 v authenticate_ok [OF 2(3)]
      by (simp add: choice_def)
  qed
qed

lemma send_request_ok:
  assumes "send_request st tgt s = (Ok u, s')"
  shows "unread s' = unread s \<and> written s' = written s @ connect_request tgt"
  using assms unfolding send_request_def by (auto simp: ok_iff dest!: write_ok flush_ok)

lemma read_bound_ok:
  assumes "read_bound st n s = (Ok u, s')"
  obtains addr port where "unread s = addr @ port @ unread s'" "length addr = n" "length port = 2"
    "written s' = written s"
proof -
  obtain bs where "st_read st (n + 2) s = (Ok bs, s')"
    using assms by (auto simp: read_bound_def ok_iff)
  then have "unread s = bs @ unread s'" "length bs = n + 2" "written s' = written s"
    using read_ok by blast+
  then show ?thesis using that [of "take n bs" "drop n bs"] by (simp flip: append_assoc)
qed

lemma read_reply_ok:
  assumes "read_reply st s = (Ok u, s')"
  obtains reply where "bound_reply reply" "unread s = reply @ unread s'" "written s' = written s"
proof -
  obtain h s1 where h: "st_read st 4 s = (Ok h, s1)"
    and run: "on_reply st h s1 = (Ok u, s')"
    using assms unfolding read_reply_def by (auto simp: andthen_ok lift_io_ok)
  have s1: "unread s = h @ unread s1" "written s1 = written s" and len: "length h = 4"
    using read_ok [OF h] by auto
  from run have "h ! 0 = 5" "h ! 1 = 0" by (auto simp: on_reply_def ok_iff socks_consts split: if_splits)
  then obtain r t where hs: "h = [5, 0, r, t]" using four_bytes [OF len] by simp
  from run consider "t = 1" "read_bound st 4 s1 = (Ok u, s')"
    | "t = 4" "read_bound st 16 s1 = (Ok u, s')"
    | l s2 where "t = 3" "st_read st 1 s1 = (Ok l, s2)" "read_bound st (unat (l ! 0)) s2 = (Ok u, s')"
    by (auto simp: on_reply_def ok_iff address_type_from_code_def hs split: if_splits)
  then show ?thesis
  proof cases
    case 1
    show ?thesis by (rule read_bound_ok [OF 1(2)], rule that, rule bound_reply_ipv4)
        (use s1 hs 1(1) in auto)
  next
    case 2
    show ?thesis by (rule read_bound_ok [OF 2(2)], rule that, rule bound_reply_ipv6)
        (use s1 hs 2(1) in auto)
  next
    case 3
    then obtain len where "unread s1 = [len] @ unread s2" "l = [len]" "written s2 = written s1"
      using read_ok [OF 3(2)] by (auto simp: length_Suc_conv)
    then show ?thesis by - (rule read_bound_ok [OF 3(3)], rule that, rule bound_reply_domain,
        use s1 hs 3(1) in auto)
  qed
qed

lemma connect_ok:
  assumes "connect st proxy tgt s = (Ok u, s')"
  shows "\<exists>userpass. granted proxy userpass (unread s) (unread s') \<and>
    written s' = written s @ requests proxy tgt userpass \<and> (userpass \<longrightarrow> px_auth proxy \<noteq> None)"
proof -
  obtain s1 s2 where steps: "negotiate st proxy s = (Ok (), s1)" "send_request st tgt s1 = (Ok (), s2)"
      "read_reply st s2 = (Ok u, s')"
    using assms unfolding connect_def by (auto simp: ok_iff split: if_splits)
  obtain userpass chosen where c: "choice proxy userpass chosen" "unread s = chosen @ unread s1"
    "written s1 = written s @ greeting proxy @ (if userpass then auth_request (the (px_auth proxy)) else [])"
    using steps(1) by (rule negotiate_ok)
  obtain reply where r: "bound_reply reply" "unread s2 = reply @ unread s'" "written s' = written s2"
    using steps(3) by (rule read_reply_ok)
  have "granted proxy userpass (unread s) (unread s')"
    unfolding granted_def using c r send_request_ok [OF steps(2)] by auto
  moreover have "written s' = written s @ requests proxy tgt userpass"
    using c r send_request_ok [OF steps(2)] by (simp add: requests_def)
  moreover have "userpass \<longrightarrow> px_auth proxy \<noteq> None" using c by (simp add: choice_def)
  ultimately show ?thesis by blast
qed

end

context reliable_stream
begin

lemma greeting_runs:
  assumes "unread s = [v, m] @ rest"
  shows "\<exists>s1. andthen (lift_io (st_write st bs)) (\<lambda>_. andthen (lift_io (st_flush st)) (\<lambda>_. andthen (lift_io (st_read st 2)) f)) s
      = f [v, m] s1 \<and> unread s1 = rest \<and> written s1 = written s @ bs"
proof -
  obtain s1 where 1: "st_write st bs s = (Ok (), s1)" "written s1 = written s @ bs" "unread s1 = unread s"
    using write_runs by blast
  obtain s2 where 2: "st_flush st s1 = (Ok (), s2)" "written s2 = written s1" "unread s2 = unread s1"
    using flush_runs by blast
  obtain s3 where 3: "st_read st 2 s2 = (Ok [v, m], s3)" "unread s3 = rest" "written s3 = written s2"
    using read_runs [of s2 "[v, m]" rest 2] 1 2 assms by auto
  show ?thesis using 1 2 3 by (intro exI [of _ s3]) (simp add: andthen_def lift_io_def)
qed

lemma negotiate_runs:
  assumes "choice proxy userpass chosen" "unread s = chosen @ rest"
  shows "\<exists>s'. negotiate st proxy s = (Ok (), s') \<and> unread s' = rest"
proof (cases userpass)
  case False
  then obtain s1 where "negotiate st proxy s = (Ok (), s1)" "unread s1 = rest"
    using greeting_runs [of s 5 0 rest "greeting proxy" "on_choice st proxy"] assms
    by (auto simp: negotiate_def on_choice_def choice_def socks_consts method_from_code_def give_def)
  then show ?thesis by blast
next
  case True
  then obtain a where a: "px_auth proxy = Some a" using assms by (auto simp: choice_def)
  obtain s1 where s1: "negotiate st proxy s = authenticate st a s1" "unread s1 = [1, 0] @ rest"
    using greeting_runs [of s 5 2 "[1, 0] @ rest" "greeting proxy" "on_choice st proxy"] assms True a
    by (auto simp: negotiate_def on_choice_def choice_def socks_consts method_from_code_def)
  obtain s2 where "authenticate st a s1 = (Ok (), s2)" "unread s2 = rest"
    using greeting_runs [OF s1(2), of "auth_request a" on_status]
    by (auto simp: authenticate_def on_status_def socks_consts give_def)
  then show ?thesis using s1 by auto
qed

lemma send_request_runs:
  "\<exists>s'. send_request st tgt s = (Ok (), s') \<and> unread s' = unread s"
proof -
  obtain s1 where 1: "st_write st (connect_request tgt) s = (Ok (), s1)" "unread s1 = unread s"
    using write_runs by blast
  obtain s2 where 2: "st_flush st s1 = (Ok (), s2)" "unread s2 = unread s1"
    using flush_runs by blast
  show ?thesis using 1 2 by (simp add: send_request_def andthen_def lift_io_def give_def)
qed

lemma read_bound_runs:
  assumes "unread s = addr @ port @ rest" "length addr = n" "length port = 2"
  shows "\<exists>s'. read_bound st n s = (Ok (), s') \<and> unread s' = rest"
  using read_runs [of s "addr @ port" rest "n + 2"] assms
  by (auto simp: read_bound_def andthen_def lift_io_def give_def)

lemma read_reply_head:
  assumes "unread s = [5, 0, r, t] @ rest"
  shows "\<exists>s1. unread s1 = rest \<and> read_reply st s = on_reply st [5, 0, r, t] s1"
  using read_runs [OF assms, of 4] by (auto simp: read_reply_def andthen_def lift_io_def)

lemma read_reply_runs:
  assumes "bound_reply reply" "unread s = reply @ rest"
  shows "\<exists>s'. read_reply st s = (Ok (), s') \<and> unread s' = rest"
proof -
  obtain r addr port where port: "length port = 2" and
    "reply = [5, 0, r, 1] @ addr @ port \<and> length addr = 4 \<or>
     reply = [5, 0, r, 4] @ addr @ port \<and> length addr = 16 \<or>
     (\<exists>len. reply = [5, 0, r, 3, len] @ addr @ port \<and> length addr = unat len)"
    using assms(1) unfolding bound_reply_def by blast
  then consider "reply = [5, 0, r, 1] @ addr @ port" "length addr = 4"
    | "reply = [5, 0, r, 4] @ addr @ port" "length addr = 16"
    | len where "reply = [5, 0, r, 3] @ [len] @ addr @ port" "length addr = unat len"
    by auto
  then show ?thesis
  proof cases
    case 1
    obtain s1 where "unread s1 = addr @ port @ rest" "read_reply st s = read_bound st 4 s1"
      using read_reply_head [of s r 1 "addr @ port @ rest"] assms 1 by (auto simp: on_reply_def socks_consts address_type_from_code_def)
    then show ?thesis using read_bound_runs port 1 by auto
  next
    case 2
    obtain s1 where "unread s1 = addr @ port @ rest" "read_reply st s = read_bound st 16 s1"
      using read_reply_head [of s r 4 "addr @ port @ rest"] assms 2 by (auto simp: on_reply_def socks_consts address_type_from_code_def)
    then show ?thesis using read_bound_runs port 2 by auto
  next
    case 3
    obtain s1 where s1: "unread s1 = [len] @ addr @ port @ rest"
      "read_reply st s = andthen (lift_io (st_read st 1)) (\<lambda>len. read_bound st (unat (len ! 0))) s1"
      using read_reply_head [of s r 3 "[len] @ addr @ port @ rest"] assms 3 by (auto simp: on_reply_def socks_consts address_type_from_code_def)
    obtain s2 where "st_read st 1 s1 = (Ok [len], s2)" "unread s2 = addr @ port @ rest"
      using read_runs [OF s1(1), of 1] by auto
    then show ?thesis using read_bound_runs [of s2 addr port rest] port 3 s1 by (simp add: andthen_def lift_io_def)
  qed
qed

lemma connect_runs:
  assumes "granted proxy userpass (unread s) rest" "\<not> hostname_too_long tgt"
  shows "\<exists>s'. connect st proxy tgt s = (Ok (), s') \<and> unread s' = rest"
proof -
  obtain chosen reply where c: "unread s = chosen @ reply @ rest" "choice proxy userpass chosen" "bound_reply reply"
    using assms(1) unfolding granted_def by blast
  obtain s1 where 1: "negotiate st proxy s = (Ok (), s1)" "unread s1 = reply @ rest"
    using negotiate_runs [OF c(2,1)] by blast
  obtain s2 where 2: "send_request st tgt s1 = (Ok (), s2)" "unread s2 = unread s1"
    using send_request_runs by blast
  obtain s3 where "read_reply st s2 = (Ok (), s3)" "unread s3 = rest"
    using read_reply_runs [OF c(3)] 1 2 by metis
  then show ?thesis using 1 2 assms(2) by (simp add: connect_def andthen_def)
qed

end

section \<open>Properties\<close>

text \<open>
  C18. On a reliable stream, asking for a tunnel succeeds and leaves \<open>rest\<close> to be read if and
  only if the proxy sent a method the client offered (with a success status after the
  password exchange), a success reply whose bound address has the announced length, and then
  exactly \<open>rest\<close>: nothing of the tunnel is swallowed and nothing of the reply is left.
\<close>

theorem socks_tunnel:
  assumes "reliable_stream st unread written" "\<not> hostname_too_long tgt"
  shows "(\<exists>s'. connect st proxy tgt s = (Ok (), s') \<and> unread s' = rest) \<longleftrightarrow>
    (\<exists>userpass. granted proxy userpass (unread s) rest)"
  using reliable_stream.connect_runs [OF assms(1) _ assms(2)]
    byte_stream.connect_ok [OF reliable_stream.axioms(1) [OF assms(1)]]
  by metis

definition sample_proxy :: proxy where
  "sample_proxy = \<lparr>px_host = Host_Ipv4 0x7F000001, px_port = 1080,
     px_auth = Some \<lparr>auth_username = [117], auth_password = [112, 113]\<rparr>, px_remote_dns = True\<rparr>"

definition sample_url :: url where
  "sample_url = \<lparr>u_scheme = ''socks5h'', u_host = Some (Host_Ipv4 0x7F000001), u_port = None,
     u_known_port = None, u_username = ''u'', u_password = Some ''pq'', u_path = [], u_query = None, u_fragment = None\<rparr>"

definition sample_ws_url :: url where
  "sample_ws_url = \<lparr>u_scheme = ''ws'', u_host = Some (Host_Domain ''a.b''), u_port = None,
     u_known_port = Some 80, u_username = [], u_password = None, u_path = ''/chat'', u_query = None, u_fragment = None\<rparr>"

definition sample_stream :: mem_stream where
  "sample_stream = \<lparr>ms_in = [5, 2, 1, 0, 5, 0, 0, 1, 10, 0, 0, 1, 4, 56, 42], ms_out = []\<rparr>"

definition sample_net :: "(nat, nat, mem_stream) network" where
  "sample_net = \<lparr>nw_lookup = (\<lambda>_ w. (Ok [], w)), nw_connect = (\<lambda>_ w. (Ok sample_stream, Suc w)),
     nw_socket = (\<lambda>_ w. (Ok 0, w)), nw_bind = (\<lambda>k _ w. (Ok k, w)),
     nw_socket_connect = (\<lambda>_ _ w. (Ok sample_stream, w))\<rparr>"

lemma sample_granted: "granted sample_proxy True (ms_in sample_stream) [42]"
  unfolding granted_def
  by (rule exI [of _ "[5, 2, 1, 0]"], rule exI [of _ "[5, 0, 0, 1] @ [10, 0, 0, 1] @ [4, 56]"])
    (simp add: sample_stream_def choice_def sample_proxy_def
      bound_reply_ipv4 [of "[10, 0, 0, 1]" "[4, 56]", simplified])

theorem socks_tunnel_witness:
  "\<exists>s'. connect mem_io sample_proxy (Target_Domain ''a.b'' 80) sample_stream = (Ok (), s') \<and> ms_in s' = [42]"
  using socks_tunnel [OF mem.reliable_stream_axioms, of "Target_Domain ''a.b'' 80" sample_proxy sample_stream "[42]"]
    sample_granted by (auto simp: hostname_too_long_def socks_consts)

text \<open>
  C19. When a connection through a proxy that was built from its URL succeeds, the stream is
  the one dialled to the proxy, the proxy granted the tunnel on it, and what the client wrote
  is exactly what a proxy that follows RFC 1928 and RFC 1929 reads as: the methods offered,
  the credentials of the URL if and only if the proxy chose that method, and a request for
  the target that the URL and the DNS mode call for.
\<close>

theorem tunnel_opened:
  assumes "byte_stream st unread written" "socks5 parse_host percent_decode pu = Ok proxy"
    and "connect_from nw st proxy u address local_address w = Finished (Ok s', w')"
  shows "\<exists>tgt w1 s userpass sent.
    target_of nw proxy u address w = Finished (Ok tgt, w1) \<and>
    proxy_dial nw proxy local_address w1 = (Ok s, w') \<and>
    granted proxy userpass (unread s) (unread s') \<and>
    written s' = written s @ sent \<and>
    server_view userpass sent = Some (offered proxy, if userpass then px_auth proxy else None, Some tgt)"
proof -
  obtain tgt w1 s where run: "target_of nw proxy u address w = Finished (Ok tgt, w1)"
      "proxy_dial nw proxy local_address w1 = (Ok s, w')" and conn: "connect st proxy tgt s = (Ok (), s')"
    using assms(3) by (auto simp: connect_from_def ok_iff split: if_splits exec.splits prod.splits sum.splits)
  obtain userpass where g: "granted proxy userpass (unread s) (unread s')"
      "written s' = written s @ requests proxy tgt userpass" "userpass \<longrightarrow> px_auth proxy \<noteq> None"
    using byte_stream.connect_ok [OF assms(1) conn] by blast
  have "\<not> hostname_too_long tgt" using conn by (auto simp: connect_def ok_iff)
  then show ?thesis using run g server_view_requests [OF socks5_fits [OF assms(2)] _ g(3)] by blast
qed

lemma sample_proxy_socks5: "socks5 (\<lambda>d. Ok (Host_Domain d)) str_bytes sample_url = Ok sample_proxy"
  by code_simp

theorem tunnel_opened_witness:
  "\<exists>tgt w1 s userpass sent s' :: mem_stream.
    connect_from sample_net mem_io sample_proxy sample_ws_url None None 0 = Finished (Ok s', 1) \<and>
    target_of sample_net sample_proxy sample_ws_url None 0 = Finished (Ok tgt, w1) \<and>
    proxy_dial sample_net sample_proxy None w1 = (Ok s, 1) \<and>
    granted sample_proxy userpass (ms_in s) (ms_in s') \<and> ms_out s' = ms_out s @ sent \<and>
    server_view userpass sent =
      Some (offered sample_proxy, if userpass then px_auth sample_proxy else None, Some tgt)"
proof -
  have run: "connect_from sample_net mem_io sample_proxy sample_ws_url None None 0 =
    Finished (Ok (snd (connect mem_io sample_proxy (Target_Domain ''a.b'' 80) sample_stream)), 1)" by code_simp
  show ?thesis
    using run tunnel_opened [OF mem.byte_stream_axioms sample_proxy_socks5 run] by blast
qed

end
