(* ===== verification/Client.thy ===== *)
theory Client
  imports Socks5 Handshake_Steps
begin

text \<open>
  The connection builder (\<open>native/builder.rs\<close>) and what polling it does: opening the
  transport, through a SOCKS5 proxy and under TLS when asked for, and running the handshake of
  the chosen HTTP version over it (\<open>native/mod.rs\<close>, \<open>stream.rs\<close>).

  The network, rustls, hyper and the http crates are parameters; \<open>'w\<close> is the state of the
  world the network calls work on.
\<close>

section \<open>Streams\<close>

datatype ('s, 'ts) maybe_tls_stream = Plain 's | Tls 'ts

text \<open>
  \<open>AsyncRead\<close> and \<open>AsyncWrite\<close> of a stream, as the poll functions on its state; those of
  \<open>MaybeTlsStream\<close> are the ones of the stream inside.
\<close>

record 's async_io =
  ai_read :: "nat \<Rightarrow> 's \<Rightarrow> (io_error + bytes) poll \<times> 's"
  ai_write :: "bytes \<Rightarrow> 's \<Rightarrow> (io_error + nat) poll \<times> 's"
  ai_flush :: "'s \<Rightarrow> (io_error + unit) poll \<times> 's"
  ai_shutdown :: "'s \<Rightarrow> (io_error + unit) poll \<times> 's"

definition inside :: "('s \<Rightarrow> 'r \<times> 's) \<Rightarrow> ('ts \<Rightarrow> 'r \<times> 'ts) \<Rightarrow> ('s, 'ts) maybe_tls_stream \<Rightarrow> 'r \<times> ('s, 'ts) maybe_tls_stream" where
  "inside f g m = (case m of Plain s \<Rightarrow> map_prod id Plain (f s) | Tls t \<Rightarrow> map_prod id Tls (g t))"

definition maybe_tls_io :: "'s async_io \<Rightarrow> 'ts async_io \<Rightarrow> ('s, 'ts) maybe_tls_stream async_io" where
  "maybe_tls_io plain tls =
    \<lparr>ai_read = (\<lambda>n. inside (ai_read plain n) (ai_read tls n)),
     ai_write = (\<lambda>bs. inside (ai_write plain bs) (ai_write tls bs)),
     ai_flush = inside (ai_flush plain) (ai_flush tls),
     ai_shutdown = inside (ai_shutdown plain) (ai_shutdown tls)\<rparr>"

text \<open>\<open>HttpStream\<close> of \<open>native/mod.rs\<close>, an upgraded stream of reqwest or of hyper.\<close>

datatype ('rw, 'hy) http_stream = Reqwest_Stream 'rw | Hyper_Stream 'hy

definition inside_http :: "('rw \<Rightarrow> 'r \<times> 'rw) \<Rightarrow> ('hy \<Rightarrow> 'r \<times> 'hy) \<Rightarrow> ('rw, 'hy) http_stream \<Rightarrow> 'r \<times> ('rw, 'hy) http_stream" where
  "inside_http f g m = (case m of Reqwest_Stream s \<Rightarrow> map_prod id Reqwest_Stream (f s) | Hyper_Stream t \<Rightarrow> map_prod id Hyper_Stream (g t))"

definition http_stream_io :: "'rw async_io \<Rightarrow> 'hy async_io \<Rightarrow> ('rw, 'hy) http_stream async_io" where
  "http_stream_io reqwest hyper =
    \<lparr>ai_read = (\<lambda>n. inside_http (ai_read reqwest n) (ai_read hyper n)),
     ai_write = (\<lambda>bs. inside_http (ai_write reqwest bs) (ai_write hyper bs)),
     ai_flush = inside_http (ai_flush reqwest) (ai_flush hyper),
     ai_shutdown = inside_http (ai_shutdown reqwest) (ai_shutdown hyper)\<rparr>"

section \<open>The builder\<close>

datatype http_version = Http1 | Http2

record ('t, 'h, 'u) ws_builder_opts =
  bo_url :: url
  bo_tcp_address :: "socket_addr option"
  bo_local_address :: "ip_addr option"
  bo_connector :: "'t option"
  bo_proxy :: "proxy option"
  bo_establish_options :: "options option"
  bo_http_builder :: "('h, 'u) request_builder option"
  bo_version :: http_version

record ('t, 'h, 'u, 'f) web_socket_builder =
  wb_opts :: "('t, 'h, 'u) ws_builder_opts option"
  wb_future :: "'f option"

definition builder_new :: "url \<Rightarrow> ('t, 'h, 'u, 'f) web_socket_builder" where
  "builder_new u =
    \<lparr>wb_opts = Some \<lparr>bo_url = u, bo_tcp_address = None, bo_local_address = None, bo_connector = None, bo_proxy = None,
       bo_establish_options = None, bo_http_builder = None, bo_version = Http1\<rparr>,
     wb_future = None\<rparr>"

definition ws_connect :: "url \<Rightarrow> ('t, 'h, 'u, 'f) web_socket_builder" where
  "ws_connect u = builder_new u"

text \<open>Every setter reaches the options of a builder that was not polled yet; one that was is unreachable.\<close>

definition set_opts :: "(('t, 'h, 'u) ws_builder_opts \<Rightarrow> ('t, 'h, 'u) ws_builder_opts) \<Rightarrow>
    ('t, 'h, 'u, 'f) web_socket_builder \<Rightarrow> ('t, 'h, 'u, 'f) web_socket_builder exec" where
  "set_opts f b = expect (wb_opts b) (\<lambda>opts. Finished (b\<lparr>wb_opts := Some (f opts)\<rparr>))"

definition with_connector where "with_connector c = set_opts (\<lambda>opts. opts\<lparr>bo_connector := Some c\<rparr>)"

definition with_tcp_address where "with_tcp_address a = set_opts (\<lambda>opts. opts\<lparr>bo_tcp_address := Some a\<rparr>)"

definition with_local_address where "with_local_address a = set_opts (\<lambda>opts. opts\<lparr>bo_local_address := Some a\<rparr>)"

definition with_proxy where "with_proxy p = set_opts (\<lambda>opts. opts\<lparr>bo_proxy := Some p\<rparr>)"

definition with_options where "with_options o' = set_opts (\<lambda>opts. opts\<lparr>bo_establish_options := Some o'\<rparr>)"

definition with_request where "with_request b = set_opts (\<lambda>opts. opts\<lparr>bo_http_builder := Some b\<rparr>)"

definition set_http_version :: "http_version \<Rightarrow> ('t, 'h, 'u, 'f) web_socket_builder \<Rightarrow> ('t, 'h, 'u, 'g) web_socket_builder exec" where
  "set_http_version v b = expect (wb_opts b) (\<lambda>opts. Finished \<lparr>wb_opts = Some (opts\<lparr>bo_version := v\<rparr>), wb_future = None\<rparr>)"

section \<open>Opening the transport\<close>

text \<open>
  The features the crate was built with and what it uses of rustls: the default connector for
  a list of ALPN protocols, \<open>ServerName::try_from\<close> and \<open>TlsConnector::connect\<close>.
\<close>

record ('w, 't, 'n, 's, 'ts) tls_lib =
  tl_enabled :: bool
  tl_provider :: bool
  tl_default :: "string list \<Rightarrow> 't"
  tl_server_name :: "string \<Rightarrow> 'n option"
  tl_connect :: "'t \<Rightarrow> 'n \<Rightarrow> 's \<Rightarrow> 'w \<Rightarrow> (io_error + 'ts) \<times> 'w"

definition andthen_exec :: "('w \<Rightarrow> ('a res \<times> 'w) exec) \<Rightarrow> ('a \<Rightarrow> 'w \<Rightarrow> ('b res \<times> 'w) exec) \<Rightarrow> 'w \<Rightarrow> ('b res \<times> 'w) exec" where
  "andthen_exec m f w =
    proceed (m w) (\<lambda>(r, w). case r of Err e \<Rightarrow> Finished (Err e, w) | Ok a \<Rightarrow> f a w)"

definition HTTP1_ALPN :: "string list" where "HTTP1_ALPN = [''http/1.1'']"

definition alpn_for :: "http_version \<Rightarrow> string list" where
  "alpn_for v = (case v of Http1 \<Rightarrow> HTTP1_ALPN | Http2 \<Rightarrow> [''h2''])"

definition dial :: "('w, 'k, 's) network \<Rightarrow> 's io_stream \<Rightarrow> ('t, 'h, 'u) ws_builder_opts \<Rightarrow> 'w \<Rightarrow> ('s res \<times> 'w) exec" where
  "dial nw st opts w =
    (case bo_proxy opts of
       None \<Rightarrow>
         (case bo_tcp_address opts of
            Some a \<Rightarrow> Finished (lift_io (connect_tcp nw (bo_local_address opts) (To_Addr a)) w)
          | None \<Rightarrow>
              expect (u_known_port (bo_url opts)) (\<lambda>port.
              expect (u_host (bo_url opts)) (\<lambda>h.
                Finished (lift_io (connect_tcp nw (bo_local_address opts) (host_target h port)) w))))
     | Some proxy \<Rightarrow>
         connect_from nw st proxy (bo_url opts) (bo_tcp_address opts) (bo_local_address opts) w)"

definition choose_connector :: "('w, 't, 'n, 's, 'ts) tls_lib \<Rightarrow> bool \<Rightarrow> ('t, 'h, 'u) ws_builder_opts \<Rightarrow>
    string list \<Rightarrow> 't option res" where
  "choose_connector rustls secure opts alpn =
    (if \<not> secure then Ok None
     else if \<not> tl_enabled rustls then Err TlsDisabled
     else case bo_connector opts of
       Some c \<Rightarrow> Ok (Some c)
     | None \<Rightarrow> if tl_provider rustls then Ok (Some (tl_default rustls alpn)) else Err MissingTlsConnector)"

definition secure_scheme :: "url \<Rightarrow> bool res" where
  "secure_scheme u =
    (if u_scheme u = ''ws'' then Ok False else if u_scheme u = ''wss'' then Ok True else Err InvalidHttpScheme)"

definition start_tls :: "('w, 't, 'n, 's, 'ts) tls_lib \<Rightarrow> 'h http_lib \<Rightarrow> url \<Rightarrow> 't option \<Rightarrow> 's \<Rightarrow> 'w \<Rightarrow>
    (('s, 'ts) maybe_tls_stream res \<times> 'w) exec" where
  "start_tls rustls lib u connector s w =
    (case connector of
       None \<Rightarrow> Finished (Ok (Plain s), w)
     | Some c \<Rightarrow>
         expect (u_host u) (\<lambda>h.
         case tl_server_name rustls (lib_host lib h) of
           None \<Rightarrow> Finished (Err (IoError (Io_Error InvalidInput ''invalid dnsname'')), w)
         | Some domain \<Rightarrow> Finished (andthen (lift_io (tl_connect rustls c domain s)) (\<lambda>t w. (Ok (Tls t), w)) w)))"

definition connect_stream :: "('w, 't, 'n, 's, 'ts) tls_lib \<Rightarrow> 'h http_lib \<Rightarrow> ('w, 'k, 's) network \<Rightarrow> 's io_stream \<Rightarrow>
    (bool \<Rightarrow> 's \<Rightarrow> 's) \<Rightarrow> ('t, 'h, 'u) ws_builder_opts \<Rightarrow> options \<Rightarrow> string list \<Rightarrow> 'w \<Rightarrow>
    (('s, 'ts) maybe_tls_stream res \<times> 'w) exec" where
  "connect_stream rustls lib nw st set_nodelay opts options alpn =
    andthen_exec (\<lambda>w. Finished (secure_scheme (bo_url opts), w)) (\<lambda>secure.
    andthen_exec (\<lambda>w. Finished (choose_connector rustls secure opts alpn, w)) (\<lambda>connector.
    andthen_exec (dial nw st opts) (\<lambda>s.
      start_tls rustls lib (bo_url opts) connector (set_nodelay (opt_no_delay options) s))))"

section \<open>Connecting\<close>

definition with_world :: "'a res exec \<Rightarrow> 'w \<Rightarrow> ('a res \<times> 'w) exec" where
  "with_world x w = proceed x (\<lambda>r. Finished (r, w))"

definition connect_priv :: "('w, 't, 'n, 's, 'ts) tls_lib \<Rightarrow> 'h http_lib \<Rightarrow> ('w, 'k, 's) network \<Rightarrow> 's io_stream \<Rightarrow>
    (bool \<Rightarrow> 's \<Rightarrow> 's) \<Rightarrow> (('s, 'ts) maybe_tls_stream, 'p, 'z, 'y) platform \<Rightarrow>
    (('s, 'ts) maybe_tls_stream, 'h, 'u, 'c, 'up) hyper \<Rightarrow> bytes \<Rightarrow> ('t, 'h, 'u) ws_builder_opts \<Rightarrow>
    'w \<Rightarrow> (('p, 'z, 'y) crate_socket res \<times> 'w) exec" where
  "connect_priv rustls lib nw st set_nodelay pf hy random opts =
    (let options = unwrap_or (bo_establish_options opts) options_default;
         builder = unwrap_or (bo_http_builder opts) (request_builder lib)
     in andthen_exec (connect_stream rustls lib nw st set_nodelay opts options HTTP1_ALPN) (\<lambda>sock.
          with_world (handshake_with_request pf lib hy random (bo_url opts) sock options builder)))"

definition connect_versioned :: "('w, 't, 'n, 's, 'ts) tls_lib \<Rightarrow> 'h http_lib \<Rightarrow> ('w, 'k, 's) network \<Rightarrow> 's io_stream \<Rightarrow>
    (bool \<Rightarrow> 's \<Rightarrow> 's) \<Rightarrow> ('up, 'p, 'z, 'y) platform \<Rightarrow>
    (('s, 'ts) maybe_tls_stream, 'h, 'u, 'c, 'up) hyper \<Rightarrow> bytes \<Rightarrow> ('t, 'h, 'u) ws_builder_opts \<Rightarrow>
    'w \<Rightarrow> (('p, 'z, 'y) crate_socket res \<times> 'w) exec" where
  "connect_versioned rustls lib nw st set_nodelay pf hy random opts =
    (let options = unwrap_or (bo_establish_options opts) options_default;
         builder = unwrap_or (bo_http_builder opts) (request_builder lib)
     in andthen_exec (connect_stream rustls lib nw st set_nodelay opts options (alpn_for (bo_version opts))) (\<lambda>sock.
          with_world
            (case bo_version opts of
               Http2 \<Rightarrow> http2_handshake pf lib hy (bo_url opts) sock options builder
             | Http1 \<Rightarrow> handshake_http1_upgraded pf lib hy random (bo_url opts) sock options builder)))"

text \<open>
  \<open>Future::poll\<close> of the builder: the first poll makes the future of \<open>connect_priv\<close> or
  \<open>connect_versioned\<close> out of the options, every poll polls it.  \<open>start\<close> makes the future,
  \<open>poll_future\<close> polls it.
\<close>

definition builder_poll :: "(('t, 'h, 'u) ws_builder_opts \<Rightarrow> 'f) \<Rightarrow> ('f \<Rightarrow> ('r poll \<times> 'f) exec) \<Rightarrow>
    ('t, 'h, 'u, 'f) web_socket_builder \<Rightarrow> ('r poll \<times> ('t, 'h, 'u, 'f) web_socket_builder) exec" where
  "builder_poll start poll_future b =
    (let b = (case wb_opts b of Some opts \<Rightarrow> \<lparr>wb_opts = None, wb_future = Some (start opts)\<rparr> | None \<Rightarrow> b)
     in expect (wb_future b) (\<lambda>f. proceed (poll_future f) (\<lambda>(r, f). Finished (r, b\<lparr>wb_future := Some f\<rparr>))))"

section \<open>Calls that return\<close>

definition returns :: "'a exec \<Rightarrow> bool" where
  "returns x \<longleftrightarrow> (\<exists>a. x = Finished a)"

named_theorems returning \<open>rules for calls that do not panic\<close>

lemma returns_Finished [simp]: "returns (Finished a)"
  by (simp add: returns_def)

lemma returns_attempt [returning]:
  "returns x \<Longrightarrow> (\<And>a. x = Finished (Ok a) \<Longrightarrow> returns (f a)) \<Longrightarrow> returns (attempt x f)"
  unfolding returns_def by (auto simp: attempt_def split: sum.split)

lemma returns_proceed [returning]:
  "returns x \<Longrightarrow> (\<And>a. x = Finished a \<Longrightarrow> returns (f a)) \<Longrightarrow> returns (proceed x f)"
  unfolding returns_def by auto

lemma returns_expect [returning]:
  "x \<noteq> None \<Longrightarrow> (\<And>a. x = Some a \<Longrightarrow> returns (f a)) \<Longrightarrow> returns (expect x f)"
  by (cases x) auto

lemma returns_hyper_res [returning]: "returns (hyper_res r)" "returns (connect_res r)" "returns (reqwest_res r')"
  by (simp_all add: hyper_res_def connect_res_def reqwest_res_def)

lemma returns_andthen_exec [returning]:
  "returns (m w) \<Longrightarrow> (\<And>a w'. m w = Finished (Ok a, w') \<Longrightarrow> returns (f a w')) \<Longrightarrow> returns (andthen_exec m f w)"
  unfolding returns_def andthen_exec_def by (auto split: sum.split)

lemma returns_with_world [returning]: "returns x \<Longrightarrow> returns (with_world x w)"
  unfolding returns_def with_world_def by auto

lemma negotiation_returns [returning]: "limit_ok checks opts \<Longrightarrow> returns (negotiation_new checks exts opts rl)"
  by (auto simp: negotiation_new_def limit_ok_def twice_def split: sum.split option.splits)

lemma verify_returns [returning]:
  "limit_ok checks opts \<Longrightarrow> returns (verify_upgrade checks lib status headers key opts)"
  "limit_ok checks opts \<Longrightarrow> returns (verify checks lib rsp key opts)"
  "limit_ok checks opts \<Longrightarrow> returns (http2_verify checks lib rsp opts)"
  by (auto simp: verify_def verify_upgrade_def http2_verify_def intro!: returning)

lemma connect_from_returns [returning]:
  assumes "url_ok u"
  shows "returns (connect_from nw st proxy u address local_address w)"
proof -
  have "returns (target_of nw proxy u address w)" if web: "web_scheme (u_scheme u)"
  proof -
    obtain h port where "u_host u = Some h" "u_known_port u = Some port" using assms web by (auto simp: url_ok_def)
    then show ?thesis by (cases h) (auto simp: target_of_def split: option.split)
  qed
  then show ?thesis unfolding returns_def connect_from_def
    by (auto split: if_split sum.split)
qed

lemma dial_returns [returning]:
  assumes "url_ok (bo_url opts)" "web_scheme (u_scheme (bo_url opts))"
  shows "returns (dial nw st opts w)"
  using assms unfolding dial_def
  by (auto simp: url_ok_def split: option.split intro!: returning)

lemma connect_stream_returns [returning]:
  assumes "url_ok (bo_url opts)"
  shows "returns (connect_stream rustls lib nw st set_nodelay opts options alpn w)"
proof (cases "web_scheme (u_scheme (bo_url opts))")
  case True
  then have "returns (start_tls rustls lib (bo_url opts) connector s w')" for connector s w'
    using assms unfolding start_tls_def by (auto simp: url_ok_def split: option.split intro!: returning)
  then show ?thesis using assms True unfolding connect_stream_def by (auto intro!: returning)
next
  case False
  then have "secure_scheme (bo_url opts) = Err InvalidHttpScheme" by (auto simp: secure_scheme_def web_scheme_def)
  then show ?thesis by (simp add: connect_stream_def andthen_exec_def)
qed

context http_crates
begin

lemma http1_upgrade_returns:
  fixes r :: "('h, 'u) http_request"
  assumes "request_ok lib u r" "limit_ok checks opts"
  shows "returns (http1_upgrade checks zlib lib hy random u chan opts (Some r))"
proof -
  have "visible (generate_key lib random)" by (simp add: generate_key_def base64_visible)
  then have "returns (http1_request lib zlib (generate_key lib random) u opts (Some r))"
    using http1_request_runs [OF assms(1)] by (metis returns_Finished)
  then show ?thesis using assms(2) unfolding http1_upgrade_def Let_def
    by (auto intro!: returning split: prod.split)
qed

lemma build_request_returns:
  fixes r :: "('h, 'u) http_request"
  assumes "extended_ok lib u"
  shows "returns (build_request lib zlib u opts (Some r))"
  using build_request_runs [OF assms] by (metis returns_Finished)

end

lemma connect_stream_scheme:
  assumes "connect_stream rustls lib nw st set_nodelay opts options alpn w = Finished (Ok s, w')"
  shows "web_scheme (u_scheme (bo_url opts))"
  using assms
  by (auto simp: connect_stream_def andthen_exec_def secure_scheme_def web_scheme_def split: if_splits)

section \<open>Properties\<close>


definition sample_transport :: "unit transport" where
  "sample_transport =
    \<lparr>tr_next = (\<lambda>s. (Pending, s)), tr_ready = (\<lambda>s. (Ready (Ok ()), s)), tr_send = (\<lambda>_ s. (Ok (), s)),
     tr_flush = (\<lambda>s. (Ready (Ok ()), s)), tr_close = (\<lambda>s. (Ready (Ok ()), s)), tr_read_len = (\<lambda>_. 0),
     tr_write_len = (\<lambda>_. 0), tr_boundary = (\<lambda>_. 0), tr_resize_read = (\<lambda>_ s. s), tr_resize_write = (\<lambda>_ s. s)\<rparr>"

definition sample_platform :: "('io, unit, unit, unit) platform" where
  "sample_platform =
    \<lparr>pf_checks = True, pf_zlib = True, pf_transport = sample_transport, pf_parts = (\<lambda>_ _ _. ()),
     pf_boundary = (\<lambda>_ s. s), pf_pools = (\<lambda>_. None)\<rparr>"

definition sample_rustls :: "(nat, unit, unit, mem_stream, unit) tls_lib" where
  "sample_rustls =
    \<lparr>tl_enabled = True, tl_provider = True, tl_default = (\<lambda>_. ()), tl_server_name = (\<lambda>_. Some ()),
     tl_connect = (\<lambda>_ _ _ w. (Ok (), w))\<rparr>"

definition sample_hyper :: "((mem_stream, unit) maybe_tls_stream, (string \<times> bytes) list, unit, unit, unit) hyper" where
  "sample_hyper =
    \<lparr>hy_http1 = (\<lambda>_. Ok ()), hy_http2 = (\<lambda>_. Ok ()),
     hy_send = (\<lambda>_ _. Err (Hyper_Error ''reset'' [None, Some (Some PROTOCOL_ERROR)])),
     hy_upgrade = (\<lambda>_. Ok ()), hy_downcast = (\<lambda>_. Some (Tls (), []))\<rparr>"

definition sample_opts :: "(unit, (string \<times> bytes) list, unit) ws_builder_opts" where
  "sample_opts =
    \<lparr>bo_url = sample_ws_url, bo_tcp_address = None, bo_local_address = None, bo_connector = None,
     bo_proxy = Some sample_proxy, bo_establish_options = None, bo_http_builder = None, bo_version = Http2\<rparr>"


text \<open>
  The entry points that take a stream and a URL have no such check in front: without a host,
  and without a \<open>Host\<close> header of the caller, they panic.
\<close>

lemma handshake_panics_without_host:
  assumes "http_crates lib" "u_host u = None"
  shows "handshake pf lib hy random u chan opts = Panic"
proof -
  have "lib_get lib HOST (lib_empty lib) = None" by (simp add: lib_get_def http_crates.all_empty [OF assms(1)])
  then show ?thesis using assms(2)
    by (simp add: handshake_def handshake_with_request_def http1_upgrade_def http1_request_def default_host_def
        request_builder_def Let_def)
qed

end
