(* ===== verification/Cli.thy ===== *)
theory Cli
  imports Client Offers
begin

text \<open>
  The configuration of the command line client (\<open>yawcc/src/connection.rs\<close>): its arguments, the
  headers and credentials it will send, its TLS settings, and the helpers its handshake uses.

  Arguments are ASCII strings.  An error of \<open>anyhow\<close> is its outermost message: that of an
  \<open>ensure\<close> or \<open>bail\<close>, that of a \<open>context\<close>, or the error of a library that \<open>?\<close> passed on; a
  panic is an outcome of its own.  The url, percent-encoding and http crates, rustls and the
  files with certificates are parameters.
\<close>

section \<open>Results\<close>

datatype cli_error = Ensure string | Context string | Foreign | Panicked | Hung

type_synonym 'a cres = "cli_error + 'a"

definition bind_ok :: "'e + 'a \<Rightarrow> ('a \<Rightarrow> 'e + 'b) \<Rightarrow> 'e + 'b" where
  "bind_ok r f = (case r of Err e \<Rightarrow> Err e | Ok a \<Rightarrow> f a)"

definition ensure :: "bool \<Rightarrow> string \<Rightarrow> unit cres" where
  "ensure b m = (if b then Ok () else Err (Ensure m))"

definition context_opt :: "'a option \<Rightarrow> string \<Rightarrow> 'a cres" where
  "context_opt x m = (case x of None \<Rightarrow> Err (Context m) | Some a \<Rightarrow> Ok a)"

definition context_res :: "'e + 'a \<Rightarrow> string \<Rightarrow> 'a cres" where
  "context_res x m = (case x of Err _ \<Rightarrow> Err (Context m) | Ok a \<Rightarrow> Ok a)"

definition foreign :: "'e + 'a \<Rightarrow> 'a cres" where
  "foreign x = (case x of Err _ \<Rightarrow> Err Foreign | Ok a \<Rightarrow> Ok a)"

definition foreign_opt :: "'a option \<Rightarrow> 'a cres" where
  "foreign_opt x = (case x of None \<Rightarrow> Err Foreign | Some a \<Rightarrow> Ok a)"

lemma bind_ok_ok [ok_iff]: "bind_ok r f = Ok b \<longleftrightarrow> (\<exists>a. r = Ok a \<and> f a = Ok b)"
  by (auto simp: bind_ok_def split: sum.splits)

lemma ensure_ok [ok_iff]: "ensure b m = Ok u \<longleftrightarrow> b"
  by (simp add: ensure_def)

lemma context_ok [ok_iff]: "context_opt x m = Ok a \<longleftrightarrow> x = Some a" "context_res y m = Ok b \<longleftrightarrow> y = Ok b"
  "foreign y = Ok b \<longleftrightarrow> y = Ok b" "foreign_opt x = Ok a \<longleftrightarrow> x = Some a"
  by (auto simp: context_opt_def context_res_def foreign_def foreign_opt_def split: option.splits sum.splits)

section \<open>Strings\<close>

definition ascii_space :: "char \<Rightarrow> bool" where
  "ascii_space c \<longleftrightarrow> (let n = of_char c :: nat in n = 32 \<or> 9 \<le> n \<and> n \<le> 13)"

definition trim_start :: "string \<Rightarrow> string" where
  "trim_start s = dropWhile ascii_space s"

definition trim :: "string \<Rightarrow> string" where
  "trim s = rev (dropWhile ascii_space (rev (trim_start s)))"

fun split_on :: "char \<Rightarrow> string \<Rightarrow> string list" where
  "split_on d [] = [[]]"
| "split_on d (c # s) =
    (if c = d then [] # split_on d s
     else case split_on d s of [] \<Rightarrow> [[c]] | t # ts \<Rightarrow> (c # t) # ts)"

definition split_once :: "char \<Rightarrow> string \<Rightarrow> (string \<times> string) option" where
  "split_once d s =
    (if d \<in> set s then Some (takeWhile (\<lambda>c. c \<noteq> d) s, drop 1 (dropWhile (\<lambda>c. c \<noteq> d) s)) else None)"

definition starts_with :: "string \<Rightarrow> string \<Rightarrow> bool" where
  "starts_with p s \<longleftrightarrow> take (length p) s = p"

definition has_token :: "'h http_lib \<Rightarrow> 'h \<Rightarrow> string \<Rightarrow> string \<Rightarrow> bool" where
  "has_token lib headers name tok =
    list_ex (\<lambda>h. eq_ignore_ascii_case (trim h) tok)
      (concat (map (split_on (CHR '','')) (List.map_filter id (lib_strs lib name headers))))"

definition is_token :: "byte \<Rightarrow> bool" where
  "is_token b \<longleftrightarrow> is_tchar (char_of (unat b))"

section \<open>URLs\<close>

definition validate_url :: "url \<Rightarrow> unit cres" where
  "validate_url u =
    bind_ok (ensure (u_scheme u = ''ws'' \<or> u_scheme u = ''wss'') ''URL must use ws:// or wss://'') (\<lambda>_.
    bind_ok (ensure (u_host u \<noteq> None) ''URL must have a host'') (\<lambda>_.
    ensure (u_fragment u = None) ''WebSocket URL must not contain a fragment''))"

text \<open>\<open>ip_text\<close> is \<open>Display\<close> of an address, without the brackets of a URL.\<close>

definition host_name :: "(ip_addr \<Rightarrow> string) \<Rightarrow> url \<Rightarrow> string cres" where
  "host_name ip_text u =
    bind_ok (context_opt (u_host u) ''URL has no host'') (\<lambda>h.
      Ok (case h of Host_Domain d \<Rightarrow> d | Host_Ipv4 ip \<Rightarrow> ip_text (IpV4 ip) | Host_Ipv6 ip \<Rightarrow> ip_text (IpV6 ip)))"

definition cli_authority :: "'h http_lib \<Rightarrow> url \<Rightarrow> bool \<Rightarrow> string cres" where
  "cli_authority lib u explicit_port =
    (case u_host u of
       None \<Rightarrow> Err Panicked
     | Some h \<Rightarrow>
         if explicit_port \<or> u_port u \<noteq> None
         then (case u_known_port u of None \<Rightarrow> Err Panicked | Some p \<Rightarrow> Ok (lib_host lib h @ '':'' @ dec (unat p)))
         else Ok (lib_host lib h))"

definition origin :: "url \<Rightarrow> string \<times> host option \<times> u16 option" where
  "origin u = (u_scheme u, u_host u, u_known_port u)"

definition cli_decode :: "(string \<Rightarrow> bytes) \<Rightarrow> string \<Rightarrow> bytes cres" where
  "cli_decode percent_decode v = context_opt (from_utf8 (percent_decode v)) ''credentials are not UTF-8''"

section \<open>The extensions of an answer\<close>

definition split_param :: "string \<Rightarrow> string \<times> string option" where
  "split_param part = (case split_once (CHR ''='') part of None \<Rightarrow> (part, None) | Some (k, v) \<Rightarrow> (trim k, Some (trim v)))"

definition unquoted :: "string \<Rightarrow> string" where
  "unquoted v =
    (case v of
       c # w \<Rightarrow> if c = CHR 0x22 \<and> w \<noteq> [] \<and> last w = CHR 0x22 then butlast w else v
     | [] \<Rightarrow> v)"

definition normalize_param :: "string \<Rightarrow> string option \<Rightarrow> string cres" where
  "normalize_param name v =
    (if name = ''client_no_context_takeover'' \<or> name = ''server_no_context_takeover'' then
       bind_ok (ensure (v = None) (''invalid compression parameter: '' @ name)) (\<lambda>_. Ok (''; '' @ name))
     else if name = ''server_max_window_bits'' then
       bind_ok (context_opt v ''server_max_window_bits requires a value'') (\<lambda>v.
       bind_ok (context_opt (parse_u8 (unquoted v)) ''invalid compression window'') (\<lambda>bits.
       bind_ok (ensure (8 \<le> bits \<and> bits \<le> 15) ''invalid compression window'') (\<lambda>_.
         Ok (''; '' @ name @ ''='' @ dec bits))))
     else Err (Ensure (''server returned an unoffered compression parameter: '' @ name)))"

fun normalize_params :: "string list \<Rightarrow> string list \<Rightarrow> string \<Rightarrow> string cres" where
  "normalize_params seen [] normalized = Ok normalized"
| "normalize_params seen (part # parts) normalized =
    (case split_param part of (name, v) \<Rightarrow>
       bind_ok (ensure (name \<notin> set seen) (''duplicate compression parameter: '' @ name)) (\<lambda>_.
       bind_ok (normalize_param name v) (\<lambda>s. normalize_params (name # seen) parts (normalized @ s))))"

definition cli_parse_extensions :: "string list \<Rightarrow> string option cres" where
  "cli_parse_extensions vals =
    (if vals = [] then Ok None
     else
       bind_ok (ensure (length vals = 1) ''server returned multiple extensions'') (\<lambda>_.
       let parts = map trim (split_on (CHR '';'') (hd vals)) in
       bind_ok (ensure (parts \<noteq> [] \<and> hd parts = ''permessage-deflate'') ''server returned an unoffered extension'') (\<lambda>_.
       bind_ok (normalize_params [] (tl parts) ''permessage-deflate'') (\<lambda>s. Ok (Some s)))))"

section \<open>Configuration\<close>

text \<open>The duration of the timeout is in nanoseconds; a path is a string.\<close>

record cli_args =
  ca_url :: url
  ca_timeout :: nat
  ca_headers :: "string list"
  ca_tcp_host :: "string option"
  ca_proxy :: "url option"
  ca_subprotocols :: "string list"
  ca_origin :: "string option"
  ca_auth :: "string option"
  ca_host :: "string option"
  ca_ca :: "string option"
  ca_cert :: "string option"
  ca_key :: "string option"
  ca_no_check :: bool
  ca_location :: bool
  ca_max_redirects :: nat

record ('h, 't) cli_config =
  cf_args :: cli_args
  cf_headers :: 'h
  cf_tls :: 't
  cf_proxy_tls :: 't

text \<open>
  What the client uses of the libraries: whether a deadline can be represented,
  \<open>HeaderName::from_bytes\<close> (which also lowers the case), \<open>percent_decode_str\<close>, \<open>Host::parse\<close>,
  \<open>Url::join\<close>, \<open>Display\<close> of addresses and status codes; resolving and connecting to a text
  \<open>host:port\<close>, \<open>set_nodelay\<close>, boxing a stream, and the random bytes of a key.
\<close>

record ('w, 's, 'io, 'up) cli_env =
  ce_instant_ok :: "nat \<Rightarrow> bool"
  ce_header_name :: "string \<Rightarrow> string option"
  ce_percent_decode :: "string \<Rightarrow> bytes"
  ce_parse_host :: "string \<Rightarrow> string + host"
  ce_join :: "url \<Rightarrow> string \<Rightarrow> url option"
  ce_ip_text :: "ip_addr \<Rightarrow> string"
  ce_addr_text :: "socket_addr \<Rightarrow> string"
  ce_status_text :: "u16 \<Rightarrow> string"
  ce_lookup :: "string \<Rightarrow> 'w \<Rightarrow> (io_error + socket_addr list) \<times> 'w"
  ce_connect :: "string \<Rightarrow> 'w \<Rightarrow> (io_error + 's) \<times> 'w"
  ce_nodelay :: "'s \<Rightarrow> 'w \<Rightarrow> (io_error + unit) \<times> 'w"
  ce_boxed :: "'s \<Rightarrow> 'io"
  ce_upgraded :: "'up \<Rightarrow> 'io"
  ce_random :: "'w \<Rightarrow> bytes \<times> 'w"

definition AUTHORIZATION :: string where "AUTHORIZATION = ''authorization''"
definition PROXY_AUTHORIZATION :: string where "PROXY_AUTHORIZATION = ''proxy-authorization''"
definition ORIGIN :: string where "ORIGIN = ''origin''"

definition check_proxy :: "url \<Rightarrow> unit cres" where
  "check_proxy p =
    bind_ok (ensure (u_scheme p \<in> {''http'', ''https'', ''socks5'', ''socks5h''}) ''unsupported proxy scheme'') (\<lambda>_.
    bind_ok (ensure (u_host p \<noteq> None) ''proxy must have a host'') (\<lambda>_.
    bind_ok (ensure (u_path p = [] \<or> u_path p = ''/'') ''proxy URL must not contain a path'') (\<lambda>_.
    ensure (u_query p = None \<and> u_fragment p = None) ''proxy URL must not contain a query or fragment'')))"

definition managed :: "string \<Rightarrow> bool" where
  "managed key \<longleftrightarrow> starts_with ''sec-websocket-'' key \<or> key = CONNECTION \<or> key = UPGRADE \<or> key = PROXY_AUTHORIZATION"

definition add_header :: "'h http_lib \<Rightarrow> (string \<Rightarrow> string option) \<Rightarrow> string \<Rightarrow> 'h \<Rightarrow> 'h cres" where
  "add_header lib header_name raw headers =
    bind_ok (context_opt (split_once (CHR '':'') raw) ''header must have Key: Value format'') (\<lambda>(key, v).
    bind_ok (context_opt (header_name (trim key)) ''invalid header name'') (\<lambda>key.
    bind_ok (ensure (\<not> managed key) (''header '' @ key @ '' is managed by yawcc; use its dedicated options'')) (\<lambda>_.
    bind_ok (context_opt (if lib_value_ok lib (str_bytes (trim_start v)) then Some () else None) ''invalid header value'') (\<lambda>_.
      Ok (lib_append lib key (str_bytes (trim_start v)) headers)))))"

fun add_headers :: "'h http_lib \<Rightarrow> (string \<Rightarrow> string option) \<Rightarrow> string list \<Rightarrow> 'h \<Rightarrow> 'h cres" where
  "add_headers lib header_name [] headers = Ok headers"
| "add_headers lib header_name (raw # raws) headers =
    bind_ok (add_header lib header_name raw headers) (add_headers lib header_name raws)"

definition insert_opt :: "'h http_lib \<Rightarrow> string \<Rightarrow> string option \<Rightarrow> 'h \<Rightarrow> 'h cres" where
  "insert_opt lib key v headers =
    (case v of
       None \<Rightarrow> Ok headers
     | Some v \<Rightarrow>
         bind_ok (context_opt (if lib_value_ok lib (str_bytes v) then Some () else None) ''invalid origin or host'') (\<lambda>_.
           Ok (lib_insert lib key (str_bytes v) headers)))"

definition insert_basic :: "'h http_lib \<Rightarrow> bytes \<Rightarrow> 'h \<Rightarrow> 'h cres" where
  "insert_basic lib auth headers =
    (let v = str_bytes (''Basic '' @ lib_base64 lib auth) in
     if lib_value_ok lib v then Ok (lib_insert lib AUTHORIZATION v headers) else Err Foreign)"

definition has_credentials :: "url \<Rightarrow> bool" where
  "has_credentials u \<longleftrightarrow> u_username u \<noteq> [] \<or> u_password u \<noteq> None"

definition credentials :: "(string \<Rightarrow> bytes) \<Rightarrow> url \<Rightarrow> bytes cres" where
  "credentials percent_decode u =
    bind_ok (cli_decode percent_decode (u_username u)) (\<lambda>user.
    bind_ok (cli_decode percent_decode (unwrap_or (u_password u) [])) (\<lambda>pass.
      Ok (user @ str_bytes '':'' @ pass)))"

definition add_auth :: "'h http_lib \<Rightarrow> (string \<Rightarrow> bytes) \<Rightarrow> cli_args \<Rightarrow> 'h \<Rightarrow> (cli_args \<times> 'h) cres" where
  "add_auth lib percent_decode args headers =
    bind_ok (case ca_auth args of
        None \<Rightarrow> Ok headers
      | Some auth \<Rightarrow>
          bind_ok (ensure (CHR '':'' \<in> set auth) ''--auth must have username:password format'') (\<lambda>_.
            insert_basic lib (str_bytes auth) headers)) (\<lambda>headers.
    if \<not> has_credentials (ca_url args) then Ok (args, headers)
    else
      bind_ok (ensure (ca_auth args = None \<and> lib_get lib AUTHORIZATION headers = None)
        ''specify authentication either in the URL or headers/--auth'') (\<lambda>_.
      bind_ok (credentials percent_decode (ca_url args)) (\<lambda>auth.
      bind_ok (insert_basic lib auth headers) (\<lambda>headers.
        Ok (args\<lparr>ca_url := (ca_url args)\<lparr>u_username := [], u_password := None\<rparr>\<rparr>, headers)))))"

fun check_subprotocols :: "string list \<Rightarrow> string list \<Rightarrow> unit cres" where
  "check_subprotocols earlier [] = Ok ()"
| "check_subprotocols earlier (p # ps) =
    bind_ok (ensure (p \<noteq> [] \<and> list_all is_token (str_bytes p)) ''invalid WebSocket subprotocol'') (\<lambda>_.
    bind_ok (ensure (p \<notin> set earlier) ''duplicate WebSocket subprotocol'') (\<lambda>_.
      check_subprotocols (earlier @ [p]) ps))"

text \<open>
  The TLS settings.  \<open>cert_files\<close> has what the client uses of the file system, \<open>rustls_pemfile\<close>
  and rustls: the contents of a file, its certificates, its private key if it has one, the
  roots built in, and which roots, protocol versions and identities rustls accepts.
\<close>

record ('c, 'k) cert_files =
  fl_open :: "string \<Rightarrow> bytes option"
  fl_certs :: "bytes \<Rightarrow> 'c list option"
  fl_key :: "bytes \<Rightarrow> 'k option option"
  fl_roots :: "'c list"
  fl_root_ok :: "'c \<Rightarrow> bool"
  fl_versions_ok :: bool
  fl_identity_ok :: "'c list \<Rightarrow> 'k \<Rightarrow> bool"

record ('c, 'k) tls_config =
  tc_roots :: "'c list"
  tc_identity :: "('c list \<times> 'k) option"
  tc_verify :: bool
  tc_alpn :: "string list"

definition certificates :: "('c, 'k) cert_files \<Rightarrow> string \<Rightarrow> 'c list cres" where
  "certificates fl path =
    bind_ok (context_opt (fl_open fl path) (''open '' @ path)) (\<lambda>file.
    bind_ok (foreign_opt (fl_certs fl file)) (\<lambda>certs.
    bind_ok (ensure (certs \<noteq> []) (path @ '' contains no PEM certificates'')) (\<lambda>_. Ok certs)))"

definition root_certificates :: "('c, 'k) cert_files \<Rightarrow> cli_args \<Rightarrow> 'c list cres" where
  "root_certificates fl args =
    (case ca_ca args of
       None \<Rightarrow> Ok (fl_roots fl)
     | Some path \<Rightarrow>
         bind_ok (certificates fl path) (\<lambda>certs.
           if list_all (fl_root_ok fl) certs then Ok (fl_roots fl @ certs) else Err Foreign))"

definition client_auth :: "('c, 'k) cert_files \<Rightarrow> cli_args \<Rightarrow> bool \<Rightarrow> ('c list \<times> 'k) option cres" where
  "client_auth fl args client_identity =
    (if \<not> client_identity then Ok None
     else case (ca_cert args, ca_key args) of
       (Some cert, Some key) \<Rightarrow>
         bind_ok (foreign_opt (fl_open fl key)) (\<lambda>file.
         bind_ok (foreign_opt (fl_key fl file)) (\<lambda>key.
         bind_ok (context_opt key ''no unencrypted PEM private key found'') (\<lambda>key.
         bind_ok (certificates fl cert) (\<lambda>chain.
           if fl_identity_ok fl chain key then Ok (Some (chain, key)) else Err Foreign))))
     | _ \<Rightarrow> Ok None)"

definition tls_connector :: "('c, 'k) cert_files \<Rightarrow> cli_args \<Rightarrow> bool \<Rightarrow> ('c, 'k) tls_config cres" where
  "tls_connector fl args client_identity =
    bind_ok (root_certificates fl args) (\<lambda>roots.
    if \<not> fl_versions_ok fl then Err Foreign
    else
      bind_ok (client_auth fl args client_identity) (\<lambda>ident.
        Ok \<lparr>tc_roots = roots, tc_identity = ident, tc_verify = (\<not> ca_no_check args), tc_alpn = [''http/1.1'']\<rparr>))"

definition config_new :: "'h http_lib \<Rightarrow> ('w, 's, 'io, 'up) cli_env \<Rightarrow> ('c, 'k) cert_files \<Rightarrow>
    cli_args \<Rightarrow> ('h, ('c, 'k) tls_config) cli_config cres" where
  "config_new lib env fl args =
    bind_ok (validate_url (ca_url args)) (\<lambda>_.
    bind_ok (ensure (ce_instant_ok env (ca_timeout args)) ''timeout is too large'') (\<lambda>_.
    bind_ok (case ca_proxy args of None \<Rightarrow> Ok () | Some p \<Rightarrow> check_proxy p) (\<lambda>_.
    bind_ok (add_headers lib (ce_header_name env) (ca_headers args) (lib_empty lib)) (\<lambda>headers.
    bind_ok (insert_opt lib ORIGIN (ca_origin args) headers) (\<lambda>headers.
    bind_ok (insert_opt lib HOST (ca_host args) headers) (\<lambda>headers.
    bind_ok (add_auth lib (ce_percent_decode env) args headers) (\<lambda>(args, headers).
    bind_ok (check_subprotocols [] (ca_subprotocols args)) (\<lambda>_.
    bind_ok (tls_connector fl args True) (\<lambda>tls.
    bind_ok (tls_connector fl args False) (\<lambda>proxy_tls.
      Ok \<lparr>cf_args = args, cf_headers = headers, cf_tls = tls, cf_proxy_tls = proxy_tls\<rparr>))))))))))"

end
