(* ===== verification/Cli_Connection.thy ===== *)
theory Cli_Connection
  imports Cli
begin

text \<open>
  Connecting from the command line (\<open>yawcc/src/connection.rs\<close>): dialling directly, through a
  SOCKS5 proxy or through the \<open>CONNECT\<close> of an HTTP proxy, the opening handshake, and the loop
  that follows redirects.  What the client prints is not modelled.
\<close>

section \<open>Calls on the world\<close>

definition pure_c :: "'a cres \<Rightarrow> 'w \<Rightarrow> 'a cres \<times> 'w" where
  "pure_c r w = (r, w)"

definition with_context :: "('w \<Rightarrow> ('e + 'a) \<times> 'w) \<Rightarrow> string \<Rightarrow> 'w \<Rightarrow> 'a cres \<times> 'w" where
  "with_context m msg w = (case m w of (r, w) \<Rightarrow> (context_res r msg, w))"

definition passed_on :: "('w \<Rightarrow> ('e + 'a) \<times> 'w) \<Rightarrow> 'w \<Rightarrow> 'a cres \<times> 'w" where
  "passed_on m w = (case m w of (r, w) \<Rightarrow> (foreign r, w))"

definition exec_context :: "('w \<Rightarrow> ('a res \<times> 'w) exec) \<Rightarrow> string \<Rightarrow> 'w \<Rightarrow> 'a cres \<times> 'w" where
  "exec_context m msg w =
    (case m w of
       Panic \<Rightarrow> (Err Panicked, w)
     | Diverges \<Rightarrow> (Err Hung, w)
     | Finished (r, w) \<Rightarrow> (context_res r msg, w))"

lemma pure_c_ok [ok_iff]: "pure_c r w = (Ok a, w') \<longleftrightarrow> r = Ok a \<and> w' = w"
  by (auto simp: pure_c_def)

section \<open>Dialling\<close>

definition first_address :: "('w, 's, 'io, 'up) cli_env \<Rightarrow> string \<Rightarrow> 'w \<Rightarrow> socket_addr cres \<times> 'w" where
  "first_address env address =
    andthen (passed_on (ce_lookup env address)) (\<lambda>addrs.
      pure_c (context_opt (case addrs of [] \<Rightarrow> None | a # _ \<Rightarrow> Some a) ''TCP host resolved to no addresses''))"

definition boxed_tcp :: "('w, 's, 'io, 'up) cli_env \<Rightarrow> 's \<Rightarrow> 'w \<Rightarrow> 'io cres \<times> 'w" where
  "boxed_tcp env tcp = andthen (passed_on (ce_nodelay env tcp)) (\<lambda>_. pure_c (Ok (ce_boxed env tcp)))"

definition dial_direct :: "('w, 's, 'io, 'up) cli_env \<Rightarrow> ('w, 'k, 's) network \<Rightarrow> string \<Rightarrow> u16 \<Rightarrow> string option \<Rightarrow>
    'w \<Rightarrow> 'io cres \<times> 'w" where
  "dial_direct env nw host port override =
    andthen (with_context
      (case override of Some address \<Rightarrow> ce_connect env address | None \<Rightarrow> nw_connect nw (To_Name host port))
      ''TCP connection failed'') (boxed_tcp env)"

definition dial_socks :: "('w, 's, 'io, 'up) cli_env \<Rightarrow> ('w, 'k, 's) network \<Rightarrow> 's io_stream \<Rightarrow> url \<Rightarrow> url \<Rightarrow> string option \<Rightarrow>
    'w \<Rightarrow> 'io cres \<times> 'w" where
  "dial_socks env nw st proxy u override =
    andthen
      (case override of
         Some address \<Rightarrow> andthen (first_address env address) (\<lambda>a. pure_c (Ok (Some a)))
       | None \<Rightarrow> pure_c (Ok None)) (\<lambda>address.
    andthen (pure_c (foreign (socks5 (ce_parse_host env) (ce_percent_decode env) proxy))) (\<lambda>px.
    andthen (exec_context (proxy_connect nw st px u address) ''SOCKS5 tunnel failed'') (boxed_tcp env)))"

definition start_client_tls :: "('w, 't, 'n, 'io, 'io) tls_lib \<Rightarrow> 't \<Rightarrow> string \<Rightarrow> 'io \<Rightarrow> string \<Rightarrow> 'w \<Rightarrow> 'io cres \<times> 'w" where
  "start_client_tls rustls connector name chan msg =
    andthen (pure_c (foreign_opt (tl_server_name rustls name))) (\<lambda>server.
      with_context (tl_connect rustls connector server chan) msg)"

definition connect_tunnel_request :: "'h http_lib \<Rightarrow> ('w, 's, 'io, 'up) cli_env \<Rightarrow> url \<Rightarrow> string \<Rightarrow>
    ('h, 'u) request_builder cres" where
  "connect_tunnel_request lib env proxy destination =
    (let request = with_header lib HOST (str_bytes destination)
           (with_uri lib destination (with_method ''CONNECT'' (request_builder lib)))
     in if has_credentials proxy
        then bind_ok (credentials (ce_percent_decode env) proxy) (\<lambda>auth.
          Ok (with_header lib PROXY_AUTHORIZATION (str_bytes (''Basic '' @ lib_base64 lib auth)) request))
        else Ok request)"

definition is_success :: "u16 \<Rightarrow> bool" where
  "is_success status \<longleftrightarrow> 200 \<le> status \<and> status < 300"

definition proxy_destination :: "'h http_lib \<Rightarrow> ('w, 's, 'io, 'up) cli_env \<Rightarrow> url \<Rightarrow> string option \<Rightarrow> 'w \<Rightarrow> string cres \<times> 'w" where
  "proxy_destination lib env u override =
    (case override of
       Some address \<Rightarrow> andthen (first_address env address) (\<lambda>a. pure_c (Ok (ce_addr_text env a)))
     | None \<Rightarrow> pure_c (cli_authority lib u True))"

definition open_tunnel :: "'h http_lib \<Rightarrow> ('io, 'h, 'u, 'c, 'up) hyper \<Rightarrow> ('w, 's, 'io, 'up) cli_env \<Rightarrow>
    ('h, 'u) request_builder \<Rightarrow> 'io \<Rightarrow> 'io cres" where
  "open_tunnel lib hy env request proxy_io =
    bind_ok (foreign (hy_http1 hy proxy_io)) (\<lambda>sender.
    bind_ok (foreign_opt request) (\<lambda>request.
    bind_ok (context_res (hy_send hy request sender) ''proxy CONNECT failed'') (\<lambda>(response, on_upgrade).
    bind_ok (ensure (is_success (rsp_status response))
      (''proxy CONNECT returned HTTP '' @ ce_status_text env (rsp_status response))) (\<lambda>_.
    bind_ok (foreign (hy_upgrade hy on_upgrade)) (\<lambda>upgraded. Ok (ce_upgraded env upgraded))))))"

definition dial_http :: "('w, 't, 'n, 'io, 'io) tls_lib \<Rightarrow> 'h http_lib \<Rightarrow> ('io, 'h, 'u, 'c, 'up) hyper \<Rightarrow>
    ('w, 's, 'io, 'up) cli_env \<Rightarrow> ('w, 'k, 's) network \<Rightarrow> ('h, 't) cli_config \<Rightarrow> url \<Rightarrow> url \<Rightarrow> string option \<Rightarrow>
    'w \<Rightarrow> 'io cres \<times> 'w" where
  "dial_http rustls lib hy env nw cfg proxy u override =
    andthen (pure_c (host_name (ce_ip_text env) proxy)) (\<lambda>proxy_host.
    andthen (pure_c (context_opt (u_known_port proxy) ''proxy has no port'')) (\<lambda>proxy_port.
    andthen (with_context (nw_connect nw (To_Name proxy_host proxy_port)) ''connect to proxy'') (\<lambda>tcp.
    andthen (boxed_tcp env tcp) (\<lambda>proxy_io.
    andthen (if u_scheme proxy = ''https''
      then start_client_tls rustls (cf_proxy_tls cfg) proxy_host proxy_io ''proxy TLS handshake failed''
      else pure_c (Ok proxy_io)) (\<lambda>proxy_io.
    andthen (proxy_destination lib env u override) (\<lambda>destination.
    andthen (pure_c (connect_tunnel_request lib env proxy destination)) (\<lambda>request.
      pure_c (open_tunnel lib hy env request proxy_io))))))))"

definition cli_dial :: "('w, 't, 'n, 'io, 'io) tls_lib \<Rightarrow> 'h http_lib \<Rightarrow> ('io, 'h, 'u, 'c, 'up) hyper \<Rightarrow>
    ('w, 's, 'io, 'up) cli_env \<Rightarrow> ('w, 'k, 's) network \<Rightarrow> 's io_stream \<Rightarrow> ('h, 't) cli_config \<Rightarrow> url \<Rightarrow> bool \<Rightarrow>
    'w \<Rightarrow> 'io cres \<times> 'w" where
  "cli_dial rustls lib hy env nw st cfg u use_override =
    andthen (pure_c (host_name (ce_ip_text env) u)) (\<lambda>host.
    andthen (pure_c (context_opt (u_known_port u) ''URL has no port'')) (\<lambda>port.
    let override = (if use_override then ca_tcp_host (cf_args cfg) else None) in
    andthen
      (case ca_proxy (cf_args cfg) of
         Some proxy \<Rightarrow>
           if u_scheme proxy = ''socks5'' \<or> u_scheme proxy = ''socks5h'' then dial_socks env nw st proxy u override
           else dial_http rustls lib hy env nw cfg proxy u override
       | None \<Rightarrow> dial_direct env nw host port override) (\<lambda>chan.
    if u_scheme u = ''wss'' then start_client_tls rustls (cf_tls cfg) host chan ''TLS handshake failed''
    else pure_c (Ok chan))))"

section \<open>One handshake\<close>

text \<open>What the loop carries from one hop to the following one.\<close>

record 'h hop_state =
  hs_url :: url
  hs_headers :: 'h
  hs_override :: bool

definition insert_value :: "'h http_lib \<Rightarrow> string \<Rightarrow> string \<Rightarrow> 'h \<Rightarrow> 'h cres" where
  "insert_value lib name v headers =
    (if lib_value_ok lib (str_bytes v) then Ok (lib_insert lib name (str_bytes v) headers) else Err Foreign)"

fun join_with :: "string \<Rightarrow> string list \<Rightarrow> string" where
  "join_with sep [] = []"
| "join_with sep [s] = s"
| "join_with sep (s # ss) = s @ sep @ join_with sep ss"

definition hop_headers :: "'h http_lib \<Rightarrow> cli_args \<Rightarrow> 'h hop_state \<Rightarrow> string \<Rightarrow> 'h cres" where
  "hop_headers lib args hs key =
    bind_ok
      (if lib_get lib HOST (hs_headers hs) = None
       then bind_ok (cli_authority lib (hs_url hs) False) (\<lambda>a. insert_value lib HOST a (hs_headers hs))
       else Ok (hs_headers hs)) (\<lambda>h.
    let h = lib_insert lib CONNECTION (str_bytes ''Upgrade'') h;
        h = lib_insert lib UPGRADE (str_bytes ''websocket'') h;
        h = lib_insert lib SEC_WEBSOCKET_VERSION (str_bytes ''13'') h
    in bind_ok (insert_value lib SEC_WEBSOCKET_KEY key h) (\<lambda>h.
       let h = lib_insert lib SEC_WEBSOCKET_EXTENSIONS (str_bytes ''permessage-deflate'') h in
       if ca_subprotocols args = [] then Ok h
       else insert_value lib SEC_WEBSOCKET_PROTOCOL (join_with '', '' (ca_subprotocols args)) h))"

definition hop_request :: "'h http_lib \<Rightarrow> cli_args \<Rightarrow> 'h hop_state \<Rightarrow> string \<Rightarrow> ('h, 'u) http_request cres" where
  "hop_request lib args hs key =
    bind_ok (context_opt (with_uri lib (u_path_query (hs_url hs)) (with_method ''GET'' (request_builder lib)))
      ''invalid request'') (\<lambda>request.
    bind_ok (hop_headers lib args hs key) (\<lambda>h. Ok (request\<lparr>req_headers := h\<rparr>)))"

definition is_redirect :: "u16 \<Rightarrow> bool" where
  "is_redirect status \<longleftrightarrow> status \<in> {301, 302, 303, 307, 308}"

definition ws_scheme :: "url \<Rightarrow> url" where
  "ws_scheme u =
    (if u_scheme u = ''http'' then u\<lparr>u_scheme := ''ws''\<rparr>
     else if u_scheme u = ''https'' then u\<lparr>u_scheme := ''wss''\<rparr>
     else u)"

definition redirect_to :: "'h http_lib \<Rightarrow> cli_args \<Rightarrow> 'h hop_state \<Rightarrow> url \<Rightarrow> 'h hop_state cres" where
  "redirect_to lib args hs target =
    (if origin (hs_url hs) \<noteq> origin target
     then bind_ok (ensure (ca_cert args = None) ''refusing cross-origin redirect with a client certificate'') (\<lambda>_.
       Ok \<lparr>hs_url = target, hs_headers = lib_empty lib, hs_override = False\<rparr>)
     else Ok (hs\<lparr>hs_url := target\<rparr>))"

definition follow :: "'h http_lib \<Rightarrow> ('w, 's, 'io, 'up) cli_env \<Rightarrow> cli_args \<Rightarrow> nat \<Rightarrow> 'h hop_state \<Rightarrow> 'h http_response \<Rightarrow>
    'h hop_state cres" where
  "follow lib env args k hs response =
    bind_ok (ensure (k < ca_max_redirects args) ''maximum redirects exceeded'') (\<lambda>_.
    bind_ok (context_opt (lib_get lib LOCATION (rsp_headers response)) ''redirect has no Location header'') (\<lambda>location.
    bind_ok (foreign_opt (lib_to_str lib location)) (\<lambda>location.
    bind_ok (context_opt (ce_join env (hs_url hs) location) ''invalid redirect URL'') (\<lambda>target.
    let target = ws_scheme target in
    bind_ok (validate_url target) (\<lambda>_.
    bind_ok (ensure (u_username target = [] \<and> u_password target = None) ''redirect URL must not contain credentials'') (\<lambda>_.
    bind_ok (ensure (u_scheme (hs_url hs) \<noteq> ''wss'' \<or> u_scheme target = ''wss'') ''refusing redirect from WSS to WS'') (\<lambda>_.
    redirect_to lib args hs target)))))))"

definition check_subprotocol :: "'h http_lib \<Rightarrow> cli_args \<Rightarrow> 'h \<Rightarrow> unit cres" where
  "check_subprotocol lib args h =
    (let protocols = lib_all lib SEC_WEBSOCKET_PROTOCOL h in
     bind_ok (ensure (length protocols \<le> 1) ''server returned multiple subprotocols'') (\<lambda>_.
     case protocols of
       v # _ \<Rightarrow>
         bind_ok (foreign_opt (lib_to_str lib v)) (\<lambda>selected.
           ensure (selected \<in> set (ca_subprotocols args)) ''server selected an unoffered subprotocol'')
     | [] \<Rightarrow> ensure (ca_subprotocols args = []) ''server did not select an offered subprotocol''))"

fun all_strs :: "string option list \<Rightarrow> string list cres" where
  "all_strs [] = Ok []"
| "all_strs (v # vs) = bind_ok (foreign_opt v) (\<lambda>s. bind_ok (all_strs vs) (\<lambda>ss. Ok (s # ss)))"

definition check_answer :: "'h http_lib \<Rightarrow> ('w, 's, 'io, 'up) cli_env \<Rightarrow> cli_args \<Rightarrow> string \<Rightarrow> 'h http_response \<Rightarrow>
    string option cres" where
  "check_answer lib env args key response =
    (let h = rsp_headers response; expected = sec_websocket_protocol lib (str_bytes key) in
     bind_ok (ensure (rsp_status response = SWITCHING_PROTOCOLS)
       (''WebSocket handshake returned HTTP '' @ ce_status_text env (rsp_status response))) (\<lambda>_.
     bind_ok (ensure (has_token lib h CONNECTION ''upgrade'' \<and> has_token lib h UPGRADE ''websocket'')
       ''invalid WebSocket upgrade response'') (\<lambda>_.
     bind_ok (ensure (length (lib_all lib SEC_WEBSOCKET_ACCEPT h) = 1 \<and>
         lib_get lib SEC_WEBSOCKET_ACCEPT h = Some (str_bytes expected))
       ''invalid Sec-WebSocket-Accept response'') (\<lambda>_.
     bind_ok (check_subprotocol lib args h) (\<lambda>_.
     bind_ok (all_strs (lib_strs lib SEC_WEBSOCKET_EXTENSIONS h)) cli_parse_extensions)))))"

definition cli_options :: options where
  "cli_options = with_balanced_compression (with_utf8 options_default)"

definition open_socket :: "('up, 'p, 'z, 'y) platform \<Rightarrow> 'up \<Rightarrow> string option \<Rightarrow> ('p, 'z, 'y) crate_socket cres" where
  "open_socket pf upgraded exts =
    (case from_stream_with_extensions (pf_checks pf) (pf_transport pf) (pf_parts pf upgraded) (pf_boundary pf)
        (pf_pools pf) Client exts cli_options of
       Panic \<Rightarrow> Err Panicked
     | Diverges \<Rightarrow> Err Hung
     | Finished r \<Rightarrow> foreign r)"

section \<open>Following redirects\<close>

datatype ('h, 'r) hop_result = Redirect_To "'h hop_state" | Connected 'r

definition fresh_key :: "'h http_lib \<Rightarrow> ('w, 's, 'io, 'up) cli_env \<Rightarrow> 'w \<Rightarrow> string cres \<times> 'w" where
  "fresh_key lib env w = (case ce_random env w of (random, w) \<Rightarrow> (Ok (generate_key lib random), w))"

definition hop :: "('w, 't, 'n, 'io, 'io) tls_lib \<Rightarrow> 'h http_lib \<Rightarrow> ('io, 'h, 'u, 'c, 'up) hyper \<Rightarrow>
    ('w, 's, 'io, 'up) cli_env \<Rightarrow> ('w, 'k, 's) network \<Rightarrow> 's io_stream \<Rightarrow> ('up, 'p, 'z, 'y) platform \<Rightarrow>
    ('h, 't) cli_config \<Rightarrow> nat \<Rightarrow> 'h hop_state \<Rightarrow> 'w \<Rightarrow> ('h, ('p, 'z, 'y) crate_socket) hop_result cres \<times> 'w" where
  "hop rustls lib hy env nw st pf cfg k hs =
    andthen (cli_dial rustls lib hy env nw st cfg (hs_url hs) (hs_override hs)) (\<lambda>chan.
    andthen (fresh_key lib env) (\<lambda>key.
    andthen (pure_c (hop_request lib (cf_args cfg) hs key)) (\<lambda>request.
    andthen (pure_c (foreign (hy_http1 hy chan))) (\<lambda>sender.
    andthen (pure_c (context_res (hy_send hy request sender) ''WebSocket handshake request failed'')) (\<lambda>(response, on_upgrade).
    if is_redirect (rsp_status response) \<and> ca_location (cf_args cfg)
    then andthen (pure_c (follow lib env (cf_args cfg) k hs response)) (\<lambda>hs. pure_c (Ok (Redirect_To hs)))
    else
      andthen (pure_c (check_answer lib env (cf_args cfg) key response)) (\<lambda>exts.
      andthen (pure_c (foreign (hy_upgrade hy on_upgrade))) (\<lambda>upgraded.
      andthen (pure_c (open_socket pf upgraded exts)) (\<lambda>ws. pure_c (Ok (Connected ws))))))))))"

text \<open>The loop over the hops, with what a hop does as an argument.\<close>

fun hop_loop :: "(nat \<Rightarrow> 'h hop_state \<Rightarrow> 'w \<Rightarrow> ('h, 'r) hop_result cres \<times> 'w) \<Rightarrow> nat list \<Rightarrow> 'h hop_state \<Rightarrow>
    'w \<Rightarrow> 'r cres \<times> 'w" where
  "hop_loop f [] hs w = (Err (Ensure ''maximum redirects exceeded''), w)"
| "hop_loop f (k # ks) hs w =
    andthen (f k hs) (\<lambda>r. case r of Redirect_To hs \<Rightarrow> hop_loop f ks hs | Connected ws \<Rightarrow> pure_c (Ok ws)) w"

definition first_hop :: "('h, 't) cli_config \<Rightarrow> 'h hop_state" where
  "first_hop cfg = \<lparr>hs_url = ca_url (cf_args cfg), hs_headers = cf_headers cfg, hs_override = True\<rparr>"

definition hop_numbers :: "('h, 't) cli_config \<Rightarrow> nat list" where
  "hop_numbers cfg = [0..<Suc (ca_max_redirects (cf_args cfg))]"

definition connect_inner :: "('w, 't, 'n, 'io, 'io) tls_lib \<Rightarrow> 'h http_lib \<Rightarrow> ('io, 'h, 'u, 'c, 'up) hyper \<Rightarrow>
    ('w, 's, 'io, 'up) cli_env \<Rightarrow> ('w, 'k, 's) network \<Rightarrow> 's io_stream \<Rightarrow> ('up, 'p, 'z, 'y) platform \<Rightarrow>
    ('h, 't) cli_config \<Rightarrow> 'w \<Rightarrow> ('p, 'z, 'y) crate_socket cres \<times> 'w" where
  "connect_inner rustls lib hy env nw st pf cfg =
    hop_loop (hop rustls lib hy env nw st pf cfg) (hop_numbers cfg) (first_hop cfg)"

text \<open>
  The deadline: \<open>timer\<close> says of a duration and a world whether it passes first, and in which
  world the abandoned attempt leaves things.
\<close>

definition cli_connect :: "(nat \<Rightarrow> 'w \<Rightarrow> 'w option) \<Rightarrow> ('w, 't, 'n, 'io, 'io) tls_lib \<Rightarrow> 'h http_lib \<Rightarrow>
    ('io, 'h, 'u, 'c, 'up) hyper \<Rightarrow> ('w, 's, 'io, 'up) cli_env \<Rightarrow> ('w, 'k, 's) network \<Rightarrow> 's io_stream \<Rightarrow>
    ('up, 'p, 'z, 'y) platform \<Rightarrow> ('h, 't) cli_config \<Rightarrow> 'w \<Rightarrow> ('p, 'z, 'y) crate_socket cres \<times> 'w" where
  "cli_connect timer rustls lib hy env nw st pf cfg w =
    (case timer (ca_timeout (cf_args cfg)) w of
       Some w \<Rightarrow> (Err (Context ''connection deadline exceeded''), w)
     | None \<Rightarrow> connect_inner rustls lib hy env nw st pf cfg w)"

section \<open>The hops of a connection\<close>

text \<open>
  The hops a loop runs, each with the state it starts in and the world it finds: whatever is
  not among them has no influence on the outcome.
\<close>

inductive visited :: "(nat \<Rightarrow> 'h hop_state \<Rightarrow> 'w \<Rightarrow> ('h, 'r) hop_result cres \<times> 'w) \<Rightarrow> nat list \<Rightarrow> 'h hop_state \<Rightarrow> 'w \<Rightarrow>
    nat \<Rightarrow> 'h hop_state \<Rightarrow> 'w \<Rightarrow> bool" for f where
  here: "visited f (k # ks) hs w k hs w"
| further: "f k hs w = (Ok (Redirect_To hs1), w1) \<Longrightarrow> visited f ks hs1 w1 j hs2 w2 \<Longrightarrow> visited f (k # ks) hs w j hs2 w2"

lemma hop_loop_visits:
  "(\<And>j hs1 w1. visited f ks hs w j hs1 w1 \<Longrightarrow> g j hs1 w1 = f j hs1 w1) \<Longrightarrow> hop_loop g ks hs w = hop_loop f ks hs w"
proof (induction ks arbitrary: hs w)
  case (Cons k ks)
  have "g k hs w = f k hs w" by (rule Cons.prems) (rule visited.here)
  moreover have "hop_loop g ks hs1 w1 = hop_loop f ks hs1 w1" if "f k hs w = (Ok (Redirect_To hs1), w1)" for hs1 w1
    by (rule Cons.IH) (rule Cons.prems, rule visited.further [where f = f, OF that])
  ultimately show ?case by (auto simp: andthen_def split: prod.splits sum.splits hop_result.splits)
qed simp

lemma visited_numbers: "visited f ks hs w j hs1 w1 \<Longrightarrow> j \<in> set ks"
  by (induction rule: visited.induct) auto

locale hop_invariant =
  fixes f :: "nat \<Rightarrow> 'h hop_state \<Rightarrow> 'w \<Rightarrow> ('h, 'r) hop_result cres \<times> 'w" and safe :: "'h hop_state \<Rightarrow> bool"
  assumes redirect: "f k hs w = (Ok (Redirect_To hs1), w1) \<Longrightarrow> safe hs \<Longrightarrow> safe hs1"
begin

lemma visited_safe: "visited f ks hs w j hs1 w1 \<Longrightarrow> safe hs \<Longrightarrow> safe hs1"
  by (induction rule: visited.induct) (auto dest: redirect)

end

text \<open>What is safe of a hop, for a client that was started with a URL and headers.\<close>

definition safe_url :: "url \<Rightarrow> url \<Rightarrow> bool" where
  "safe_url start u \<longleftrightarrow> validate_url u = Ok () \<and> \<not> has_credentials u \<and> (u_scheme start = ''wss'' \<longrightarrow> u_scheme u = ''wss'')"

definition safe_hop :: "'h http_lib \<Rightarrow> ('h, 't) cli_config \<Rightarrow> 'h hop_state \<Rightarrow> bool" where
  "safe_hop lib cfg hs \<longleftrightarrow>
    safe_url (ca_url (cf_args cfg)) (hs_url hs) \<and>
    (origin (hs_url hs) = origin (ca_url (cf_args cfg)) \<and> hs_headers hs = cf_headers cfg \<and> hs_override hs \<or>
     ca_cert (cf_args cfg) = None \<and> hs_headers hs = lib_empty lib \<and> \<not> hs_override hs)"

lemma validate_url_ok:
  "validate_url u = Ok () \<longleftrightarrow> (u_scheme u = ''ws'' \<or> u_scheme u = ''wss'') \<and> u_host u \<noteq> None \<and> u_fragment u = None"
  by (auto simp: validate_url_def ok_iff)

lemma redirect_to_ok:
  assumes "redirect_to lib args hs target = Ok hs1"
  shows "hs_url hs1 = target \<and>
    (if origin target = origin (hs_url hs) then hs_headers hs1 = hs_headers hs \<and> hs_override hs1 = hs_override hs
     else ca_cert args = None \<and> hs_headers hs1 = lib_empty lib \<and> \<not> hs_override hs1)"
proof (cases "origin target = origin (hs_url hs)")
  case True
  then show ?thesis using assms by (auto simp: redirect_to_def)
next
  case False
  then show ?thesis using assms by (auto simp: redirect_to_def ok_iff)
qed

lemma follow_ok:
  assumes "follow lib env args k hs response = Ok hs1"
  shows "k < ca_max_redirects args \<and> validate_url (hs_url hs1) = Ok () \<and> \<not> has_credentials (hs_url hs1) \<and>
    (u_scheme (hs_url hs) = ''wss'' \<longrightarrow> u_scheme (hs_url hs1) = ''wss'') \<and>
    (if origin (hs_url hs1) = origin (hs_url hs) then hs_headers hs1 = hs_headers hs \<and> hs_override hs1 = hs_override hs
     else ca_cert args = None \<and> hs_headers hs1 = lib_empty lib \<and> \<not> hs_override hs1)"
  using assms by (auto simp: follow_def Let_def ok_iff has_credentials_def simp del: if_split dest!: redirect_to_ok)

lemma hop_redirects:
  assumes "hop rustls lib hy env nw st pf cfg k hs w = (Ok (Redirect_To hs1), w1)"
  obtains response where "follow lib env (cf_args cfg) k hs response = Ok hs1" "ca_location (cf_args cfg)"
  using assms unfolding hop_def by (auto simp: ok_iff split: if_splits)

lemma follow_safe:
  assumes "follow lib env (cf_args cfg) k hs response = Ok hs1" "safe_hop lib cfg hs"
  shows "safe_hop lib cfg hs1"
  using follow_ok [OF assms(1)] assms(2)
  by (auto simp: safe_hop_def safe_url_def split: if_splits)

interpretation cli_hops: hop_invariant "hop rustls lib hy env nw st pf cfg" "safe_hop lib cfg"
  for rustls :: "('w, 't, 'n, 'io, 'io) tls_lib" and lib :: "'h http_lib" and hy :: "('io, 'h, 'u, 'c, 'up) hyper"
    and env :: "('w, 's, 'io, 'up) cli_env" and nw :: "('w, 'k, 's) network" and st :: "'s io_stream"
    and pf :: "('up, 'p, 'z, 'y) platform" and cfg :: "('h, 't) cli_config"
  by unfold_locales (auto elim!: hop_redirects dest: follow_safe)

definition visits :: "('w, 't, 'n, 'io, 'io) tls_lib \<Rightarrow> 'h http_lib \<Rightarrow> ('io, 'h, 'u, 'c, 'up) hyper \<Rightarrow>
    ('w, 's, 'io, 'up) cli_env \<Rightarrow> ('w, 'k, 's) network \<Rightarrow> 's io_stream \<Rightarrow> ('up, 'p, 'z, 'y) platform \<Rightarrow>
    ('h, 't) cli_config \<Rightarrow> 'w \<Rightarrow> nat \<Rightarrow> 'h hop_state \<Rightarrow> 'w \<Rightarrow> bool" where
  "visits rustls lib hy env nw st pf cfg w =
    visited (hop rustls lib hy env nw st pf cfg) (hop_numbers cfg) (first_hop cfg) w"

text \<open>A request carries nothing beyond the headers of its hop and those of the handshake.\<close>

definition handshake_header :: "string \<Rightarrow> bool" where
  "handshake_header n \<longleftrightarrow> n \<in> {HOST, CONNECTION, UPGRADE, SEC_WEBSOCKET_VERSION, SEC_WEBSOCKET_KEY,
     SEC_WEBSOCKET_EXTENSIONS, SEC_WEBSOCKET_PROTOCOL}"

lemma insert_value_ok [ok_iff]:
  "insert_value lib n v h = Ok h1 \<longleftrightarrow> lib_value_ok lib (str_bytes v) \<and> h1 = lib_insert lib n (str_bytes v) h"
  by (auto simp: insert_value_def)

context http_crates
begin

lemma hop_headers_others:
  assumes "hop_headers lib args hs key = Ok h" "\<not> handshake_header n"
  shows "lib_all lib n h = lib_all lib n (hs_headers hs)"
proof -
  have "n \<noteq> HOST" "n \<noteq> CONNECTION" "n \<noteq> UPGRADE" "n \<noteq> SEC_WEBSOCKET_VERSION" "n \<noteq> SEC_WEBSOCKET_KEY"
    "n \<noteq> SEC_WEBSOCKET_EXTENSIONS" "n \<noteq> SEC_WEBSOCKET_PROTOCOL"
    using assms(2) by (simp_all add: handshake_header_def)
  note all = all_insert [of n] if_not_P [OF this(1)] if_not_P [OF this(2)] if_not_P [OF this(3)] if_not_P [OF this(4)]
    if_not_P [OF this(5)] if_not_P [OF this(6)] if_not_P [OF this(7)]
  show ?thesis using assms(1) unfolding hop_headers_def Let_def
    by (auto simp only: bind_ok_ok insert_value_ok all sum.inject split: if_splits)
qed

end

lemma add_auth_ok:
  assumes "add_auth lib percent_decode args headers = Ok (args1, headers1)"
  shows "ca_cert args1 = ca_cert args \<and> origin (ca_url args1) = origin (ca_url args) \<and>
    validate_url (ca_url args1) = validate_url (ca_url args) \<and> \<not> has_credentials (ca_url args1)"
proof (cases "has_credentials (ca_url args)")
  case True
  then show ?thesis using assms by (auto simp: add_auth_def ok_iff origin_def validate_url_def has_credentials_def )
next
  case False
  then show ?thesis using assms by (auto simp: add_auth_def ok_iff)
qed

lemma config_new_ok:
  assumes "config_new lib env fl args = Ok cfg"
  shows "safe_hop lib cfg (first_hop cfg)" "ca_cert (cf_args cfg) = ca_cert args"
    "origin (ca_url (cf_args cfg)) = origin (ca_url args)"
  using assms
  by (auto simp: config_new_def ok_iff safe_hop_def safe_url_def first_hop_def dest!: add_auth_ok)

section \<open>Properties\<close>


text \<open>A client whose server redirects it to another origin, where nobody answers.\<close>

definition cli_url :: "string \<Rightarrow> url" where
  "cli_url name = \<lparr>u_scheme = ''wss'', u_host = Some (Host_Domain name), u_port = None, u_known_port = Some 443,
     u_username = [], u_password = None, u_path = ''/'', u_query = None, u_fragment = None\<rparr>"

definition cli_sample_args :: cli_args where
  "cli_sample_args =
    \<lparr>ca_url = (cli_url ''a'')\<lparr>u_username := ''u''\<rparr>, ca_timeout = 5, ca_headers = [''x-token: 7''], ca_tcp_host = Some ''h:1'',
     ca_proxy = None, ca_subprotocols = [], ca_origin = None, ca_auth = None, ca_host = None, ca_ca = None, ca_cert = None,
     ca_key = None, ca_no_check = False, ca_location = True, ca_max_redirects = 1\<rparr>"

definition cli_sample_env :: "(nat, nat, nat, unit) cli_env" where
  "cli_sample_env =
    \<lparr>ce_instant_ok = (\<lambda>_. True), ce_header_name = Some, ce_percent_decode = str_bytes, ce_parse_host = (\<lambda>d. Ok (Host_Domain d)),
     ce_join = (\<lambda>_ l. Some ((cli_url l)\<lparr>u_scheme := ''https''\<rparr>)), ce_ip_text = (\<lambda>_. []), ce_addr_text = (\<lambda>_. []), ce_status_text = (\<lambda>_. []),
     ce_lookup = (\<lambda>_ w. (Ok [], w)), ce_connect = (\<lambda>_ w. (Ok 0, Suc w)), ce_nodelay = (\<lambda>_ w. (Ok (), w)),
     ce_boxed = id, ce_upgraded = (\<lambda>_. 0), ce_random = (\<lambda>w. ([word_of_nat w], w))\<rparr>"

definition cli_sample_files :: "(unit, unit) cert_files" where
  "cli_sample_files =
    \<lparr>fl_open = (\<lambda>_. None), fl_certs = (\<lambda>_. None), fl_key = (\<lambda>_. None), fl_roots = [()], fl_root_ok = (\<lambda>_. True),
     fl_versions_ok = True, fl_identity_ok = (\<lambda>_ _. True)\<rparr>"

definition cli_sample_rustls :: "(nat, (unit, unit) tls_config, unit, nat, nat) tls_lib" where
  "cli_sample_rustls =
    \<lparr>tl_enabled = True, tl_provider = True, tl_default = (\<lambda>_. \<lparr>tc_roots = [], tc_identity = None, tc_verify = True, tc_alpn = []\<rparr>),
     tl_server_name = (\<lambda>_. Some ()), tl_connect = (\<lambda>_ _ s w. (Ok s, w))\<rparr>"

definition cli_sample_net :: "(nat, nat, nat) network" where
  "cli_sample_net = \<lparr>nw_lookup = (\<lambda>_ w. (Ok [], w)), nw_connect = (\<lambda>_ w. (Ok 0, Suc w)),
     nw_socket = (\<lambda>_ w. (Ok 0, w)), nw_bind = (\<lambda>k _ w. (Ok k, w)), nw_socket_connect = (\<lambda>_ _ w. (Ok 0, w))\<rparr>"

definition cli_sample_hyper :: "(nat, (string \<times> bytes) list, unit, unit, unit) hyper" where
  "cli_sample_hyper =
    \<lparr>hy_http1 = (\<lambda>_. Ok ()), hy_http2 = (\<lambda>_. Ok ()),
     hy_send = (\<lambda>_ _. Ok (\<lparr>rsp_status = 302, rsp_headers = [(LOCATION, str_bytes ''b'')]\<rparr>, ())),
     hy_upgrade = (\<lambda>_. Ok ()), hy_downcast = (\<lambda>_. None)\<rparr>"

definition cli_sample_config :: "((string \<times> bytes) list, (unit, unit) tls_config) cli_config" where
  "cli_sample_config =
    (let tls = \<lparr>tc_roots = [()], tc_identity = None, tc_verify = True, tc_alpn = [''http/1.1'']\<rparr> in
     \<lparr>cf_args = cli_sample_args\<lparr>ca_url := cli_url ''a''\<rparr>,
      cf_headers = [(''x-token'', str_bytes ''7''), (AUTHORIZATION, str_bytes ''Basic 11758'')],
      cf_tls = tls, cf_proxy_tls = tls\<rparr>)"

definition cli_sample_second :: "(string \<times> bytes) list hop_state" where
  "cli_sample_second = \<lparr>hs_url = cli_url ''b'', hs_headers = [], hs_override = False\<rparr>"

definition cli_sample_io :: "nat io_stream" where
  "cli_sample_io = \<lparr>st_write = (\<lambda>_ s. (Ok (), s)), st_flush = (\<lambda>s. (Ok (), s)), st_read = (\<lambda>_ s. (Ok [], s))\<rparr>"

definition cli_sample_hop :: "nat \<Rightarrow> (string \<times> bytes) list hop_state \<Rightarrow> nat \<Rightarrow>
    ((string \<times> bytes) list, (unit, unit, unit) crate_socket) hop_result cres \<times> nat" where
  "cli_sample_hop = hop cli_sample_rustls list_lib cli_sample_hyper cli_sample_env cli_sample_net cli_sample_io
    (sample_platform :: (unit, unit, unit, unit) platform) cli_sample_config"

lemma cli_sample_runs:
  "config_new list_lib cli_sample_env cli_sample_files cli_sample_args = Ok cli_sample_config"
  "case cli_sample_hop 0 (first_hop cli_sample_config) 0 of (Ok (Redirect_To hs), w) \<Rightarrow> hs = cli_sample_second \<and> w = 1 | _ \<Rightarrow> False"
  "origin (hs_url cli_sample_second) \<noteq> origin (ca_url cli_sample_args)"
  "hop_numbers cli_sample_config = [0, 1]"
  by code_simp+


end
