(* ===== verification/Cli_Session.thy ===== *)
theory Cli_Session
  imports Cli_Connection
begin

text \<open>
  The session of the command line client (\<open>yawcc/src/session.rs\<close>, \<open>yawcc/src/terminal.rs\<close>):
  turning a line into a frame, showing a frame, and the loop that reacts to input, frames,
  signals and deadlines until the connection is closed.

  A line is a Rust string, the list of its Unicode scalar values; its length in the code is
  the one of its UTF-8 encoding.  The terminal, the clock, JSON, base64 and the connection are
  parameters.
\<close>

section \<open>Strings\<close>

type_synonym utext = "nat list"

definition scalar :: "nat \<Rightarrow> bool" where
  "scalar c \<longleftrightarrow> c < 0xD800 \<or> 0xE000 \<le> c \<and> c \<le> 0x10FFFF"

definition encode_char :: "nat \<Rightarrow> bytes" where
  "encode_char c =
    (if c < 0x80 then [word_of_nat c]
     else if c < 0x800 then [word_of_nat (0xC0 + c div 64), word_of_nat (0x80 + c mod 64)]
     else if c < 0x10000 then [word_of_nat (0xE0 + c div 4096), word_of_nat (0x80 + c div 64 mod 64), word_of_nat (0x80 + c mod 64)]
     else [word_of_nat (0xF0 + c div 262144), word_of_nat (0x80 + c div 4096 mod 64), word_of_nat (0x80 + c div 64 mod 64),
       word_of_nat (0x80 + c mod 64)])"

definition utf8 :: "utext \<Rightarrow> bytes" where
  "utf8 s = concat (map encode_char s)"

definition codes :: "string \<Rightarrow> utext" where
  "codes s = map of_char s"

text \<open>\<open>char::is_whitespace\<close>: the characters with the Unicode property \<open>White_Space\<close>.\<close>

definition white_space :: "nat \<Rightarrow> bool" where
  "white_space c \<longleftrightarrow> 0x09 \<le> c \<and> c \<le> 0x0D \<or> 0x2000 \<le> c \<and> c \<le> 0x200A \<or>
     c \<in> {0x20, 0x85, 0xA0, 0x1680, 0x2028, 0x2029, 0x202F, 0x205F, 0x3000}"

definition text_trim_start :: "utext \<Rightarrow> utext" where
  "text_trim_start s = dropWhile white_space s"

definition text_trim_end :: "utext \<Rightarrow> utext" where
  "text_trim_end s = rev (dropWhile white_space (rev s))"

definition text_trim :: "utext \<Rightarrow> utext" where
  "text_trim s = text_trim_end (text_trim_start s)"

text \<open>\<open>split_once\<close> with a predicate, and its result when nothing matches: all of it and nothing.\<close>

definition split_first :: "(nat \<Rightarrow> bool) \<Rightarrow> utext \<Rightarrow> utext \<times> utext" where
  "split_first P s = (takeWhile (\<lambda>c. \<not> P c) s, drop 1 (dropWhile (\<lambda>c. \<not> P c) s))"

definition parse_u16 :: "utext \<Rightarrow> u16 option" where
  "parse_u16 s =
    (let ds = (case s of c # cs \<Rightarrow> if c = 43 then cs else s | [] \<Rightarrow> []);
         n = foldl (\<lambda>n c. 10 * n + (c - 48)) 0 ds in
     if ds = [] \<or> \<not> list_all (\<lambda>c. 48 \<le> c \<and> c \<le> 57) ds then None
     else if n < 2 ^ 16 then Some (word_of_nat n) else None)"

section \<open>Lines\<close>

fun strip_loop :: "utext \<Rightarrow> utext \<Rightarrow> bool \<Rightarrow> bool \<Rightarrow> utext option" where
  "strip_loop before [] in_quotes esc = None"
| "strip_loop before (c # rest) in_quotes esc =
    (if esc then strip_loop (before @ [c]) rest in_quotes False
     else if in_quotes \<and> c = 92 then strip_loop (before @ [c]) rest in_quotes True
     else
       let in_quotes = (if c = 34 then \<not> in_quotes else in_quotes) in
       if \<not> in_quotes \<and> take 2 (c # rest) = codes ''//'' \<and> (before = [] \<or> white_space (last before))
       then Some (text_trim_end before)
       else strip_loop (before @ [c]) rest in_quotes False)"

definition strip_comment :: "utext \<Rightarrow> utext" where
  "strip_comment line = unwrap_or (strip_loop [] line False False) line"

datatype binary_format = Hex | Base64 | Raw

record message_args =
  ma_input_as_json :: bool
  ma_include_time :: bool
  ma_comments :: bool
  ma_slash :: bool
  ma_show_ping_pong :: bool
  ma_binary :: binary_format

definition parse_close :: "utext \<Rightarrow> frame option cres" where
  "parse_close rest =
    (case split_first (\<lambda>c. c = 44) rest of (code, reason) \<Rightarrow>
     bind_ok (if text_trim code = [] then Ok 1000
       else context_opt (parse_u16 (text_trim code)) ''invalid close code'') (\<lambda>code.
     bind_ok (ensure (is_allowed (close_code_from code)) (''close code '' @ dec (unat code) @ '' cannot be sent'')) (\<lambda>_.
     let reason = text_trim_start reason in
     bind_ok (ensure (length (utf8 reason) \<le> 123) ''close reason exceeds 123 bytes'') (\<lambda>_.
       Ok (Some (close_frame (close_code_from code) (utf8 reason)))))))"

definition parse_slash :: "utext \<Rightarrow> frame option cres" where
  "parse_slash line =
    (case split_first white_space line of (command, rest) \<Rightarrow>
     let rest = text_trim_start rest in
     if command = codes ''/ping'' \<or> command = codes ''/pong''
     then bind_ok (ensure (length (utf8 rest) \<le> 125) ''control frame payload exceeds 125 bytes'') (\<lambda>_.
       Ok (Some (if command = codes ''/ping'' then ping_frame (utf8 rest) else pong_frame (utf8 rest))))
     else if command = codes ''/close'' then parse_close rest
     else Ok (Some (text_frame (utf8 line))))"

definition parse_line :: "message_args \<Rightarrow> utext \<Rightarrow> frame option cres" where
  "parse_line args line =
    (let line = (if ma_comments args then strip_comment line else line) in
     if ma_comments args \<and> text_trim line = [] then Ok None
     else if ma_slash args \<and> take 1 line = codes ''/'' then parse_slash line
     else Ok (Some (text_frame (utf8 line))))"

section \<open>Showing frames\<close>

text \<open>
  \<open>Output\<close>: the printer of the line editor, when there is one, or standard output; and what
  else showing a frame uses.
\<close>

record ('w, 'j) terminal =
  tm_printer :: "(bytes \<Rightarrow> 'w \<Rightarrow> (string + unit) \<times> 'w) option"
  tm_write :: "bytes \<Rightarrow> 'w \<Rightarrow> (io_error + unit) \<times> 'w"
  tm_flush :: "'w \<Rightarrow> (io_error + unit) \<times> 'w"
  tm_eprint :: "bytes \<Rightarrow> 'w \<Rightarrow> 'w"
  tm_time :: "'w \<Rightarrow> bytes \<times> 'w"
  tm_json_parse :: "bytes \<Rightarrow> 'j option"
  tm_json_pretty :: "'j \<Rightarrow> bytes option"
  tm_base64 :: "bytes \<Rightarrow> string"

definition output_bytes :: "('w, 'j) terminal \<Rightarrow> bytes \<Rightarrow> 'w \<Rightarrow> unit cres \<times> 'w" where
  "output_bytes tm bs = andthen (passed_on (tm_write tm bs)) (\<lambda>_. passed_on (tm_flush tm))"

definition output_message :: "('w, 'j) terminal \<Rightarrow> bytes \<Rightarrow> 'w \<Rightarrow> unit cres \<times> 'w" where
  "output_message tm msg =
    (case tm_printer tm of
       Some print \<Rightarrow> with_context (print (str_bytes ''< '' @ msg)) ''write terminal output''
     | None \<Rightarrow> output_bytes tm (msg @ [10]))"

definition eprintln :: "('w, 'j) terminal \<Rightarrow> bytes \<Rightarrow> 'w \<Rightarrow> unit cres \<times> 'w" where
  "eprintln tm bs w = (Ok (), tm_eprint tm (bs @ [10]) w)"

definition hex_digit :: "nat \<Rightarrow> byte" where
  "hex_digit n = word_of_nat (if n < 10 then 48 + n else 87 + n)"

definition hex :: "bytes \<Rightarrow> bytes" where
  "hex bs = concat (map (\<lambda>b. [hex_digit (unat b div 16), hex_digit (unat b mod 16)]) bs)"

definition show_message :: "('w, 'j) terminal \<Rightarrow> message_args \<Rightarrow> bytes \<Rightarrow> 'w \<Rightarrow> unit cres \<times> 'w" where
  "show_message tm args msg w =
    (if ma_include_time args
     then (case tm_time tm w of (t, w) \<Rightarrow> output_message tm (t @ str_bytes '' '' @ msg) w)
     else output_message tm msg w)"

definition show_text :: "('w, 'j) terminal \<Rightarrow> message_args \<Rightarrow> frame \<Rightarrow> bytes cres" where
  "show_text tm args f =
    bind_ok (context_opt (from_utf8 (payload f)) ''invalid UTF-8 text frame'') (\<lambda>s.
      if ma_input_as_json args
      then bind_ok (context_opt (tm_json_parse tm s) ''received invalid JSON'') (\<lambda>j. foreign_opt (tm_json_pretty tm j))
      else Ok s)"

definition show_close :: "('w, 'j) terminal \<Rightarrow> frame \<Rightarrow> 'w \<Rightarrow> unit cres \<times> 'w" where
  "show_close tm f =
    andthen (pure_c (foreign (close_reason f))) (\<lambda>reason.
      eprintln tm (str_bytes ''Disconnected: code='' @
        (case frame_close_code f of None \<Rightarrow> str_bytes ''none'' | Some c \<Rightarrow> str_bytes (dec (unat (close_code_to c)))) @
        str_bytes '', reason='' @ unwrap_or reason []))"

definition show_frame :: "('w, 'j) terminal \<Rightarrow> message_args \<Rightarrow> frame \<Rightarrow> 'w \<Rightarrow> unit cres \<times> 'w" where
  "show_frame tm args f =
    (case opcode f of
       Text \<Rightarrow> andthen (pure_c (show_text tm args f)) (show_message tm args)
     | Binary \<Rightarrow>
         (case ma_binary args of
            Raw \<Rightarrow> output_bytes tm (payload f)
          | Base64 \<Rightarrow> show_message tm args (str_bytes (tm_base64 tm (payload f)))
          | Hex \<Rightarrow> show_message tm args (hex (payload f)))
     | Ping \<Rightarrow>
         if ma_show_ping_pong args then eprintln tm (str_bytes (''Ping: '' @ tm_base64 tm (payload f))) else pure_c (Ok ())
     | Pong \<Rightarrow>
         if ma_show_ping_pong args then eprintln tm (str_bytes (''Pong: '' @ tm_base64 tm (payload f))) else pure_c (Ok ())
     | Close \<Rightarrow> show_close tm f
     | Continuation \<Rightarrow> pure_c (Ok ()))"

section \<open>The loop\<close>

text \<open>
  \<open>Input\<close>, the events of \<open>select!\<close>, and what the loop keeps.  Instants and durations are in
  nanoseconds.  The calls on the connection are bounded by a timeout, whose expiry is \<open>None\<close>.
\<close>

datatype cli_input = Line utext | Input_Frame frame | Interrupted | Input_Error io_error

datatype session_event =
    Ev_Input "cli_input option" | Ev_Frame "ws_error + frame" | Ev_Stop "io_error + unit" | Ev_Deadline

record session =
  ss_input_done :: bool
  ss_deadline :: "nat option"
  ss_closing_code :: "u16 option"

record 'w session_calls =
  sc_now :: "'w \<Rightarrow> nat"
  sc_send :: "frame \<Rightarrow> 'w \<Rightarrow> (ws_error + unit) option \<times> 'w"
  sc_next_frame :: "'w \<Rightarrow> (ws_error + frame) option \<times> 'w"

definition session_start :: session where
  "session_start = \<lparr>ss_input_done = False, ss_deadline = None, ss_closing_code = None\<rparr>"

definition seconds :: "nat \<Rightarrow> nat" where
  "seconds n = n * 1000000000"

text \<open>Which branches of \<open>select!\<close> can be taken.\<close>

definition enabled :: "session \<Rightarrow> nat \<Rightarrow> session_event \<Rightarrow> bool" where
  "enabled ss now ev =
    (case ev of
       Ev_Stop _ \<Rightarrow> ss_closing_code ss = None
     | Ev_Deadline \<Rightarrow> (case ss_deadline ss of None \<Rightarrow> False | Some at \<Rightarrow> at \<le> now)
     | Ev_Frame _ \<Rightarrow> True
     | Ev_Input _ \<Rightarrow> \<not> ss_input_done ss)"

definition finish_peer_close :: "'w session_calls \<Rightarrow> 'w \<Rightarrow> unit cres \<times> 'w" where
  "finish_peer_close calls w =
    (case sc_next_frame calls w of (r, w) \<Rightarrow>
      ((case r of
          Some (Err e) \<Rightarrow> if e = ConnectionClosed then Ok () else Err Foreign
        | Some (Ok _) \<Rightarrow> Ok ()
        | None \<Rightarrow> Err (Ensure ''timed out replying to close frame'')), w))"

datatype 'a flow = Go 'a | Return

definition closed_by_peer :: "session \<Rightarrow> frame \<Rightarrow> unit cres" where
  "closed_by_peer ss f =
    (case frame_close_code f of
       None \<Rightarrow> Ok ()
     | Some c \<Rightarrow>
         let code = close_code_to c in
         if code = 1000 \<or> code = 1001 \<or> ss_closing_code ss = Some code then Ok ()
         else bind_ok (foreign (close_reason f)) (\<lambda>reason.
           Err (Ensure (''peer closed with code '' @ dec (unat code) @ '': '' @
             map (\<lambda>b. char_of (unat b)) (unwrap_or reason [])))))"

definition on_received :: "('w, 'j) terminal \<Rightarrow> 'w session_calls \<Rightarrow> message_args \<Rightarrow> session \<Rightarrow> ws_error + frame \<Rightarrow>
    'w \<Rightarrow> (frame option \<times> session) flow cres \<times> 'w" where
  "on_received tm calls args ss received =
    andthen (pure_c (context_res received ''receive frame'')) (\<lambda>f.
    andthen (show_frame tm args f) (\<lambda>_.
    if opcode f \<noteq> Close then pure_c (Ok (Go (None, ss)))
    else
      andthen (if ss_closing_code ss = None then finish_peer_close calls else pure_c (Ok ())) (\<lambda>_.
      andthen (pure_c (closed_by_peer ss f)) (\<lambda>_. pure_c (Ok Return)))))"

definition on_input :: "message_args \<Rightarrow> nat option \<Rightarrow> nat \<Rightarrow> session \<Rightarrow> cli_input option \<Rightarrow>
    (frame option \<times> session) flow cres" where
  "on_input args wait now ss inp =
    (case inp of
       Some (Line line) \<Rightarrow> bind_ok (parse_line args line) (\<lambda>f. Ok (Go (f, ss)))
     | Some (Input_Frame f) \<Rightarrow> Ok (Go (Some f, ss))
     | Some (Input_Error e) \<Rightarrow> Err (Context ''read stdin'')
     | Some Interrupted \<Rightarrow> Ok (Go (Some (close_frame Normal []), ss))
     | None \<Rightarrow> Ok (Go (None, ss\<lparr>ss_input_done := True, ss_deadline := map_option (\<lambda>d. now + d) wait\<rparr>)))"

definition on_event :: "('w, 'j) terminal \<Rightarrow> 'w session_calls \<Rightarrow> message_args \<Rightarrow> nat option \<Rightarrow> session \<Rightarrow> session_event \<Rightarrow>
    'w \<Rightarrow> (frame option \<times> session) flow cres \<times> 'w" where
  "on_event tm calls args wait ss ev w =
    (case ev of
       Ev_Stop result \<Rightarrow> pure_c (bind_ok (foreign result) (\<lambda>_. Ok (Go (Some (close_frame Normal []), ss)))) w
     | Ev_Deadline \<Rightarrow>
         pure_c (bind_ok (ensure (ss_closing_code ss = None) ''timed out waiting for peer close frame'') (\<lambda>_.
           Ok (Go (Some (close_frame Normal []), ss)))) w
     | Ev_Frame received \<Rightarrow> on_received tm calls args ss received w
     | Ev_Input inp \<Rightarrow> pure_c (on_input args wait (sc_now calls w) ss inp) w)"

definition send_frame :: "'w session_calls \<Rightarrow> frame \<Rightarrow> session \<Rightarrow> 'w \<Rightarrow> session cres \<times> 'w" where
  "send_frame calls f ss w =
    (let ss = (if opcode f = Close
           then \<lparr>ss_input_done = True, ss_deadline = Some (sc_now calls w + seconds 2),
                 ss_closing_code = map_option close_code_to (frame_close_code f)\<rparr>
           else ss)
     in case sc_send calls f w of (r, w) \<Rightarrow>
       ((case r of
           None \<Rightarrow> Err (Context ''timed out sending frame'')
         | Some (Err e) \<Rightarrow> Err Foreign
         | Some (Ok _) \<Rightarrow> Ok ss), w))"

text \<open>One turn of the loop.\<close>

definition turn :: "('w, 'j) terminal \<Rightarrow> 'w session_calls \<Rightarrow> message_args \<Rightarrow> nat option \<Rightarrow> session \<Rightarrow> session_event \<Rightarrow>
    'w \<Rightarrow> session flow cres \<times> 'w" where
  "turn tm calls args wait ss ev =
    andthen (on_event tm calls args wait ss ev) (\<lambda>r.
      case r of
        Return \<Rightarrow> pure_c (Ok Return)
      | Go (None, ss) \<Rightarrow> pure_c (Ok (Go ss))
      | Go (Some f, ss) \<Rightarrow> andthen (send_frame calls f ss) (\<lambda>ss. pure_c (Ok (Go ss))))"

section \<open>Encoding\<close>

lemma unat_small: "n < 256 \<Longrightarrow> unat (word_of_nat n :: byte) = n"
  by (simp add: unat_of_nat)

lemma word_of_small: "n < 256 \<Longrightarrow> m < 256 \<Longrightarrow> (word_of_nat n :: byte) = word_of_nat m \<longleftrightarrow> n = m"
  by (metis unat_small)

lemma encode_char_valid:
  assumes "scalar c"
  shows "utf8_char (encode_char c)"
proof -
  have lead: "lead_len (word_of_nat n) = (if n < 0x80 then 1 else if 0xC2 \<le> n \<and> n \<le> 0xDF then 2
      else if 0xE0 \<le> n \<and> n \<le> 0xEF then 3 else if 0xF0 \<le> n \<and> n \<le> 0xF4 then 4 else 0)" if "n < 256" for n
    using that by (auto simp: lead_len_def in_range_def unat_small)
  have tail: "tail_ok (word_of_nat (0x80 + n mod 64))" for n
  proof -
    have "n mod 64 < 64" by simp
    then show ?thesis by (simp add: tail_ok_def in_range_def unat_small del: of_nat_add)
  qed
  have second: "second_ok (word_of_nat n) (word_of_nat m) =
      ((if n = 0xE0 then 0xA0 else if n = 0xF0 then 0x90 else 0x80) \<le> m \<and>
       m \<le> (if n = 0xED then 0x9F else if n = 0xF4 then 0x8F else 0xBF))" if "n < 256" "m < 256" for n m
    using that word_of_small [of n "0xE0"] word_of_small [of n "0xED"] word_of_small [of n "0xF0"] word_of_small [of n "0xF4"]
    by (auto simp: second_ok_def in_range_def unat_small)
  consider "c < 0x80" | "0x80 \<le> c" "c < 0x800" | "0x800 \<le> c" "c < 0x10000" | "0x10000 \<le> c" "c \<le> 0x10FFFF"
    using assms unfolding scalar_def by linarith
  then show ?thesis
  proof cases
    case 1
    then show ?thesis by (simp add: encode_char_def lead)
  next
    case 2
    have "c div 64 < 32" "2 \<le> c div 64" "c mod 64 < 64" using 2 by linarith+
    then show ?thesis using 2 by (simp add: encode_char_def lead second del: of_nat_add)
  next
    case 3
    define b where "b = c div 64 mod 64"
    have "c div 64 = 64 * (c div 4096) + b"
      using div_mult_mod_eq [of "c div 64" 64] div_mult2_eq [of c 64 64] by (simp add: b_def)
    moreover have b: "c div 4096 < 16" "b < 64" using 3 by (simp_all add: div_less_iff_less_mult b_def)
    ultimately have "c div 4096 = 0 \<longrightarrow> 32 \<le> b" "c div 4096 = 13 \<longrightarrow> b < 32"
      using 3 assms unfolding scalar_def by linarith+
    then show ?thesis using 3 b by (auto simp: encode_char_def lead second tail simp flip: b_def simp del: of_nat_add)
  next
    case 4
    define b where "b = c div 4096 mod 64"
    have "c div 4096 = 64 * (c div 262144) + b"
      using div_mult_mod_eq [of "c div 4096" 64] div_mult2_eq [of c 4096 64] by (simp add: b_def)
    moreover have b: "c div 262144 < 5" "b < 64" using 4 by (simp_all add: div_less_iff_less_mult b_def)
    ultimately have "c div 262144 = 0 \<longrightarrow> 16 \<le> b" "c div 262144 = 4 \<longrightarrow> b < 16"
      using 4 by linarith+
    then show ?thesis using 4 b by (auto simp: encode_char_def lead second tail simp flip: b_def simp del: of_nat_add)
  qed
qed

lemma utf8_valid_utf8: "list_all scalar s \<Longrightarrow> utf8_valid (utf8 s)"
  unfolding utf8_def by (rule utf8_valid_concat) (simp add: list_all_iff encode_char_valid)

section \<open>What a session sends\<close>

text \<open>Frames that may be sent to a peer as they are.\<close>

definition legal :: "frame \<Rightarrow> bool" where
  "legal f \<longleftrightarrow> fin f \<and> \<not> is_compressed f \<and> mask_key f = None \<and>
    (opcode f = Text \<and> utf8_valid (payload f) \<or>
     (opcode f = Ping \<or> opcode f = Pong) \<and> length (payload f) \<le> 125 \<or>
     opcode f = Close \<and> length (payload f) \<le> 125 \<and> utf8_valid (drop 2 (payload f)) \<and>
       (\<exists>c. frame_close_code f = Some c \<and> is_allowed c))"

lemma legal_close:
  assumes "is_allowed (close_code_from code)" "list_all scalar reason" "length (utf8 reason) \<le> 123"
  shows "legal (close_frame (close_code_from code) (utf8 reason))"
proof -
  have "close_code_from (close_code_to (close_code_from code)) = close_code_from code"
    by (simp add: close_code_to_from)
  then show ?thesis using assms utf8_valid_utf8 [OF assms(2)]
    by (auto simp: legal_def close_frame_def frame_close_code_def be_word_be_bytes)
qed

text \<open>Every step of a parse keeps to the characters of the line.\<close>

lemma trims_within: "set (text_trim_start s) \<subseteq> set s" "set (text_trim_end s) \<subseteq> set s"
  by (auto simp: text_trim_start_def text_trim_end_def dest: set_dropWhileD)

lemma split_first_within: "split_first P s = (a, b) \<Longrightarrow> set a \<union> set b \<subseteq> set s"
  by (auto simp: split_first_def dest: set_takeWhileD set_dropWhileD in_set_dropD)

lemma strip_loop_within: "strip_loop before rest q e = Some s \<Longrightarrow> set s \<subseteq> set before \<union> set rest"
proof (induction before rest q e rule: strip_loop.induct)
  case (2 before c rest q e)
  then show ?case using trims_within(2) [of before] by (auto simp: Let_def split: if_splits)
qed simp

lemma strip_comment_within: "set (strip_comment line) \<subseteq> set line"
  using strip_loop_within [of "[]" line False False]
  by (cases "strip_loop [] line False False") (auto simp: strip_comment_def)

lemma scalars_within: "list_all scalar s \<Longrightarrow> set t \<subseteq> set s \<Longrightarrow> list_all scalar t"
  by (auto simp: list_all_iff)

lemma parse_close_legal:
  assumes "parse_close rest = Ok (Some f)" "list_all scalar rest"
  shows "legal f"
proof -
  obtain a b where ab: "split_first (\<lambda>c. c = 44) rest = (a, b)" by fastforce
  then have "list_all scalar (text_trim_start b)"
    using scalars_within [OF assms(2)] split_first_within [OF ab] trims_within(1) [of b] by blast
  then show ?thesis using assms(1) legal_close by (auto simp: parse_close_def ab ok_iff Let_def split: if_splits)
qed

lemma parse_slash_legal:
  assumes "parse_slash line = Ok (Some f)" "list_all scalar line"
  shows "legal f"
proof -
  obtain a b where ab: "split_first white_space line = (a, b)" by fastforce
  then have rest: "list_all scalar (text_trim_start b)"
    using scalars_within [OF assms(2)] split_first_within [OF ab] trims_within(1) [of b] by blast
  have "legal (text_frame (utf8 line))" using utf8_valid_utf8 [OF assms(2)] by (simp add: legal_def text_frame_def)
  then show ?thesis using assms(1) parse_close_legal [OF _ rest]
    by (auto simp: parse_slash_def ab ok_iff Let_def legal_def ping_frame_def pong_frame_def split: if_splits)
qed

lemma parse_line_legal:
  assumes "parse_line args line = Ok (Some f)" "list_all scalar line"
  shows "legal f"
proof -
  define l where "l = (if ma_comments args then strip_comment line else line)"
  have l: "list_all scalar l" using scalars_within [OF assms(2) strip_comment_within] assms(2) by (simp add: l_def)
  then have "legal (text_frame (utf8 l))" using utf8_valid_utf8 by (simp add: legal_def text_frame_def)
  then show ?thesis using assms(1) parse_slash_legal [OF _ l]
    by (auto simp: parse_line_def Let_def simp flip: l_def split: if_splits)
qed

section \<open>Runs of a session\<close>

text \<open>
  What the input threads hand over: lines of the terminal, or frames that were parsed from the
  command line.
\<close>

definition offered_input :: "message_args \<Rightarrow> session_event \<Rightarrow> bool" where
  "offered_input args ev \<longleftrightarrow>
    (\<forall>line. ev = Ev_Input (Some (Line line)) \<longrightarrow> list_all scalar line) \<and>
    (\<forall>f. ev = Ev_Input (Some (Input_Frame f)) \<longrightarrow> (\<exists>line. list_all scalar line \<and> parse_line args line = Ok (Some f)))"

text \<open>
  The frames sent so far and the state of the loop.  Between two turns the world changes in
  any way, and any enabled branch of \<open>select!\<close> may be taken.
\<close>

inductive session_at :: "('w, 'j) terminal \<Rightarrow> 'w session_calls \<Rightarrow> message_args \<Rightarrow> nat option \<Rightarrow> frame list \<Rightarrow> session \<Rightarrow> bool"
  for tm calls args wait where
  opened: "session_at tm calls args wait [] session_start"
| quiet: "session_at tm calls args wait fs ss \<Longrightarrow> enabled ss (sc_now calls w) ev \<Longrightarrow> offered_input args ev \<Longrightarrow>
    on_event tm calls args wait ss ev w = (Ok (Go (None, ss1)), w1) \<Longrightarrow> session_at tm calls args wait fs ss1"
| sending: "session_at tm calls args wait fs ss \<Longrightarrow> enabled ss (sc_now calls w) ev \<Longrightarrow> offered_input args ev \<Longrightarrow>
    on_event tm calls args wait ss ev w = (Ok (Go (Some f, ss1)), w1) \<Longrightarrow> send_frame calls f ss1 w1 = (Ok ss2, w2) \<Longrightarrow>
    session_at tm calls args wait (fs @ [f]) ss2"

lemma turn_cases:
  assumes "turn tm calls args wait ss ev w = (Ok r, w1)"
  obtains "on_event tm calls args wait ss ev w = (Ok Return, w1)" "r = Return"
    | ss1 where "on_event tm calls args wait ss ev w = (Ok (Go (None, ss1)), w1)" "r = Go ss1"
    | f ss1 w2 ss2 where "on_event tm calls args wait ss ev w = (Ok (Go (Some f, ss1)), w2)"
      "send_frame calls f ss1 w2 = (Ok ss2, w1)" "r = Go ss2"
proof -
  obtain x w2 where x: "on_event tm calls args wait ss ev w = (Ok x, w2)"
    using assms unfolding turn_def andthen_ok by blast
  show ?thesis
  proof (cases x)
    case Return
    then show ?thesis using that(1) assms x by (simp add: turn_def andthen_def pure_c_def)
  next
    case (Go p)
    then show ?thesis using that(2,3) assms x
      by (cases p; cases "fst p") (auto simp: turn_def ok_iff)
  qed
qed

lemma turn_session_at:
  assumes "session_at tm calls args wait fs ss" "enabled ss (sc_now calls w) ev" "offered_input args ev"
    and "turn tm calls args wait ss ev w = (Ok (Go ss1), w1)"
  shows "\<exists>fs1. session_at tm calls args wait (fs @ fs1) ss1"
  using assms(4)
proof (cases rule: turn_cases)
  case (2 ss2)
  then show ?thesis using session_at.quiet [OF assms(1-3)] by (metis append_Nil2 flow.inject)
next
  case (3 f ss2 w2 ss3)
  then show ?thesis using session_at.sending [OF assms(1-3)] by blast
qed simp

text \<open>Whether the session sent a Close is what its state says.\<close>

definition session_inv :: "frame list \<Rightarrow> session \<Rightarrow> bool" where
  "session_inv fs ss \<longleftrightarrow> list_all legal fs \<and>
    (if ss_closing_code ss = None then list_all (\<lambda>f. opcode f \<noteq> Close) fs
     else ss_input_done ss \<and> ss_deadline ss \<noteq> None \<and>
       (\<exists>sent f. fs = sent @ [f] \<and> list_all (\<lambda>f. opcode f \<noteq> Close) sent \<and> opcode f = Close))"

lemma legal_normal_close: "legal (close_frame Normal [])"
  using legal_close [of 1000 "[]"] by (simp add: close_code_from_def utf8_def)

lemma on_received_keeps: "on_received tm calls args ss r w = (Ok (Go (x, ss1)), w1) \<Longrightarrow> x = None \<and> ss1 = ss"
  unfolding on_received_def by (auto simp: ok_iff split: if_splits)

text \<open>No branch but the one for frames goes on once a Close was sent.\<close>

lemma on_event_closing:
  assumes "on_event tm calls args wait ss ev w = (Ok (Go (x, ss1)), w1)" "enabled ss now ev"
    and "ss_closing_code ss \<noteq> None" "ss_input_done ss"
  shows "x = None \<and> ss1 = ss"
  using assms by (auto simp: on_event_def enabled_def ok_iff dest!: on_received_keeps split: session_event.splits)

lemma on_event_open:
  assumes "on_event tm calls args wait ss ev w = (Ok (Go (x, ss1)), w1)" "offered_input args ev"
  shows "ss_closing_code ss1 = ss_closing_code ss \<and> (\<forall>f. x = Some f \<longrightarrow> legal f)"
  using assms on_received_keeps [of tm calls args ss _ w x ss1 w1] legal_normal_close parse_line_legal
  by (auto simp: on_event_def on_input_def offered_input_def ok_iff split: session_event.splits option.splits cli_input.splits)

lemma send_frame_ok:
  assumes "send_frame calls f ss w = (Ok ss1, w1)"
  shows "if opcode f = Close
    then ss1 = \<lparr>ss_input_done = True, ss_deadline = Some (sc_now calls w + seconds 2),
      ss_closing_code = map_option close_code_to (frame_close_code f)\<rparr>
    else ss1 = ss"
  using assms by (auto simp: send_frame_def Let_def split: prod.splits option.splits sum.splits if_splits)

lemma session_at_inv: "session_at tm calls args wait fs ss \<Longrightarrow> session_inv fs ss"
proof (induction rule: session_at.induct)
  case opened
  show ?case by (simp add: session_inv_def session_start_def)
next
  case (quiet fs ss w ev ss1 w1)
  show ?case
  proof (cases "ss_closing_code ss")
    case None
    then show ?thesis using quiet.IH on_event_open [OF quiet.hyps(4,3)] by (simp add: session_inv_def)
  next
    case (Some c)
    then show ?thesis using quiet.IH on_event_closing [OF quiet.hyps(4,2)] by (simp add: session_inv_def)
  qed
next
  case (sending fs ss w ev f ss1 w1 ss2 w2)
  have open_before: "ss_closing_code ss = None"
    using on_event_closing [OF sending.hyps(4,2)] sending.IH by (cases "ss_closing_code ss") (auto simp: session_inv_def)
  have f: "legal f" "ss_closing_code ss1 = None" using on_event_open [OF sending.hyps(4,3)] open_before by auto
  then show ?case using send_frame_ok [OF sending.hyps(5)] sending.IH open_before
    by (cases "opcode f = Close") (auto simp: session_inv_def legal_def)
qed

section \<open>Properties\<close>

text \<open>
  C16. What a session does, whatever the terminal, the peer, the clock and the order of events.
  Every frame it sends is one a peer has to accept: text in UTF-8, pings and pongs of at most
  125 bytes, a Close with a code that may be sent and a reason in UTF-8.  After a Close it
  sends nothing more, and two seconds later the deadline ends it.  It ends well only when a Close of the peer was
  received, with no code, 1000, 1001 or the code of its own Close.
\<close>

theorem session_well_behaved:
  assumes "session_at tm calls args wait fs ss"
  shows "list_all legal fs \<and> list_all (\<lambda>f. opcode f \<noteq> Close) (butlast fs) \<and>
    (ss_closing_code ss \<noteq> None \<longleftrightarrow> fs \<noteq> [] \<and> opcode (last fs) = Close) \<and>
    (ss_closing_code ss \<noteq> None \<longrightarrow> (\<exists>d. ss_deadline ss = Some d \<and>
      (\<forall>w. d \<le> sc_now calls w \<longrightarrow> enabled ss (sc_now calls w) Ev_Deadline \<and>
        turn tm calls args wait ss Ev_Deadline w = (Err (Ensure ''timed out waiting for peer close frame''), w)))) \<and>
    (\<forall>ev w w1. turn tm calls args wait ss ev w = (Ok Return, w1) \<longrightarrow>
      (\<exists>f. ev = Ev_Frame (Ok f) \<and> opcode f = Close \<and>
        (\<forall>c. frame_close_code f = Some c \<longrightarrow> close_code_to c \<in> {1000, 1001} \<or> ss_closing_code ss = Some (close_code_to c))))"
proof -
  note inv = session_at_inv [OF assms]
  have sent: "list_all legal fs \<and> list_all (\<lambda>f. opcode f \<noteq> Close) (butlast fs) \<and>
      (ss_closing_code ss \<noteq> None \<longleftrightarrow> fs \<noteq> [] \<and> opcode (last fs) = Close)"
    using inv by (cases "ss_closing_code ss") (auto simp: session_inv_def list_all_iff dest: in_set_butlastD)
  have deadline: "turn tm calls args wait ss Ev_Deadline w = (Err (Ensure ''timed out waiting for peer close frame''), w)"
    if "ss_closing_code ss \<noteq> None" for w
    using that by (cases "ss_closing_code ss") (simp_all add: turn_def on_event_def andthen_def pure_c_def bind_ok_def ensure_def)
  have ends: "\<exists>f. ev = Ev_Frame (Ok f) \<and> opcode f = Close \<and>
      (\<forall>c. frame_close_code f = Some c \<longrightarrow> close_code_to c \<in> {1000, 1001} \<or> ss_closing_code ss = Some (close_code_to c))"
    if "turn tm calls args wait ss ev w = (Ok Return, w1)" for ev w w1
  proof -
    have "on_event tm calls args wait ss ev w = (Ok Return, w1)" using that by (rule turn_cases) simp_all
    then show ?thesis
      by (auto simp: on_event_def on_input_def on_received_def closed_by_peer_def Let_def ok_iff
          split: session_event.splits option.splits cli_input.splits if_splits)
  qed
  show ?thesis using sent deadline ends inv by (cases "ss_closing_code ss") (auto simp: enabled_def session_inv_def)
qed

definition sample_terminal :: "(nat, unit) terminal" where
  "sample_terminal =
    \<lparr>tm_printer = None, tm_write = (\<lambda>_ w. (Ok (), w)), tm_flush = (\<lambda>w. (Ok (), w)), tm_eprint = (\<lambda>_ w. w),
     tm_time = (\<lambda>w. ([], w)), tm_json_parse = (\<lambda>_. None), tm_json_pretty = (\<lambda>_. None), tm_base64 = (\<lambda>_. [])\<rparr>"

definition sample_calls :: "nat session_calls" where
  "sample_calls = \<lparr>sc_now = id, sc_send = (\<lambda>_ w. (Some (Ok ()), w)), sc_next_frame = (\<lambda>w. (None, w))\<rparr>"

definition sample_message_args :: message_args where
  "sample_message_args =
    \<lparr>ma_input_as_json = False, ma_include_time = False, ma_comments = True, ma_slash = True,
     ma_show_ping_pong = False, ma_binary = Hex\<rparr>"

definition sample_line :: utext where
  "sample_line = codes ''/close 4000, bye // the end''"

definition sample_closing :: session where
  "sample_closing = \<lparr>ss_input_done = True, ss_deadline = Some 2000000007, ss_closing_code = Some 4000\<rparr>"

lemma sample_parsed: "parse_line sample_message_args sample_line = Ok (Some (close_frame (Library 4000) (str_bytes ''bye'')))"
  by (simp add: parse_line_def sample_message_args_def sample_line_def codes_def strip_comment_def white_space_def
      text_trim_def text_trim_start_def text_trim_end_def parse_slash_def split_first_def parse_close_def bind_ok_def
      parse_u16_def context_opt_def ensure_def close_code_from_def utf8_def encode_char_def str_bytes_def)

lemma sample_session_steps:
  "on_event sample_terminal sample_calls sample_message_args None session_start (Ev_Input (Some (Line sample_line))) 7 =
    (Ok (Go (Some (close_frame (Library 4000) (str_bytes ''bye'')), session_start)), 7)"
  "send_frame sample_calls (close_frame (Library 4000) (str_bytes ''bye'')) session_start 7 = (Ok sample_closing, 7)"
  "list_all scalar sample_line"
proof -
  show "on_event sample_terminal sample_calls sample_message_args None session_start (Ev_Input (Some (Line sample_line))) 7 =
      (Ok (Go (Some (close_frame (Library 4000) (str_bytes ''bye'')), session_start)), 7)"
    by (simp add: on_event_def on_input_def sample_parsed bind_ok_def pure_c_def)
qed (simp_all add: send_frame_def sample_calls_def seconds_def sample_closing_def close_frame_def frame_close_code_def
      be_word_be_bytes close_code_from_def sample_line_def codes_def scalar_def)

theorem session_well_behaved_witness:
  "session_at sample_terminal sample_calls sample_message_args None [close_frame (Library 4000) (str_bytes ''bye'')] sample_closing \<and>
    legal (close_frame (Library 4000) (str_bytes ''bye'')) \<and>
    turn sample_terminal sample_calls sample_message_args None sample_closing Ev_Deadline 2000000007 =
      (Err (Ensure ''timed out waiting for peer close frame''), 2000000007)"
proof -
  have "session_at sample_terminal sample_calls sample_message_args None ([] @ [close_frame (Library 4000) (str_bytes ''bye'')]) sample_closing"
    by (rule session_at.sending [OF session_at.opened _ _ sample_session_steps(1,2)])
      (simp_all add: enabled_def session_start_def offered_input_def sample_session_steps(3))
  then have at: "session_at sample_terminal sample_calls sample_message_args None [close_frame (Library 4000) (str_bytes ''bye'')] sample_closing"
    by simp
  show ?thesis using at session_well_behaved [OF at] by (simp add: sample_closing_def sample_calls_def)
qed

end
