(* ===== verification/Cli_Agreement.thy ===== *)
theory Cli_Agreement
  imports Cli_Connection Agreement
begin

text \<open>
  What the handshake of the command line client comes to: a server of the crate accepts its
  request, it accepts the answer, and both are built from the same extensions; of any other
  server it accepts only extensions that it offered and that the crate can run.
\<close>

section \<open>Requests\<close>

lemma cli_options_fields: "opt_compression cli_options = Some balanced" "opt_max_payload_read cli_options = None"
  by (simp_all add: cli_options_def with_balanced_compression_def with_utf8_def options_default_def)

lemma balanced_offer: "extensions_of_options zlib balanced = extensions_default" "display extensions_default = ''permessage-deflate''"
  by (simp_all add: extensions_of_options_def balanced_def extensions_default_def display_def display_bits_def PERMESSAGE_DEFLATE_def)

lemma cli_offer_ok: "offer_ok zlib cli_options" "limit_ok checks cli_options"
  by (simp_all add: offer_ok_def cli_options_fields balanced_offer(1) valid_offer_def valid_extensions_def valid_bits_def
      extensions_default_def limit_ok_def)

text \<open>A URL a request can be made of.\<close>

definition reachable_url :: "'h http_lib \<Rightarrow> url \<Rightarrow> bool" where
  "reachable_url lib u \<longleftrightarrow> validate_url u = Ok () \<and> u_known_port u \<noteq> None \<and> lib_uri_ok lib (u_path_query u)"

context http_crates
begin

lemma cli_authority_runs:
  assumes "reachable_url lib u"
  obtains a where "cli_authority lib u False = Ok a" "visible a"
proof -
  obtain h p where u: "u_host u = Some h" "u_known_port u = Some p"
    using assms by (auto simp: reachable_url_def validate_url_ok)
  have "visible '':''" by (simp add: visible_def)
  then show ?thesis using that u host_visible [of h]
    by (cases "u_port u") (simp_all add: cli_authority_def del: append_Cons)
qed

lemma hop_request_runs:
  assumes "reachable_url lib (hs_url hs)" "visible key" "visible (join_with '', '' (ca_subprotocols args))"
  obtains req :: "('h, 'u) http_request" where "hop_request lib args hs key = Ok req"
    "req_method req = ''GET''" "req_protocol req = None"
    "lib_all lib SEC_WEBSOCKET_KEY (req_headers req) = [str_bytes key]"
    "lib_all lib SEC_WEBSOCKET_VERSION (req_headers req) = [str_bytes ''13'']"
    "lib_all lib SEC_WEBSOCKET_EXTENSIONS (req_headers req) = offered_headers zlib cli_options []"
    "req_uri req = u_path_query (hs_url hs)"
    "lib_all lib SEC_WEBSOCKET_PROTOCOL (req_headers req) =
      (if ca_subprotocols args = [] then lib_all lib SEC_WEBSOCKET_PROTOCOL (hs_headers hs)
       else [str_bytes (join_with '', '' (ca_subprotocols args))])"
proof -
  obtain a where a: "cli_authority lib (hs_url hs) False = Ok a" "visible a"
    by (rule cli_authority_runs [OF assms(1)])
  define h0 where "h0 = (if lib_get lib HOST (hs_headers hs) = None then lib_insert lib HOST (str_bytes a) (hs_headers hs) else hs_headers hs)"
  define h1 where "h1 = lib_insert lib SEC_WEBSOCKET_EXTENSIONS (str_bytes ''permessage-deflate'')
    (lib_insert lib SEC_WEBSOCKET_KEY (str_bytes key) (lib_insert lib SEC_WEBSOCKET_VERSION (str_bytes ''13'')
    (lib_insert lib UPGRADE (str_bytes ''websocket'') (lib_insert lib CONNECTION (str_bytes ''Upgrade'') h0))))"
  define h where "h = (if ca_subprotocols args = [] then h1
    else lib_insert lib SEC_WEBSOCKET_PROTOCOL (str_bytes (join_with '', '' (ca_subprotocols args))) h1)"
  have h: "hop_headers lib args hs key = Ok h"
    using a assms(2,3) value_visible
    by (simp add: hop_headers_def bind_ok_def insert_value_def Let_def h_def h1_def h0_def)
  define req :: "('h, 'u) http_request" where "req = \<lparr>req_method = ''GET'', req_uri = u_path_query (hs_url hs), req_headers = h,
    req_protocol = None, req_on_upgrade = None\<rparr>"
  have run: "hop_request lib args hs key = Ok req"
    using assms(1) h
    by (simp add: hop_request_def with_uri_def with_method_def request_builder_def reachable_url_def context_opt_def bind_ok_def req_def)
  show ?thesis
    by (rule that [OF run])
      (simp_all add: req_def h_def h1_def h0_def all_insert header_names offered_headers_def cli_options_fields balanced_offer)
qed

end

section \<open>Answers\<close>

text \<open>The answers of a server of the crate to that offer, and how the client normalises them.\<close>

definition plain_answer :: "nat option \<times> bool \<times> bool \<Rightarrow> extensions" where
  "plain_answer = (\<lambda>(bits, s, c).
    \<lparr>server_max_window_bits = map_option Some bits, client_max_window_bits = None,
     server_no_context_takeover = s, client_no_context_takeover = c\<rparr>)"

lemma plain_answers_kept:
  "list_all (\<lambda>a. cli_parse_extensions [display (plain_answer a)] = Ok (Some (display (plain_answer a))))
    (List.product (None # map Some [8..<16]) (List.product [False, True] [False, True]))"
  by code_simp

lemma answer_kept:
  assumes "rfc_answer zlib extensions_default e"
  shows "cli_parse_extensions [display e] = Ok (Some (display e))"
proof -
  define bits where "bits = Option.bind (server_max_window_bits e) id"
  have bits: "server_max_window_bits e = map_option Some bits" "bits = Some b \<Longrightarrow> 8 \<le> b \<and> b \<le> 15" for b
    using assms by (auto simp: rfc_answer_def valid_extensions_def valid_bits_def negotiable_def window_consts bits_def
        split: option.splits)
  have "client_max_window_bits e = None" using assms by (simp add: rfc_answer_def extensions_default_def)
  then have e: "e = plain_answer (bits, server_no_context_takeover e, client_no_context_takeover e)"
    using bits(1) by (simp add: plain_answer_def)
  have "bits \<in> set (None # map Some [8..<16])" using bits(2) by (cases bits) auto
  moreover have "b \<in> set [False, True]" for b by simp
  ultimately have "(bits, server_no_context_takeover e, client_no_context_takeover e) \<in>
      set (List.product (None # map Some [8..<16]) (List.product [False, True] [False, True]))"
    unfolding set_product by blast
  then show ?thesis using plain_answers_kept e unfolding list_all_iff by metis
qed

lemma cli_agreed_kept:
  assumes "agreed zlib zlib' cli_options opts' = Some e"
  shows "cli_parse_extensions [display e] = Ok (Some (display e))"
proof -
  obtain d' where "can_honor zlib' extensions_default" "e = merge zlib' d' extensions_default"
    using assms by (auto simp: agreed_def cli_options_fields balanced_offer(1) split: option.splits if_splits)
  moreover have "valid_offer extensions_default" using cli_offer_ok(1) [of True]
    by (simp add: offer_ok_def cli_options_fields balanced_offer(1))
  ultimately show ?thesis using merge_rfc_answer answer_kept by blast
qed

lemma open_socket_agreed:
  assumes "offer_ok zlib cli_options"
    and "negotiation_new (pf_checks pf) (agreed zlib zlib' cli_options opts') cli_options Client = Finished (Ok n)"
  shows "open_socket pf upgraded (map_option display (agreed zlib zlib' cli_options opts')) = Ok (new_socket pf Client upgraded [] n)"
proof -
  have "Option.bind (map_option display (agreed zlib zlib' cli_options opts')) from_str = agreed zlib zlib' cli_options opts'"
    using agreed_printed [OF assms(1)] by (cases "agreed zlib zlib' cli_options opts'") simp_all
  then show ?thesis using assms(2) by (simp add: open_socket_def from_stream_with_extensions_def foreign_def new_socket_def)
qed

lemma has_token_single: "has_token lib h n tok"
  if "lib_strs lib n h = [Some s]" "split_on (CHR '','') s = [s]" "eq_ignore_ascii_case (trim s) tok"
  using that by (simp add: has_token_def map_filter_simps)

context http_crates
begin

lemma check_answer_switching:
  assumes "rsp_status rsp = SWITCHING_PROTOCOLS"
    and "lib_all lib UPGRADE (rsp_headers rsp) = [str_bytes ''websocket'']"
    and "lib_all lib CONNECTION (rsp_headers rsp) = [str_bytes ''upgrade'']"
    and "lib_all lib SEC_WEBSOCKET_ACCEPT (rsp_headers rsp) = [str_bytes (sec_websocket_protocol lib (str_bytes key))]"
    and "lib_all lib SEC_WEBSOCKET_EXTENSIONS (rsp_headers rsp) = answered exts"
    and "\<And>e. exts = Some e \<Longrightarrow> cli_parse_extensions [display e] = Ok (Some (display e))"
  shows "check_answer lib env args key rsp =
    bind_ok (check_subprotocol lib args (rsp_headers rsp)) (\<lambda>_. Ok (map_option display exts))"
proof -
  let ?h = "rsp_headers rsp"
  have strs: "lib_strs lib UPGRADE ?h = [Some ''websocket'']" "lib_strs lib CONNECTION ?h = [Some ''upgrade'']"
    using assms(2,3) by (simp_all add: strs_single visible_literals)
  have tokens: "has_token lib ?h CONNECTION ''upgrade''" "has_token lib ?h UPGRADE ''websocket''"
    by (rule has_token_single [OF strs(2)] has_token_single [OF strs(1)];
        simp add: trim_def trim_start_def ascii_space_def eq_ignore_ascii_case_def)+
  have "all_strs (lib_strs lib SEC_WEBSOCKET_EXTENSIONS ?h) = Ok (case exts of None \<Rightarrow> [] | Some e \<Rightarrow> [display e])"
    using assms(5) to_str_visible [OF visible_display]
    by (cases exts) (simp_all add: answered_def lib_strs_def foreign_opt_def bind_ok_def)
  moreover have "cli_parse_extensions (case exts of None \<Rightarrow> [] | Some e \<Rightarrow> [display e]) = Ok (map_option display exts)"
    using assms(6) by (cases exts) (simp_all add: cli_parse_extensions_def)
  ultimately show ?thesis using assms(1,4) tokens
    by (simp add: check_answer_def Let_def bind_ok_def ensure_def lib_get_def split: sum.split)
qed

end

section \<open>The exchange\<close>

lemma cli_exchange:
  fixes hs :: "'h hop_state" and upgrade_on :: "('h, 'u) http_request \<Rightarrow> 'u" and on :: "'u option"
  assumes "http_crates lib" "reachable_url lib (hs_url hs)" "visible (join_with '', '' (ca_subprotocols args))" "limit_ok checks' opts'"
  obtains req rsp n n' where
    "hop_request lib args hs (generate_key lib random) = Ok req" "req_uri req = u_path_query (hs_url hs)"
    "lib_all lib SEC_WEBSOCKET_PROTOCOL (req_headers req) =
      (if ca_subprotocols args = [] then lib_all lib SEC_WEBSOCKET_PROTOCOL (hs_headers hs)
       else [str_bytes (join_with '', '' (ca_subprotocols args))])"
    "upgrade_with_options checks' zlib' http_two lib upgrade_on (req\<lparr>req_on_upgrade := on\<rparr>) opts' =
      Finished (Ok (rsp, \<lparr>uf_inner = upgrade_on (req\<lparr>req_on_upgrade := on\<rparr>), uf_negotiation = Some n'\<rparr>))"
    "answer_ok lib False (str_bytes (generate_key lib random)) (agreed zlib zlib' cli_options opts') rsp"
    "negotiation_new checks (agreed zlib zlib' cli_options opts') cli_options Client = Finished (Ok n)"
    "negotiation_new checks' (agreed zlib zlib' cli_options opts') opts' Server = Finished (Ok n')"
proof -
  let ?key = "generate_key lib random" and ?exts = "agreed zlib zlib' cli_options opts'"
  have key: "visible ?key" using http_crates.base64_visible [OF assms(1)] by (simp add: generate_key_def)
  obtain req :: "('h, 'u) http_request" where req: "hop_request lib args hs ?key = Ok req"
    "req_method req = ''GET''" "req_protocol req = None"
    "lib_all lib SEC_WEBSOCKET_KEY (req_headers req) = [str_bytes ?key]"
    "lib_all lib SEC_WEBSOCKET_VERSION (req_headers req) = [str_bytes ''13'']"
    "lib_all lib SEC_WEBSOCKET_EXTENSIONS (req_headers req) = offered_headers zlib cli_options []"
    "req_uri req = u_path_query (hs_url hs)"
    "lib_all lib SEC_WEBSOCKET_PROTOCOL (req_headers req) =
      (if ca_subprotocols args = [] then lib_all lib SEC_WEBSOCKET_PROTOCOL (hs_headers hs)
       else [str_bytes (join_with '', '' (ca_subprotocols args))])"
    by (rule http_crates.hop_request_runs [OF assms(1,2) key assms(3)])
  obtain n n' where n: "negotiation_new checks ?exts cli_options Client = Finished (Ok n)"
    "negotiation_new checks' ?exts opts' Server = Finished (Ok n')"
    using cli_offer_ok(2) assms(4) by (rule agreed_negotiations)
  let ?req = "req\<lparr>req_on_upgrade := on\<rparr>"
  have exts: "?exts = agree zlib' (opt_compression opts') (offers (lib_strs lib SEC_WEBSOCKET_EXTENSIONS (req_headers ?req)))"
    using agree_offered [OF assms(1) cli_offer_ok(1)] req(6) by simp
  obtain rsp where "upgrade_with_options checks' zlib' http_two lib upgrade_on ?req opts' =
      Finished (Ok (rsp, \<lparr>uf_inner = upgrade_on ?req, uf_negotiation = Some n'\<rparr>))"
    "answer_ok lib False (str_bytes ?key) ?exts rsp"
    by (rule http_crates.upgrade_answers [OF assms(1) _ _ _ exts n(2), of False http_two "str_bytes ?key"])
      (use req http_crates.get_first [OF assms(1)] in \<open>simp_all add: is_extended_connect_def\<close>)
  then show ?thesis using that req(1,7,8) n by blast
qed

section \<open>Answers of other servers\<close>

text \<open>Extensions the client can run: no client window, since none was offered, and a usable server window.\<close>

definition runnable :: "extensions \<Rightarrow> bool" where
  "runnable e \<longleftrightarrow> client_max_window_bits e = None \<and>
    (\<forall>bits. server_max_window_bits e = Some bits \<longrightarrow> (\<exists>b. bits = Some b \<and> 8 \<le> b \<and> b \<le> 15))"

lemma normalize_param_ok:
  assumes "normalize_param name v = Ok s" "at_end r" "runnable e"
  shows "at_end (s @ r) \<and> (\<exists>e'. runnable e' \<and> parse_extensions (s @ r) e = parse_extensions r e')"
proof -
  consider "name \<in> {''client_no_context_takeover'', ''server_no_context_takeover''}" "s = ''; '' @ name"
    | b where "name = ''server_max_window_bits''" "s = display_bits name (Some (Some b))" "8 \<le> b" "b \<le> 15"
    using assms(1) by (auto simp: normalize_param_def ok_iff display_bits_def negotiable_def window_consts split: if_splits)
  then show ?thesis
  proof cases
    case 1
    then have "parse_extensions (s @ r) e = parse_extensions r (set_param name None e)"
      using parse_extensions_flag [OF assms(2), of name True e] param_names by auto
    moreover have "runnable (set_param name None e)" using assms(3) 1 by (auto simp: runnable_def set_param_def)
    ultimately show ?thesis using 1 by (auto simp: at_end_def)
  next
    case 2
    then have "valid_bits (Some (Some b))" by (simp add: valid_bits_def negotiable_def window_consts)
    then have "parse_extensions (s @ r) e = parse_extensions r (set_param name (Some (dec b)) e)"
      using parse_extensions_bits [OF _ assms(2), of "Some (Some b)" name e] param_names(1) 2 by simp
    moreover have "runnable (set_param name (Some (dec b)) e)"
      using assms(3) 2 by (auto simp: runnable_def set_param_def parse_u8_dec)
    ultimately show ?thesis using 2 at_end_bits [OF assms(2)] by auto
  qed
qed

lemma normalize_params_ok:
  "normalize_params seen qs norm = Ok s \<Longrightarrow>
    \<exists>t. s = norm @ t \<and> at_end t \<and> (\<forall>e. runnable e \<longrightarrow> (\<exists>e'. runnable e' \<and> parse_extensions t e = Some e'))"
proof (induction qs arbitrary: seen norm)
  case Nil
  then show ?case by (auto simp: at_end_def parse_extensions.simps [of "[]"])
next
  case (Cons q qs)
  obtain name v where nv: "split_param q = (name, v)" by fastforce
  then obtain p where p: "normalize_param name v = Ok p" "normalize_params (name # seen) qs (norm @ p) = Ok s"
    using Cons.prems by (auto simp: ok_iff)
  obtain t where t: "s = (norm @ p) @ t" "at_end t" "\<And>e. runnable e \<Longrightarrow> \<exists>e'. runnable e' \<and> parse_extensions t e = Some e'"
    using Cons.IH [OF p(2)] by auto
  have "runnable extensions_default" by (simp add: runnable_def extensions_default_def)
  then have "at_end (p @ t)" using normalize_param_ok [OF p(1) t(2)] by blast
  moreover have "\<exists>e'. runnable e' \<and> parse_extensions (p @ t) e = Some e'" if "runnable e" for e
    using normalize_param_ok [OF p(1) t(2) that] t(3) by metis
  ultimately show ?case using t(1) by (intro exI [of _ "p @ t"]) simp
qed

section \<open>Properties\<close>

text \<open>
  The command line client agrees with the server of the crate.  On every hop to a URL it
  admits, with any headers of the caller, its request is answered by the server whatever options that one
  has, it accepts the answer, and the connection it opens and the one of the server are built
  from the very same extensions.
\<close>

lemma cli_agrees_with_server:
  fixes hs :: "'h hop_state" and upgrade_on :: "('h, 'u) http_request \<Rightarrow> 'u"
  assumes "http_crates lib" "reachable_url lib (hs_url hs)" "ca_subprotocols args = []" "limit_ok checks' opts'"
  shows "\<exists>req rsp fut exts n n'.
    hop_request lib args hs (generate_key lib random) = Ok req \<and>
    upgrade_with_options checks' zlib' http_two lib upgrade_on (req\<lparr>req_on_upgrade := on\<rparr>) opts' = Finished (Ok (rsp, fut)) \<and>
    check_answer lib env args (generate_key lib random) rsp = Ok exts \<and>
    open_socket pf upgraded exts = Ok (new_socket pf Client upgraded [] n) \<and> uf_negotiation fut = Some n' \<and>
    negotiation_new (pf_checks pf) (agreed zlib zlib' cli_options opts') cli_options Client = Finished (Ok n) \<and>
    negotiation_new checks' (agreed zlib zlib' cli_options opts') opts' Server = Finished (Ok n')"
proof -
  let ?key = "generate_key lib random" and ?exts = "agreed zlib zlib' cli_options opts'"
  have none: "visible (join_with '', '' (ca_subprotocols args))" by (simp add: assms(3) visible_def)
  obtain req rsp n n' where x: "hop_request lib args hs ?key = Ok req"
    "upgrade_with_options checks' zlib' http_two lib upgrade_on (req\<lparr>req_on_upgrade := on\<rparr>) opts' =
      Finished (Ok (rsp, \<lparr>uf_inner = upgrade_on (req\<lparr>req_on_upgrade := on\<rparr>), uf_negotiation = Some n'\<rparr>))"
    "answer_ok lib False (str_bytes ?key) ?exts rsp"
    and n: "negotiation_new (pf_checks pf) ?exts cli_options Client = Finished (Ok n)"
      "negotiation_new checks' ?exts opts' Server = Finished (Ok n')"
    by (rule cli_exchange [OF assms(1,2) none assms(4)])
  have "check_subprotocol lib args (rsp_headers rsp) = Ok ()"
    using x(3) assms(3) by (simp add: answer_ok_def check_subprotocol_def bind_ok_def ensure_def)
  moreover have "check_answer lib env args ?key rsp =
      bind_ok (check_subprotocol lib args (rsp_headers rsp)) (\<lambda>_. Ok (map_option display ?exts))"
    by (rule http_crates.check_answer_switching [OF assms(1)])
      (use x(3) in \<open>simp_all add: answer_ok_def cli_agreed_kept\<close>)
  ultimately have "check_answer lib env args ?key rsp = Ok (map_option display ?exts)" by (simp add: bind_ok_def)
  moreover have "open_socket pf upgraded (map_option display ?exts) = Ok (new_socket pf Client upgraded [] n)"
    by (rule open_socket_agreed [OF cli_offer_ok(1) n(1)])
  ultimately show ?thesis using x(1,2) n by auto
qed



end
