(* ===== verification/Cli_Server.thy ===== *)
theory Cli_Server
  imports Cli_Session Cli_Agreement
begin

text \<open>
  The server of the command line tool (\<open>yawcc/src/server.rs\<close>): the check of its arguments, the
  HTTP handler that selects a subprotocol and upgrades, and the session with one client; and
  what the client does before it connects (\<open>yawcc/src/client.rs\<close>).  Accepting connections and
  running the sessions as tasks is left to tokio.
\<close>

section \<open>Before connecting\<close>

text \<open>\<open>parse_wait\<close>; parsing numbers and durations are parameters.\<close>

definition parse_wait :: "(string \<Rightarrow> 'f option) \<Rightarrow> ('f \<Rightarrow> nat option) \<Rightarrow> (string \<Rightarrow> nat option) \<Rightarrow> (nat \<Rightarrow> bool) \<Rightarrow>
    string \<Rightarrow> nat option option" where
  "parse_wait parse_f64 try_from_secs parse_duration instant_ok v =
    (if v = ''-1'' then Some None
     else
       let duration = (case parse_f64 v of Some secs \<Rightarrow> try_from_secs secs | None \<Rightarrow> parse_duration v) in
       case duration of
         None \<Rightarrow> None
       | Some d \<Rightarrow> if instant_ok d then Some (Some d) else None)"

fun parse_all :: "message_args \<Rightarrow> utext list \<Rightarrow> frame option list cres" where
  "parse_all args [] = Ok []"
| "parse_all args (line # lines) =
    bind_ok (parse_line args line) (\<lambda>f. bind_ok (parse_all args lines) (\<lambda>fs. Ok (f # fs)))"

definition client_prepare :: "'h http_lib \<Rightarrow> ('w, 's, 'io, 'up) cli_env \<Rightarrow> ('c, 'k) cert_files \<Rightarrow> cli_args \<Rightarrow> message_args \<Rightarrow>
    utext list \<Rightarrow> (('h, ('c, 'k) tls_config) cli_config \<times> frame option list) cres" where
  "client_prepare lib env fl args messages execute =
    bind_ok (config_new lib env fl args) (\<lambda>cfg.
    bind_ok (parse_all messages execute) (\<lambda>frames. Ok (cfg, frames)))"

definition scripted :: "frame option list \<Rightarrow> cli_input list" where
  "scripted frames = map Input_Frame (List.map_filter id frames)"

section \<open>Arguments of the server\<close>

fun protocols_ok :: "(string \<Rightarrow> string option) \<Rightarrow> string list \<Rightarrow> unit cres" where
  "protocols_ok header_name [] = Ok ()"
| "protocols_ok header_name (p # ps) =
    bind_ok (ensure (p \<noteq> [] \<and> header_name p \<noteq> None) ''invalid subprotocol'') (\<lambda>_. protocols_ok header_name ps)"

definition server_check :: "(string \<Rightarrow> string option) \<Rightarrow> string \<Rightarrow> string list \<Rightarrow> unit cres" where
  "server_check header_name path protocols =
    bind_ok (ensure (starts_with ''/'' path \<and> CHR ''?'' \<notin> set path \<and> CHR ''#'' \<notin> set path)
      ''--path must be an absolute path without query or fragment'') (\<lambda>_. protocols_ok header_name protocols)"

section \<open>The handler\<close>

definition NOT_FOUND :: u16 where "NOT_FOUND = 404"
definition SERVICE_UNAVAILABLE :: u16 where "SERVICE_UNAVAILABLE = 503"

definition reject :: "'h http_lib \<Rightarrow> u16 \<Rightarrow> 'h http_response" where
  "reject lib status = \<lparr>rsp_status = status, rsp_headers = lib_empty lib\<rparr>"

definition offered_protocols :: "'h http_lib \<Rightarrow> 'h \<Rightarrow> string list" where
  "offered_protocols lib headers =
    map trim (concat (map (split_on (CHR '','')) (List.map_filter id (lib_strs lib SEC_WEBSOCKET_PROTOCOL headers))))"

definition with_protocol :: "'h http_lib \<Rightarrow> string option \<Rightarrow> 'h http_response \<Rightarrow> 'h http_response exec" where
  "with_protocol lib selected response =
    (case selected of
       None \<Rightarrow> Finished response
     | Some p \<Rightarrow>
         if lib_value_ok lib (str_bytes p)
         then Finished (response\<lparr>rsp_headers := lib_insert lib SEC_WEBSOCKET_PROTOCOL (str_bytes p) (rsp_headers response)\<rparr>)
         else Panic)"

text \<open>
  The answer, and the upgrade that is handed to the main loop; \<open>uri_path\<close> is \<open>Uri::path\<close> and
  \<open>queue_open\<close> says whether the main loop still takes upgrades.
\<close>

definition serve_upgrade :: "bool \<Rightarrow> bool \<Rightarrow> bool \<Rightarrow> 'h http_lib \<Rightarrow> (string \<Rightarrow> string) \<Rightarrow> (('h, 'u) http_request \<Rightarrow> 'u) \<Rightarrow>
    bool \<Rightarrow> string \<Rightarrow> string list \<Rightarrow> ('h, 'u) http_request \<Rightarrow> ('h http_response \<times> 'u upgrade_fut option) exec" where
  "serve_upgrade checks zlib http_two lib uri_path upgrade_on queue_open path protocols request =
    (if uri_path (req_uri request) \<noteq> path then Finished (reject lib NOT_FOUND, None)
     else
       let offered = offered_protocols lib (req_headers request);
           selected = find (\<lambda>p. p \<in> set offered) protocols
       in if protocols \<noteq> [] \<and> selected = None then Finished (reject lib BAD_REQUEST, None)
          else proceed (upgrade_with_options checks zlib http_two lib upgrade_on request cli_options) (\<lambda>r.
            case r of
              Err _ \<Rightarrow> Finished (reject lib BAD_REQUEST, None)
            | Ok (response, future) \<Rightarrow>
                proceed (with_protocol lib selected response) (\<lambda>response.
                  if queue_open then Finished (response, Some future)
                  else Finished (reject lib SERVICE_UNAVAILABLE, None))))"

section \<open>The session with a client\<close>

datatype server_event = Got "ws_error + frame" | To_Send "frame option"

text \<open>
  The loop that waits for the Close of the peer after that of the server: its timeout ends it,
  between two frames or after the first \<open>n\<close> of them.
\<close>

fun await_close :: "nat \<Rightarrow> 'w session_calls \<Rightarrow> 'w \<Rightarrow> unit cres \<times> 'w" where
  "await_close 0 calls w = (Err (Context ''peer did not close''), w)"
| "await_close (Suc n) calls w =
    (case sc_next_frame calls w of
       (None, w) \<Rightarrow> (Err (Context ''peer did not close''), w)
     | (Some (Err e), w) \<Rightarrow> (Err Foreign, w)
     | (Some (Ok f), w) \<Rightarrow> if opcode f = Close then (Ok (), w) else await_close n calls w)"

definition bounded_send :: "'w session_calls \<Rightarrow> frame \<Rightarrow> 'w \<Rightarrow> unit cres \<times> 'w" where
  "bounded_send calls f w =
    (case sc_send calls f w of
       (None, w) \<Rightarrow> (Err (Context ''send timed out''), w)
     | (Some (Err e), w) \<Rightarrow> (Err Foreign, w)
     | (Some (Ok _), w) \<Rightarrow> (Ok (), w))"

definition on_got :: "('w, 'j) terminal \<Rightarrow> 'w session_calls \<Rightarrow> message_args \<Rightarrow> bool \<Rightarrow> bool \<Rightarrow> ws_error + frame \<Rightarrow>
    'w \<Rightarrow> unit flow cres \<times> 'w" where
  "on_got tm calls args lock_ok interactive received =
    andthen (pure_c (foreign received)) (\<lambda>f.
    andthen
      (if interactive \<or> is_control (opcode f)
       then if lock_ok then show_frame tm args f else pure_c (Err (Ensure ''terminal output lock failed''))
       else pure_c (Ok ())) (\<lambda>_.
    if opcode f = Close then andthen (finish_peer_close calls) (\<lambda>_. pure_c (Ok Return))
    else if \<not> interactive \<and> (opcode f = Text \<or> opcode f = Binary)
    then andthen (bounded_send calls f) (\<lambda>_. pure_c (Ok (Go ())))
    else pure_c (Ok (Go ()))))"

definition on_outgoing :: "'w session_calls \<Rightarrow> nat \<Rightarrow> frame option \<Rightarrow> 'w \<Rightarrow> unit flow cres \<times> 'w" where
  "on_outgoing calls waited sent =
    andthen (pure_c (context_opt sent ''server output queue overflowed or closed'')) (\<lambda>f.
    andthen (bounded_send calls f) (\<lambda>_.
    if opcode f = Close then andthen (await_close waited calls) (\<lambda>_. pure_c (Ok Return))
    else pure_c (Ok (Go ()))))"

definition serve_turn :: "('w, 'j) terminal \<Rightarrow> 'w session_calls \<Rightarrow> message_args \<Rightarrow> bool \<Rightarrow> bool \<Rightarrow> nat \<Rightarrow> server_event \<Rightarrow>
    'w \<Rightarrow> unit flow cres \<times> 'w" where
  "serve_turn tm calls args lock_ok interactive waited ev =
    (case ev of
       Got received \<Rightarrow> on_got tm calls args lock_ok interactive received
     | To_Send sent \<Rightarrow> on_outgoing calls waited sent)"

fun serve_loop :: "('w, 'j) terminal \<Rightarrow> 'w session_calls \<Rightarrow> message_args \<Rightarrow> bool \<Rightarrow> bool \<Rightarrow> nat \<Rightarrow> server_event list \<Rightarrow>
    'w \<Rightarrow> unit flow cres \<times> 'w" where
  "serve_loop tm calls args lock_ok interactive waited [] w = (Ok (Go ()), w)"
| "serve_loop tm calls args lock_ok interactive waited (ev # evs) w =
    andthen (serve_turn tm calls args lock_ok interactive waited ev) (\<lambda>r.
      case r of Return \<Rightarrow> pure_c (Ok Return) | Go _ \<Rightarrow> serve_loop tm calls args lock_ok interactive waited evs) w"

text \<open>
  A server that is not interactive echoes: over a connection and a terminal that work, it sends
  back exactly the messages it received, in order, until a Close.  \<open>log\<close> reads what was sent
  out of the world.
\<close>

lemma server_echoes:
  assumes send: "\<And>f w. \<exists>w1. sc_send calls f w = (Some (Ok ()), w1) \<and> log w1 = log w @ [f]"
    and shown: "\<And>f w. is_control (opcode f) \<Longrightarrow> opcode f \<noteq> Close \<Longrightarrow> \<exists>w1. show_frame tm args f w = (Ok (), w1) \<and> log w1 = log w"
  shows "list_all (\<lambda>f. opcode f \<noteq> Close) fs \<Longrightarrow>
    \<exists>w1. serve_loop tm calls args True False waited (map (\<lambda>f. Got (Ok f)) fs) w = (Ok (Go ()), w1) \<and>
      log w1 = log w @ filter (\<lambda>f. opcode f = Text \<or> opcode f = Binary) fs"
proof (induction fs arbitrary: w)
  case (Cons f fs)
  let ?data = "opcode f = Text \<or> opcode f = Binary"
  have "\<exists>w1. serve_turn tm calls args True False waited (Got (Ok f)) w = (Ok (Go ()), w1) \<and>
      log w1 = log w @ (if ?data then [f] else [])"
  proof (cases "is_control (opcode f)")
    case True
    then show ?thesis using shown [OF True, of w] Cons.prems
      by (cases "opcode f") (auto simp: serve_turn_def on_got_def andthen_def pure_c_def foreign_def)
  next
    case False
    then show ?thesis using send [of f w] Cons.prems
      by (cases "opcode f") (auto simp: serve_turn_def on_got_def bounded_send_def andthen_def pure_c_def foreign_def)
  qed
  then obtain w1 where w1: "serve_turn tm calls args True False waited (Got (Ok f)) w = (Ok (Go ()), w1)"
    "log w1 = log w @ (if ?data then [f] else [])" by blast
  then show ?case using Cons.IH [of w1] Cons.prems by (auto simp: andthen_def)
qed simp

section \<open>Lists of subprotocols\<close>

definition token_name :: "string \<Rightarrow> bool" where
  "token_name p \<longleftrightarrow> p \<noteq> [] \<and> list_all is_tchar p"

lemma tchar_plain: "is_tchar c \<Longrightarrow> 33 \<le> (of_char c :: nat) \<and> (of_char c :: nat) < 127 \<and> c \<noteq> CHR '','' \<and> \<not> ascii_space c"
  by (auto simp: is_tchar_def is_alnum_def is_digit_def ascii_space_def Let_def)

lemma token_list: "list_all is_token (str_bytes p) \<longleftrightarrow> list_all is_tchar p"
  by (simp add: is_token_def str_bytes_def list_all_iff)

lemma check_subprotocols_tokens: "check_subprotocols earlier ps = Ok () \<Longrightarrow> list_all token_name ps"
  by (induction earlier ps rule: check_subprotocols.induct) (auto simp: ok_iff token_name_def token_list)

lemma protocols_ok_tokens:
  "protocols_ok header_name ps = Ok () \<Longrightarrow> \<forall>p. header_name p \<noteq> None \<longrightarrow> list_all is_tchar p \<Longrightarrow> list_all token_name ps"
  by (induction ps) (auto simp: ok_iff token_name_def)

lemma token_facts:
  assumes "token_name p"
  shows "visible p" "CHR '','' \<notin> set p" "trim p = p" "trim ('' '' @ p) = p"
proof -
  have p: "p \<noteq> []" and c: "\<And>c. c \<in> set p \<Longrightarrow> is_tchar c" using assms by (auto simp: token_name_def list_all_iff)
  show "visible p" "CHR '','' \<notin> set p" using tchar_plain [OF c] by (force simp: visible_def list_all_iff)+
  have "\<not> ascii_space (hd p)" "\<not> ascii_space (last p)" using tchar_plain c p by auto
  then have "dropWhile ascii_space p = p" "dropWhile ascii_space (rev p) = rev p"
    by (simp_all add: dropWhile_eq_self_iff hd_rev)
  then show "trim p = p" "trim ('' '' @ p) = p" by (simp_all add: trim_def trim_start_def ascii_space_def)
qed

lemma split_on_commas: "split_on (CHR '','') s = split_commas s"
  by (induction s) (simp_all split: list.split)

lemma offered_again:
  assumes "list_all token_name ps" "ps \<noteq> []" "sp = [] \<or> sp = '' ''"
  shows "map trim (split_on (CHR '','') (sp @ join_with '', '' ps)) = ps"
  using assms
proof (induction ps arbitrary: sp rule: induct_list012)
  case (2 p)
  then have "CHR '','' \<notin> set (sp @ p)" using token_facts(2) by auto
  then show ?case using 2 token_facts(3,4) by (auto simp: split_on_commas split_commas_single)
next
  case (3 p q ps)
  have "CHR '','' \<notin> set (sp @ p)" using 3 token_facts(2) by auto
  then have "split_on (CHR '','') (sp @ join_with '', '' (p # q # ps)) = (sp @ p) # split_on (CHR '','') ('' '' @ join_with '', '' (q # ps))"
    using split_commas_append [of "sp @ p" "'' '' @ join_with '', '' (q # ps)"] by (simp add: split_on_commas)
  moreover have "trim (sp @ p) = p" using 3 token_facts(3,4) by auto
  moreover have "map trim (split_on (CHR '','') ('' '' @ join_with '', '' (q # ps))) = q # ps"
    by (rule "3.IH"(2)) (use 3 in simp_all)
  ultimately show ?case by simp
qed simp

lemma visible_join:
  assumes "list_all token_name ps"
  shows "visible (join_with '', '' ps)"
proof -
  have v: "visible '', ''" by (simp add: visible_def)
  show ?thesis using assms
  proof (induction ps rule: induct_list012)
    case (3 p q ps)
    then show ?case using v token_facts(1) by (simp del: append_Cons)
  qed (simp_all add: visible_def [of "[]"] token_facts(1))
qed

section \<open>Both ends\<close>

text \<open>
  Both ends opened a connection after an answer, from the extensions the two sets of options
  lead to.
\<close>

definition opened_alike :: "'h http_lib \<Rightarrow> ('w, 's, 'io, 'up) cli_env \<Rightarrow> ('up, 'p, 'z, 'y) platform \<Rightarrow> 'up \<Rightarrow> cli_args \<Rightarrow> string \<Rightarrow>
    bool \<Rightarrow> bool \<Rightarrow> 'h http_response \<Rightarrow> 'u upgrade_fut option \<Rightarrow> bool" where
  "opened_alike lib env pf upgraded args key checks zlib rsp future \<longleftrightarrow>
    (\<exists>fut exts n n'. future = Some fut \<and> uf_negotiation fut = Some n' \<and>
      check_answer lib env args key rsp = Ok exts \<and>
      open_socket pf upgraded exts = Ok (new_socket pf Client upgraded [] n) \<and>
      negotiation_new (pf_checks pf) (agreed zlib zlib cli_options cli_options) cli_options Client = Finished (Ok n) \<and>
      negotiation_new checks (agreed zlib zlib cli_options cli_options) cli_options Server = Finished (Ok n'))"

context http_crates
begin

lemma offered_protocols_request:
  assumes "lib_all lib SEC_WEBSOCKET_PROTOCOL h = (if ps = [] then [] else [str_bytes (join_with '', '' ps)])"
    and "list_all token_name ps"
  shows "offered_protocols lib h = ps"
proof (cases "ps = []")
  case True
  then show ?thesis using assms(1) by (simp add: offered_protocols_def lib_strs_def)
next
  case False
  then have "lib_strs lib SEC_WEBSOCKET_PROTOCOL h = [Some (join_with '', '' ps)]"
    using assms strs_single visible_join by simp
  then show ?thesis using offered_again [OF assms(2) False, of "[]"]
    by (simp add: offered_protocols_def map_filter_simps)
qed

lemma protocol_answer_checked:
  assumes "answer_ok lib False (str_bytes key) (agreed zlib zlib' cli_options opts') rsp0" "list_all token_name qs"
    and "selected = find (\<lambda>q. q \<in> set (ca_subprotocols args)) qs"
  obtains rsp where "with_protocol lib selected rsp0 = Finished rsp"
    "lib_all lib SEC_WEBSOCKET_PROTOCOL (rsp_headers rsp) = (case selected of None \<Rightarrow> [] | Some q \<Rightarrow> [str_bytes q])"
    "check_answer lib env args key rsp =
      (if selected = None \<and> ca_subprotocols args \<noteq> [] then Err (Ensure ''server did not select an offered subprotocol'')
       else Ok (map_option display (agreed zlib zlib' cli_options opts')))"
proof -
  have q: "visible q \<and> q \<in> set (ca_subprotocols args)" if "selected = Some q" for q
    using that assms(2,3) token_facts(1) by (auto simp: find_Some_iff list_all_iff dest: nth_mem)
  define rsp where "rsp = (case selected of None \<Rightarrow> rsp0
    | Some q \<Rightarrow> rsp0\<lparr>rsp_headers := lib_insert lib SEC_WEBSOCKET_PROTOCOL (str_bytes q) (rsp_headers rsp0)\<rparr>)"
  have other: "rsp_status rsp = rsp_status rsp0"
    "n \<noteq> SEC_WEBSOCKET_PROTOCOL \<Longrightarrow> lib_all lib n (rsp_headers rsp) = lib_all lib n (rsp_headers rsp0)" for n
    by (simp_all add: rsp_def all_insert split: option.split)
  have proto: "lib_all lib SEC_WEBSOCKET_PROTOCOL (rsp_headers rsp) = (case selected of None \<Rightarrow> [] | Some q \<Rightarrow> [str_bytes q])"
    using assms(1) by (simp add: rsp_def all_insert answer_ok_def split: option.split)
  have "check_answer lib env args key rsp =
      bind_ok (check_subprotocol lib args (rsp_headers rsp)) (\<lambda>_. Ok (map_option display (agreed zlib zlib' cli_options opts')))"
    by (rule check_answer_switching)
      (use assms(1) other in \<open>simp_all add: answer_ok_def header_names cli_agreed_kept\<close>)
  moreover have "check_subprotocol lib args (rsp_headers rsp) =
      (if selected = None \<and> ca_subprotocols args \<noteq> [] then Err (Ensure ''server did not select an offered subprotocol'') else Ok ())"
    using proto q to_str_visible
    by (cases selected) (auto simp: check_subprotocol_def bind_ok_def ensure_def foreign_opt_def)
  ultimately show ?thesis using that [of rsp] proto q value_visible
    by (cases selected) (simp_all add: with_protocol_def rsp_def bind_ok_def)
qed

end

section \<open>Properties\<close>

text \<open>
  C22. Client and server of the tool agree on a subprotocol.  With the subprotocols of either
  side as their argument checks admit them, on the path the server serves, the answer names
  the first subprotocol of the server that the client offered.  Both open their ends exactly
  when there is one or neither side has any; otherwise the server answers 400 and opens
  nothing, or, when only the client has some, the client refuses the answer.
\<close>

theorem subprotocols_agree:
  fixes upgrade_on :: "('h, 'u) http_request \<Rightarrow> 'u"
  assumes "http_crates lib" "reachable_url lib (hs_url hs)" "lib_all lib SEC_WEBSOCKET_PROTOCOL (hs_headers hs) = []"
    and client: "check_subprotocols [] (ca_subprotocols args) = Ok ()"
    and server: "server_check header_name path qs = Ok ()" "\<forall>p. header_name p \<noteq> None \<longrightarrow> list_all is_tchar p"
    and path: "uri_path (u_path_query (hs_url hs)) = path"
  shows "\<exists>req rsp future.
    hop_request lib args hs (generate_key lib random) = Ok req \<and>
    serve_upgrade checks zlib http_two lib uri_path upgrade_on True path qs (req\<lparr>req_on_upgrade := on\<rparr>) = Finished (rsp, future) \<and>
    lib_all lib SEC_WEBSOCKET_PROTOCOL (rsp_headers rsp) =
      (case find (\<lambda>q. q \<in> set (ca_subprotocols args)) qs of None \<Rightarrow> [] | Some q \<Rightarrow> [str_bytes q]) \<and>
    (if (\<exists>q\<in>set qs. q \<in> set (ca_subprotocols args)) \<or> qs = [] \<and> ca_subprotocols args = []
     then opened_alike lib env pf upgraded args (generate_key lib random) checks zlib rsp future
     else check_answer lib env args (generate_key lib random) rsp =
         Err (Ensure (if qs = [] then ''server did not select an offered subprotocol''
           else ''WebSocket handshake returned HTTP '' @ ce_status_text env BAD_REQUEST)) \<and>
       (future = None \<longleftrightarrow> qs \<noteq> []))"
proof -
  let ?key = "generate_key lib random" and ?exts = "agreed zlib zlib cli_options cli_options" and ?ps = "ca_subprotocols args"
  let ?selected = "find (\<lambda>q. q \<in> set ?ps) qs"
  have ps: "list_all token_name ?ps" by (rule check_subprotocols_tokens [OF client])
  have qs: "list_all token_name qs" using protocols_ok_tokens [OF _ server(2)] server(1) by (auto simp: server_check_def ok_iff)
  obtain req rsp0 n n' where req: "hop_request lib args hs ?key = Ok req" "req_uri req = u_path_query (hs_url hs)"
    "lib_all lib SEC_WEBSOCKET_PROTOCOL (req_headers req) =
      (if ?ps = [] then lib_all lib SEC_WEBSOCKET_PROTOCOL (hs_headers hs) else [str_bytes (join_with '', '' ?ps)])"
    and rsp0: "upgrade_with_options checks zlib http_two lib upgrade_on (req\<lparr>req_on_upgrade := on\<rparr>) cli_options =
      Finished (Ok (rsp0, \<lparr>uf_inner = upgrade_on (req\<lparr>req_on_upgrade := on\<rparr>), uf_negotiation = Some n'\<rparr>))"
      "answer_ok lib False (str_bytes ?key) ?exts rsp0"
    and n: "negotiation_new (pf_checks pf) ?exts cli_options Client = Finished (Ok n)"
      "negotiation_new checks ?exts cli_options Server = Finished (Ok n')"
    by (rule cli_exchange [OF assms(1,2) visible_join [OF ps] cli_offer_ok(2)])
  let ?req = "req\<lparr>req_on_upgrade := on\<rparr>"
  have offered: "offered_protocols lib (req_headers ?req) = ?ps"
    using http_crates.offered_protocols_request [OF assms(1) _ ps] req(3) assms(3) by simp
  obtain rsp where rsp: "with_protocol lib ?selected rsp0 = Finished rsp"
    "lib_all lib SEC_WEBSOCKET_PROTOCOL (rsp_headers rsp) = (case ?selected of None \<Rightarrow> [] | Some q \<Rightarrow> [str_bytes q])"
    "check_answer lib env args ?key rsp =
      (if ?selected = None \<and> ?ps \<noteq> [] then Err (Ensure ''server did not select an offered subprotocol'')
       else Ok (map_option display ?exts))"
    by (rule http_crates.protocol_answer_checked [OF assms(1) rsp0(2) qs refl])
  have none: "?selected = None \<longleftrightarrow> \<not> (\<exists>q\<in>set qs. q \<in> set ?ps)" by (auto simp: find_None_iff)
  show ?thesis
  proof (cases "qs \<noteq> [] \<and> ?selected = None")
    case True
    then have "serve_upgrade checks zlib http_two lib uri_path upgrade_on True path qs ?req = Finished (reject lib BAD_REQUEST, None)"
      using path req(2) offered by (simp add: serve_upgrade_def Let_def)
    moreover have "lib_all lib SEC_WEBSOCKET_PROTOCOL (rsp_headers (reject lib BAD_REQUEST)) = []"
      by (simp add: reject_def http_crates.all_empty [OF assms(1)])
    moreover have "check_answer lib env args ?key (reject lib BAD_REQUEST) =
        Err (Ensure (''WebSocket handshake returned HTTP '' @ ce_status_text env BAD_REQUEST))"
      by (simp add: check_answer_def reject_def status_codes bind_ok_def ensure_def)
    ultimately show ?thesis using req(1) True none
      by (intro exI [of _ req] exI [of _ "reject lib BAD_REQUEST"] exI [of _ None]) auto
  next
    case False
    define fut where "fut = \<lparr>uf_inner = upgrade_on ?req, uf_negotiation = Some n'\<rparr>"
    have "serve_upgrade checks zlib http_two lib uri_path upgrade_on True path qs ?req = Finished (rsp, Some fut)"
      using path req(2) offered rsp0(1) rsp(1) False by (auto simp: serve_upgrade_def Let_def fut_def)
    moreover have "opened_alike lib env pf upgraded args ?key checks zlib rsp (Some fut)" if "\<not> (?selected = None \<and> ?ps \<noteq> [])"
    proof -
      have "open_socket pf upgraded (map_option display ?exts) = Ok (new_socket pf Client upgraded [] n)"
        by (rule open_socket_agreed [OF cli_offer_ok(1) n(1)])
      then show ?thesis using that rsp(3) n by (auto simp: opened_alike_def fut_def)
    qed
    ultimately show ?thesis using req(1) False none rsp(2,3)
      by (intro exI [of _ req] exI [of _ rsp] exI [of _ "Some fut"]) auto
  qed
qed

definition chat_args :: cli_args where
  "chat_args = cli_sample_args\<lparr>ca_subprotocols := [''chat.v1'', ''chat.v2'']\<rparr>"

theorem subprotocols_agree_witness:
  "\<exists>req rsp future.
    hop_request list_lib chat_args (first_hop cli_sample_config) (generate_key list_lib [1]) = Ok req \<and>
    serve_upgrade True True True list_lib id (\<lambda>_ :: ((string \<times> bytes) list, unit) http_request. ()) True ''/'' [''log'', ''chat.v2'']
      (req\<lparr>req_on_upgrade := None\<rparr>) = Finished (rsp, future) \<and>
    lib_all list_lib SEC_WEBSOCKET_PROTOCOL (rsp_headers rsp) = [str_bytes ''chat.v2''] \<and>
    opened_alike list_lib cli_sample_env (sample_platform :: (unit, unit, unit, unit) platform) () chat_args
      (generate_key list_lib [1]) True True rsp future"
proof -
  let ?name = "\<lambda>p. if list_all is_tchar p then Some p else None"
  have url: "reachable_url list_lib (hs_url (first_hop cli_sample_config))"
    "lib_all list_lib SEC_WEBSOCKET_PROTOCOL (hs_headers (first_hop cli_sample_config)) = []"
    "id (u_path_query (hs_url (first_hop cli_sample_config))) = ''/''"
    by (simp_all add: reachable_url_def validate_url_ok first_hop_def cli_sample_config_def cli_url_def cli_sample_args_def
        u_path_query_def list_lib_def Let_def header_names AUTHORIZATION_def)
  have checks: "check_subprotocols [] (ca_subprotocols chat_args) = Ok ()" "server_check ?name ''/'' [''log'', ''chat.v2''] = Ok ()"
    and found: "find (\<lambda>q. q \<in> set (ca_subprotocols chat_args)) [''log'', ''chat.v2''] = Some ''chat.v2''"
    by code_simp+
  have name: "\<forall>p. ?name p \<noteq> None \<longrightarrow> list_all is_tchar p" by simp
  have "\<exists>q\<in>set [''log'', ''chat.v2'']. q \<in> set (ca_subprotocols chat_args)" by (simp add: chat_args_def)
  then show ?thesis
    using subprotocols_agree [where uri_path = id and header_name = ?name, OF list_lib.http_crates_axioms url(1,2) checks name url(3),
        where random = "[1]" and env = cli_sample_env and upgraded = "()" and checks = True and zlib = True and http_two = True
          and pf = "sample_platform :: (unit, unit, unit, unit) platform" and on = None
          and upgrade_on = "\<lambda>_ :: ((string \<times> bytes) list, unit) http_request. ()"]
    unfolding found option.case by (simp only: simp_thms if_True)
qed

end
