(* ===== verification/Wasm_Socket.thy ===== *)
theory Wasm_Socket
  imports Fragment
begin

text \<open>
  The socket of a browser (\<open>src/wasm.rs\<close>): opening it with its four event
  handlers, waiting for the handshake, the stream and the sink of frames, and
  dropping it.

  The WebSocket object of the browser (\<open>web_sys::WebSocket\<close>) is the parameter
  \<open>browser\<close>, the unbounded channel of \<open>futures_channel::mpsc\<close> the parameter \<open>mpsc\<close>
  with the contract \<open>mpsc_channel\<close>.  The browser runs a handler when an event
  arrives, at any time between two polls: \<open>browser_run\<close> allows every order of events,
  polls and sends.
\<close>

section \<open>The browser and the channels\<close>

record 'b browser =
  js_new :: "string \<Rightarrow> string + 'b"
  js_set_arraybuffer :: "'b \<Rightarrow> 'b"
  js_send_str :: "bytes \<Rightarrow> 'b \<Rightarrow> (string + unit) \<times> 'b"
  js_send_u8_array :: "bytes \<Rightarrow> 'b \<Rightarrow> (string + unit) \<times> 'b"
  js_close :: "'b \<Rightarrow> (string + unit) \<times> 'b"
  js_close_with_code :: "u16 \<Rightarrow> 'b \<Rightarrow> (string + unit) \<times> 'b"
  js_close_with_code_and_reason :: "u16 \<Rightarrow> bytes \<Rightarrow> 'b \<Rightarrow> (string + unit) \<times> 'b"

text \<open>
  A channel: created with a sender and a receiver, \<open>unbounded_send\<close> (whose result
  the code ignores), \<open>poll_next\<close>, and dropping the receiver.
\<close>

record ('a, 'c) mpsc =
  mp_unbounded :: 'c
  mp_send :: "'a \<Rightarrow> 'c \<Rightarrow> 'c"
  mp_poll :: "'c \<Rightarrow> 'a option poll \<times> 'c"
  mp_drop_receiver :: "'c \<Rightarrow> 'c"

text \<open>
  The data of a message event: a string, given by its UTF-8 bytes, an array
  buffer, or any other value.  A close event carries \<open>wasClean\<close>, the code and the
  reason.
\<close>

datatype js_data = JsString bytes | ArrayBuffer bytes | OtherValue

datatype js_event =
    OpenEvent
  | ErrorEvent
  | MessageEvent js_data
  | CloseEvent (was_clean: bool) (event_code: u16) (event_reason: bytes)

datatype handler = Onopen | Onerror | Onmessage | Onclose

fun event_handler :: "js_event \<Rightarrow> handler" where
  "event_handler OpenEvent = Onopen"
| "event_handler ErrorEvent = Onerror"
| "event_handler (MessageEvent _) = Onmessage"
| "event_handler (CloseEvent _ _ _) = Onclose"

section \<open>The socket\<close>

text \<open>
  The fields of \<open>WebSocket\<close>: the socket of the browser, the channel of frames and
  the handlers that are registered; then what else the handlers write to: the
  channel \<open>outcome\<close>, whose receiver \<open>connect\<close> holds, and the warnings on the console.
\<close>

record ('b, 'c, 'd) wasm_socket =
  wasm_stream :: 'b
  wasm_receiver :: 'c
  wasm_handlers :: "handler list"
  wasm_outcome :: 'd
  wasm_console :: "string list"

type_synonym frame_channel = "ws_error + frame"
type_synonym outcome_channel = "ws_error + unit"

definition onopen :: "(outcome_channel, 'd) mpsc \<Rightarrow> ('b, 'c, 'd) wasm_socket \<Rightarrow> ('b, 'c, 'd) wasm_socket" where
  "onopen mo s = s\<lparr>wasm_outcome := mp_send mo (Ok ()) (wasm_outcome s)\<rparr>"

definition onerror :: "(outcome_channel, 'd) mpsc \<Rightarrow> ('b, 'c, 'd) wasm_socket \<Rightarrow> ('b, 'c, 'd) wasm_socket" where
  "onerror mo s = s\<lparr>wasm_outcome := mp_send mo (Err ConnectionClosed) (wasm_outcome s)\<rparr>"

fun maybe_frame :: "js_data \<Rightarrow> frame option" where
  "maybe_frame (JsString t) = Some (text_frame t)"
| "maybe_frame (ArrayBuffer b) = Some (binary_frame b)"
| "maybe_frame OtherValue = None"

definition onmessage ::
    "(frame_channel, 'c) mpsc \<Rightarrow> js_data \<Rightarrow> ('b, 'c, 'd) wasm_socket \<Rightarrow> ('b, 'c, 'd) wasm_socket" where
  "onmessage mr data s =
    (case maybe_frame data of
       None \<Rightarrow> s
     | Some f \<Rightarrow> s\<lparr>wasm_receiver := mp_send mr (Ok f) (wasm_receiver s)\<rparr>)"

definition onclose ::
    "(frame_channel, 'c) mpsc \<Rightarrow> (outcome_channel, 'd) mpsc \<Rightarrow> bool \<Rightarrow> u16 \<Rightarrow> bytes
      \<Rightarrow> ('b, 'c, 'd) wasm_socket \<Rightarrow> ('b, 'c, 'd) wasm_socket" where
  "onclose mr mo clean code reason s =
    (let s = (if \<not> clean
              then s\<lparr>wasm_console := wasm_console s @ [''WebSocket CloseEvent wasClean() == false'']\<rparr>
              else s);
         f = close_frame (close_code_from code) reason;
         s = s\<lparr>wasm_receiver := mp_send mr (Ok f) (wasm_receiver s)\<rparr>;
         s = s\<lparr>wasm_receiver := mp_send mr (Err ConnectionClosed) (wasm_receiver s)\<rparr>
     in s\<lparr>wasm_outcome := mp_send mo (Err ConnectionClosed) (wasm_outcome s)\<rparr>)"

text \<open>The browser dispatches an event to the handler that is registered for it, if there is one.\<close>

fun run_handler ::
    "(frame_channel, 'c) mpsc \<Rightarrow> (outcome_channel, 'd) mpsc \<Rightarrow> js_event
      \<Rightarrow> ('b, 'c, 'd) wasm_socket \<Rightarrow> ('b, 'c, 'd) wasm_socket" where
  "run_handler mr mo OpenEvent s = onopen mo s"
| "run_handler mr mo ErrorEvent s = onerror mo s"
| "run_handler mr mo (MessageEvent data) s = onmessage mr data s"
| "run_handler mr mo (CloseEvent clean code reason) s = onclose mr mo clean code reason s"

definition fire ::
    "(frame_channel, 'c) mpsc \<Rightarrow> (outcome_channel, 'd) mpsc \<Rightarrow> js_event
      \<Rightarrow> ('b, 'c, 'd) wasm_socket \<Rightarrow> ('b, 'c, 'd) wasm_socket" where
  "fire mr mo ev s = (if event_handler ev \<in> set (wasm_handlers s) then run_handler mr mo ev s else s)"

definition wasm_open ::
    "'b browser \<Rightarrow> (frame_channel, 'c) mpsc \<Rightarrow> (outcome_channel, 'd) mpsc \<Rightarrow> string
      \<Rightarrow> ws_error + ('b, 'c, 'd) wasm_socket" where
  "wasm_open br mr mo url =
    (case js_new br url of
       Inl e \<Rightarrow> Err (Js e)
     | Inr b \<Rightarrow> Ok \<lparr>wasm_stream = js_set_arraybuffer br b, wasm_receiver = mp_unbounded mr,
                   wasm_handlers = [Onopen, Onerror, Onmessage, Onclose],
                   wasm_outcome = mp_unbounded mo, wasm_console = []\<rparr>)"

definition wasm_drop ::
    "'b browser \<Rightarrow> (frame_channel, 'c) mpsc \<Rightarrow> ('b, 'c, 'd) wasm_socket \<Rightarrow> ('b, 'c, 'd) wasm_socket" where
  "wasm_drop br mr s =
    (let s = s\<lparr>wasm_handlers := []\<rparr>;
         s = s\<lparr>wasm_stream := snd (js_close br (wasm_stream s))\<rparr>
     in s\<lparr>wasm_receiver := mp_drop_receiver mr (wasm_receiver s)\<rparr>)"

text \<open>
  One poll of \<open>connect\<close> once the socket is open.  When it returns, the receiver of
  the outcomes is dropped, and with an error the socket too.
\<close>

definition wasm_connect_poll ::
    "'b browser \<Rightarrow> (frame_channel, 'c) mpsc \<Rightarrow> (outcome_channel, 'd) mpsc \<Rightarrow> ('b, 'c, 'd) wasm_socket
      \<Rightarrow> (ws_error + unit) poll \<times> ('b, 'c, 'd) wasm_socket" where
  "wasm_connect_poll br mr mo s =
    (case mp_poll mo (wasm_outcome s) of
       (Pending, q) \<Rightarrow> (Pending, s\<lparr>wasm_outcome := q\<rparr>)
     | (Ready (Some (Inr _)), q) \<Rightarrow> (Ready (Ok ()), s\<lparr>wasm_outcome := mp_drop_receiver mo q\<rparr>)
     | (Ready _, q) \<Rightarrow>
         (Ready (Err ConnectionClosed), wasm_drop br mr (s\<lparr>wasm_outcome := mp_drop_receiver mo q\<rparr>)))"

text \<open>The first poll of \<open>connect\<close> opens the socket.\<close>

definition wasm_connect ::
    "'b browser \<Rightarrow> (frame_channel, 'c) mpsc \<Rightarrow> (outcome_channel, 'd) mpsc \<Rightarrow> string
      \<Rightarrow> (ws_error + unit) poll \<times> ('b, 'c, 'd) wasm_socket option" where
  "wasm_connect br mr mo url =
    (case wasm_open br mr mo url of
       Inl e \<Rightarrow> (Ready (Err e), None)
     | Inr s \<Rightarrow> (case wasm_connect_poll br mr mo s of (p, s) \<Rightarrow> (p, Some s)))"

definition wasm_poll_next ::
    "(frame_channel, 'c) mpsc \<Rightarrow> ('b, 'c, 'd) wasm_socket
      \<Rightarrow> (ws_error + frame) option poll \<times> ('b, 'c, 'd) wasm_socket" where
  "wasm_poll_next mr s =
    (case mp_poll mr (wasm_receiver s) of
       (Pending, q) \<Rightarrow> (Pending, s\<lparr>wasm_receiver := q\<rparr>)
     | (Ready (Some (Inr message)), q) \<Rightarrow> (Ready (Some (Ok message)), s\<lparr>wasm_receiver := q\<rparr>)
     | (Ready (Some (Inl e)), q) \<Rightarrow>
         (Ready (if e = ConnectionClosed then None else Some (Err e)), s\<lparr>wasm_receiver := q\<rparr>)
     | (Ready None, q) \<Rightarrow> (Ready None, s\<lparr>wasm_receiver := q\<rparr>))"

definition wasm_next_frame ::
    "(frame_channel, 'c) mpsc \<Rightarrow> ('b, 'c, 'd) wasm_socket
      \<Rightarrow> (ws_error + frame) poll \<times> ('b, 'c, 'd) wasm_socket" where
  "wasm_next_frame mr s =
    (case wasm_poll_next mr s of
       (Pending, s) \<Rightarrow> (Pending, s)
     | (Ready (Some res), s) \<Rightarrow> (Ready res, s)
     | (Ready None, s) \<Rightarrow> (Ready (Err ConnectionClosed), s))"

section \<open>The sink\<close>

definition wasm_poll_ready :: "('b, 'c, 'd) wasm_socket \<Rightarrow> (ws_error + unit) poll \<times> ('b, 'c, 'd) wasm_socket" where
  "wasm_poll_ready s = (Ready (Ok ()), s)"

text \<open>A call of the browser whose error, if any, is reported as \<open>ConnectionClosed\<close>.\<close>

definition or_closed ::
    "('b \<Rightarrow> (string + unit) \<times> 'b) \<Rightarrow> ('b, 'c, 'd) wasm_socket \<Rightarrow> (ws_error + unit) \<times> ('b, 'c, 'd) wasm_socket" where
  "or_closed call s =
    (case call (wasm_stream s) of
       (Inl _, b) \<Rightarrow> (Err ConnectionClosed, s\<lparr>wasm_stream := b\<rparr>)
     | (Inr u, b) \<Rightarrow> (Ok u, s\<lparr>wasm_stream := b\<rparr>))"

definition wasm_start_send ::
    "'b browser \<Rightarrow> frame \<Rightarrow> ('b, 'c, 'd) wasm_socket
      \<Rightarrow> ((ws_error + unit) \<times> ('b, 'c, 'd) wasm_socket) exec" where
  "wasm_start_send br f s =
    (case opcode f of
       Text \<Rightarrow> (case as_str f of
                  None \<Rightarrow> Panic
                | Some t \<Rightarrow> Finished (or_closed (js_send_str br t) s))
     | Binary \<Rightarrow> Finished (or_closed (js_send_u8_array br (payload f)) s)
     | Close \<Rightarrow>
         (case frame_close_code f of
            None \<Rightarrow> Finished (Err ConnectionClosed, s)
          | Some code \<Rightarrow>
              (case close_reason f of
                 Inr (Some reason) \<Rightarrow>
                   Finished (or_closed (js_close_with_code_and_reason br (close_code_to code) reason) s)
               | Inr None \<Rightarrow> Finished (or_closed (js_close_with_code br (close_code_to code)) s)
               | Inl e \<Rightarrow> Finished (Err e, s)))
     | _ \<Rightarrow> Finished (Ok (), s))"

definition wasm_poll_flush :: "('b, 'c, 'd) wasm_socket \<Rightarrow> (ws_error + unit) poll \<times> ('b, 'c, 'd) wasm_socket" where
  "wasm_poll_flush s = (Ready (Ok ()), s)"

definition wasm_poll_close ::
    "'b browser \<Rightarrow> ('b, 'c, 'd) wasm_socket \<Rightarrow> (ws_error + unit) poll \<times> ('b, 'c, 'd) wasm_socket" where
  "wasm_poll_close br s =
    (case js_close br (wasm_stream s) of
       (Inl e, b) \<Rightarrow> (Ready (Err (Js e)), s\<lparr>wasm_stream := b\<rparr>)
     | (Inr u, b) \<Rightarrow> (Ready (Ok u), s\<lparr>wasm_stream := b\<rparr>))"

text \<open>
  A Close frame with a code always has a reason, if an empty one, so the sink ends the
  connection by \<open>close_with_code_and_reason\<close>; \<open>close_with_code\<close> is never called.  A Close frame
  without a code, or with a reason that is not UTF-8, is refused and the socket is left open.
\<close>

lemma wasm_send_close:
  assumes "opcode f = Close"
  shows "wasm_start_send br f s = Finished
    (if length (payload f) < 2 then (Err ConnectionClosed, s)
     else if utf8_valid (drop 2 (payload f)) then
       or_closed (js_close_with_code_and_reason br (be_word (take 2 (payload f))) (drop 2 (payload f))) s
     else (Err InvalidUTF8, s))"
  using assms by (auto simp: wasm_start_send_def frame_close_code_def close_reason_def from_utf8_def)

lemma or_closed_stream:
  "or_closed call s = (r, s1) \<Longrightarrow> \<exists>b. s1 = s\<lparr>wasm_stream := b\<rparr>"
  by (auto simp: or_closed_def split: prod.splits sum.splits)

text \<open>Sending and closing change nothing but the socket of the browser.\<close>

lemma wasm_start_send_stream:
  assumes "wasm_start_send br f s = Finished (r, s1)"
  shows "\<exists>b. s1 = s\<lparr>wasm_stream := b\<rparr>"
proof -
  have same: "\<exists>b. s = s\<lparr>wasm_stream := b\<rparr>" by (rule exI [of _ "wasm_stream s"]) simp
  show ?thesis using assms same
    by (auto simp: wasm_start_send_def dest: or_closed_stream split: opcode.splits option.splits sum.splits)
qed

lemma wasm_poll_close_stream:
  "wasm_poll_close br s = (r, s1) \<Longrightarrow> \<exists>b. s1 = s\<lparr>wasm_stream := b\<rparr>"
  by (auto simp: wasm_poll_close_def split: prod.splits sum.splits)

section \<open>The contract of the channels\<close>

text \<open>
  What the socket relies on: a channel is a queue as long as its receiver lives (\<open>listening\<close>).  An
  empty channel makes its receiver wait; it would end only when every sender is dropped, and
  the handlers of a socket hold theirs as long as the socket holds the receiver.
\<close>

locale mpsc_channel =
  fixes m :: "('a, 'c) mpsc" and waiting :: "'c \<Rightarrow> 'a list" and listening :: "'c \<Rightarrow> bool"
  assumes fresh: "waiting (mp_unbounded m) = [] \<and> listening (mp_unbounded m)"
    and send: "listening c \<Longrightarrow> waiting (mp_send m x c) = waiting c @ [x] \<and> listening (mp_send m x c)"
    and poll_takes: "listening c \<Longrightarrow> waiting c = x # xs \<Longrightarrow>
      \<exists>c1. mp_poll m c = (Ready (Some x), c1) \<and> waiting c1 = xs \<and> listening c1"
    and poll_waits: "listening c \<Longrightarrow> waiting c = [] \<Longrightarrow>
      \<exists>c1. mp_poll m c = (Pending, c1) \<and> waiting c1 = [] \<and> listening c1"
begin

lemma poll_cases:
  assumes "listening c"
  obtains (empty) c1 where "waiting c = []" "mp_poll m c = (Pending, c1)" "waiting c1 = []" "listening c1"
  | (item) x xs c1 where "waiting c = x # xs" "mp_poll m c = (Ready (Some x), c1)" "waiting c1 = xs" "listening c1"
  using poll_takes [OF assms] poll_waits [OF assms] by (cases "waiting c") auto

end

text \<open>A channel in memory: its queue, and whether the receiver lives.\<close>

definition list_channel :: "('a, 'a list \<times> bool) mpsc" where
  "list_channel =
    \<lparr>mp_unbounded = ([], True),
     mp_send = (\<lambda>x (xs, l). (if l then xs @ [x] else xs, l)),
     mp_poll = (\<lambda>(xs, l). case xs of [] \<Rightarrow> (Pending, ([], l)) | x # xs \<Rightarrow> (Ready (Some x), (xs, l))),
     mp_drop_receiver = (\<lambda>(xs, l). ([], False))\<rparr>"

interpretation memory_channel: mpsc_channel list_channel fst snd
  by unfold_locales (auto simp: list_channel_def)

section \<open>Every order of events, polls and sends\<close>

text \<open>
  \<open>browser_run br mr mo url ph evs got s\<close>: a socket that was opened for \<open>url\<close> is in state \<open>s\<close> after
  the events \<open>evs\<close>, and its stream has returned \<open>got\<close>.  Until \<open>connect\<close> has returned the socket
  only the future of \<open>connect\<close> is polled.
\<close>

datatype wasm_phase = Connecting | Connected

inductive browser_run ::
    "'b browser \<Rightarrow> (frame_channel, 'c) mpsc \<Rightarrow> (outcome_channel, 'd) mpsc \<Rightarrow> string \<Rightarrow> wasm_phase
      \<Rightarrow> js_event list \<Rightarrow> (ws_error + frame) option list \<Rightarrow> ('b, 'c, 'd) wasm_socket \<Rightarrow> bool"
  for br mr mo url where
  opened: "wasm_open br mr mo url = Ok s \<Longrightarrow> browser_run br mr mo url Connecting [] [] s"
| event: "browser_run br mr mo url ph evs got s \<Longrightarrow>
    browser_run br mr mo url ph (evs @ [ev]) got (fire mr mo ev s)"
| connecting: "browser_run br mr mo url Connecting evs got s \<Longrightarrow>
    wasm_connect_poll br mr mo s = (Pending, s1) \<Longrightarrow> browser_run br mr mo url Connecting evs got s1"
| connected: "browser_run br mr mo url Connecting evs got s \<Longrightarrow>
    wasm_connect_poll br mr mo s = (Ready (Ok ()), s1) \<Longrightarrow> browser_run br mr mo url Connected evs got s1"
| idle: "browser_run br mr mo url Connected evs got s \<Longrightarrow>
    wasm_poll_next mr s = (Pending, s1) \<Longrightarrow> browser_run br mr mo url Connected evs got s1"
| returned: "browser_run br mr mo url Connected evs got s \<Longrightarrow>
    wasm_poll_next mr s = (Ready x, s1) \<Longrightarrow> browser_run br mr mo url Connected evs (got @ [x]) s1"
| sent: "browser_run br mr mo url Connected evs got s \<Longrightarrow>
    wasm_start_send br f s = Finished (r, s1) \<Longrightarrow> browser_run br mr mo url Connected evs got s1"
| closing: "browser_run br mr mo url Connected evs got s \<Longrightarrow>
    wasm_poll_close br s = (r1, s1) \<Longrightarrow> browser_run br mr mo url Connected evs got s1"

text \<open>
  What the stream should return for the events so far: a message for every text or
  binary message event, and for a close event its Close frame and the end of the stream.
\<close>

fun event_answers :: "js_event \<Rightarrow> (ws_error + frame) option list" where
  "event_answers (MessageEvent (JsString t)) = [Some (Ok (text_frame t))]"
| "event_answers (MessageEvent (ArrayBuffer b)) = [Some (Ok (binary_frame b))]"
| "event_answers (CloseEvent _ code reason) =
     [Some (Ok (close_frame (close_code_from code) reason)), None]"
| "event_answers _ = []"

definition delivered :: "js_event list \<Rightarrow> (ws_error + frame) option list" where
  "delivered evs = concat (map event_answers evs)"

text \<open>The events that settle a handshake, and what \<open>connect\<close> should return after a list of events.\<close>

fun settles :: "js_event \<Rightarrow> bool" where
  "settles (MessageEvent _) = False"
| "settles _ = True"

definition handshake_result :: "js_event list \<Rightarrow> (ws_error + unit) poll" where
  "handshake_result evs =
    (case filter settles evs of
       [] \<Rightarrow> Pending
     | ev # _ \<Rightarrow> Ready (if ev = OpenEvent then Ok () else Err ConnectionClosed))"

text \<open>The abstraction of the two queues.\<close>

definition answer :: "ws_error + frame \<Rightarrow> (ws_error + frame) option" where
  "answer x = (if x = Err ConnectionClosed then None else Some x)"

definition outcome_of :: "js_event \<Rightarrow> ws_error + unit" where
  "outcome_of ev = (if ev = OpenEvent then Ok () else Err ConnectionClosed)"

locale wasm_channels =
  frames: mpsc_channel mr wr lr + outcomes: mpsc_channel mo wo lo
  for mr :: "(frame_channel, 'c) mpsc" and wr lr and mo :: "(outcome_channel, 'd) mpsc" and wo lo
begin

definition tracks :: "wasm_phase \<Rightarrow> js_event list \<Rightarrow> (ws_error + frame) option list \<Rightarrow> ('b, 'c, 'd) wasm_socket \<Rightarrow> bool" where
  "tracks ph evs got s \<longleftrightarrow>
    set (wasm_handlers s) = UNIV \<and> lr (wasm_receiver s) \<and>
    got @ map answer (wr (wasm_receiver s)) = delivered evs \<and>
    (ph = Connecting \<longrightarrow> lo (wasm_outcome s) \<and> wo (wasm_outcome s) = map outcome_of (filter settles evs)) \<and>
    (ph = Connected \<longrightarrow> handshake_result evs = Ready (Ok ()))"

lemma tracks_open:
  assumes "wasm_open br mr mo url = Ok s"
  shows "tracks Connecting [] [] s"
proof -
  have "UNIV = {Onopen, Onerror, Onmessage, Onclose}" using handler.exhaust by auto
  then show ?thesis using assms frames.fresh outcomes.fresh
    by (auto simp: wasm_open_def tracks_def delivered_def split: sum.splits)
qed

lemma handshake_result_snoc:
  "handshake_result evs = Ready r \<Longrightarrow> handshake_result (evs @ [ev]) = Ready r"
  by (auto simp: handshake_result_def split: list.splits)

lemma tracks_fire:
  assumes "tracks ph evs got s"
  shows "tracks ph (evs @ [ev]) got (fire mr mo ev s)"
proof -
  have "handshake_result (evs @ [ev]) = Ready (Ok ())" if "ph = Connected"
    using assms that by (simp add: tracks_def handshake_result_snoc)
  then show ?thesis using assms
    by (cases ev rule: event_answers.cases)
      (auto simp: tracks_def fire_def delivered_def answer_def outcome_of_def onopen_def onerror_def
        onmessage_def onclose_def Let_def frames.send outcomes.send)
qed

lemma tracks_poll_next:
  assumes "tracks ph evs got s" "wasm_poll_next mr s = (p, s1)"
  shows "p = (case drop (length got) (delivered evs) of [] \<Rightarrow> Pending | x # _ \<Rightarrow> Ready x) \<and>
    tracks ph evs (case p of Pending \<Rightarrow> got | Ready x \<Rightarrow> got @ [x]) s1"
proof -
  have left: "drop (length got) (delivered evs) = map answer (wr (wasm_receiver s))"
    and listen: "lr (wasm_receiver s)"
    using assms(1) unfolding tracks_def by (metis append_eq_conv_conj)+
  from listen show ?thesis
  proof (cases rule: frames.poll_cases)
    case empty
    then show ?thesis using assms left by (auto simp: wasm_poll_next_def tracks_def)
  next
    case (item x xs c1)
    then have "p = Ready (answer x)" "s1 = s\<lparr>wasm_receiver := c1\<rparr>"
      using assms(2) by (auto simp: wasm_poll_next_def answer_def split: sum.splits)
    then show ?thesis using assms(1) left item by (auto simp: tracks_def)
  qed
qed

lemma tracks_connect_poll:
  assumes "tracks Connecting evs got s" "wasm_connect_poll br mr mo s = (p, s1)"
  shows "p = handshake_result evs \<and> (p = Pending \<longrightarrow> tracks Connecting evs got s1) \<and>
    (p = Ready (Ok ()) \<longrightarrow> tracks Connected evs got s1)"
proof -
  have out: "wo (wasm_outcome s) = map outcome_of (filter settles evs)" and listen: "lo (wasm_outcome s)"
    using assms(1) by (simp_all add: tracks_def)
  from listen show ?thesis
  proof (cases rule: outcomes.poll_cases)
    case empty
    then show ?thesis using assms out
      by (auto simp: wasm_connect_poll_def tracks_def handshake_result_def)
  next
    case (item x xs c1)
    then obtain ev rest where ev: "filter settles evs = ev # rest" "x = outcome_of ev"
      using out by (cases "filter settles evs") auto
    then show ?thesis using assms item
      by (cases "ev = OpenEvent")
        (auto simp: wasm_connect_poll_def tracks_def handshake_result_def outcome_of_def)
  qed
qed

text \<open>The first poll of \<open>connect\<close> reports what the browser refuses at once, and waits otherwise.\<close>

lemma wasm_connect_first:
  "case js_new br url of
     Inl e \<Rightarrow> wasm_connect br mr mo url = (Ready (Err (Js e)), None)
   | Inr _ \<Rightarrow> \<exists>s. wasm_connect br mr mo url = (Pending, Some s) \<and> tracks Connecting [] [] s"
proof (cases "js_new br url")
  case (Inl e)
  then show ?thesis by (simp add: wasm_connect_def wasm_open_def)
next
  case (Inr b)
  then obtain s where open_ok: "wasm_open br mr mo url = Ok s" by (simp add: wasm_open_def)
  obtain p s1 where poll: "wasm_connect_poll br mr mo s = (p, s1)" by fastforce
  from open_ok poll tracks_connect_poll [OF tracks_open [OF open_ok] poll]
  show ?thesis by (simp add: Inr wasm_connect_def handshake_result_def)
qed

lemma tracks_stream: "tracks ph evs got s \<Longrightarrow> tracks ph evs got (s\<lparr>wasm_stream := b\<rparr>)"
  by (simp add: tracks_def)

lemma browser_run_tracks: "browser_run br mr mo url ph evs got s \<Longrightarrow> tracks ph evs got s"
proof (induction rule: browser_run.induct)
  case (connecting evs got s s1)
  then show ?case using tracks_connect_poll by blast
next
  case (connected evs got s s1)
  then show ?case using tracks_connect_poll by blast
next
  case (idle evs got s s1)
  then show ?case using tracks_poll_next by fastforce
next
  case (returned evs got s x s1)
  then show ?case using tracks_poll_next by fastforce
next
  case (sent evs got s f r s1)
  then show ?case by (auto dest!: wasm_start_send_stream simp: tracks_stream)
next
  case (closing evs got s r1 s1)
  then show ?case by (auto dest!: wasm_poll_close_stream simp: tracks_stream)
qed (simp_all add: tracks_open tracks_fire)

end

interpretation memory_channels: wasm_channels list_channel fst snd list_channel fst snd
  by unfold_locales

section \<open>The property\<close>

text \<open>
  C17. Whatever the browser does and in whatever order events, polls and sends happen: \<open>connect\<close>
  waits until the browser reports an open, error or close event, and then succeeds if and only if the
  first of them is the open event; the stream returns exactly the messages of the browser in their
  order, the ones that arrived before \<open>connect\<close> returned included, and after a close event its
  Close frame and the end of the stream.  When all of it has been returned, the next poll of the
  stream and a call of \<open>next_frame\<close> wait, also after the end of the stream.
\<close>

theorem browser_frames_in_order:
  assumes "mpsc_channel mr wr lr" "mpsc_channel mo wo lo"
    and "browser_run br mr mo url ph evs got s"
  shows "(ph = Connecting \<longrightarrow> fst (wasm_connect_poll br mr mo s) = handshake_result evs) \<and>
    (ph = Connected \<longrightarrow> handshake_result evs = Ready (Ok ())) \<and>
    got = take (length got) (delivered evs) \<and>
    fst (wasm_poll_next mr s) =
      (case drop (length got) (delivered evs) of [] \<Rightarrow> Pending | x # _ \<Rightarrow> Ready x) \<and>
    (got = delivered evs \<longrightarrow> fst (wasm_next_frame mr s) = Pending)"
proof -
  have c: "wasm_channels mr wr lr mo wo lo" using assms(1,2) by (simp add: wasm_channels_def)
  note t = wasm_channels.browser_run_tracks [OF c assms(3)]
  obtain p s1 where p: "wasm_poll_next mr s = (p, s1)" by fastforce
  note next_poll = conjunct1 [OF wasm_channels.tracks_poll_next [OF c t p]]
  have "fst (wasm_connect_poll br mr mo s) = handshake_result evs" if "ph = Connecting"
    using wasm_channels.tracks_connect_poll [OF c] t that by (metis prod.collapse)
  moreover have "(ph = Connected \<longrightarrow> handshake_result evs = Ready (Ok ())) \<and> got = take (length got) (delivered evs)"
    using t unfolding wasm_channels.tracks_def [OF c] by (metis append_eq_conv_conj)
  moreover have "fst (wasm_next_frame mr s) = Pending" if "got = delivered evs"
    using next_poll that p by (simp add: wasm_next_frame_def)
  ultimately show ?thesis using next_poll p by simp
qed

text \<open>A browser that opens every socket and remembers the texts it was given.\<close>

definition memory_browser :: "bytes list browser" where
  "memory_browser =
    \<lparr>js_new = (\<lambda>url. Ok []), js_set_arraybuffer = (\<lambda>b. b), js_send_str = (\<lambda>t b. (Ok (), b @ [t])),
     js_send_u8_array = (\<lambda>t b. (Ok (), b @ [t])), js_close = (\<lambda>b. (Ok (), b)),
     js_close_with_code = (\<lambda>c b. (Ok (), b)), js_close_with_code_and_reason = (\<lambda>c r b. (Ok (), b))\<rparr>"

lemmas memory_run_simps =
  memory_browser_def list_channel_def wasm_open_def wasm_connect_poll_def wasm_poll_next_def fire_def
  onopen_def onmessage_def onclose_def

text \<open>
  A run where a message arrives before \<open>connect\<close> is polled and the connection is then closed by
  the peer.
\<close>

lemma memory_run:
  "\<exists>s. browser_run memory_browser list_channel list_channel ''ws://a/'' Connected
    [OpenEvent, MessageEvent (JsString [104]), CloseEvent True 1000 []]
    [Some (Ok (text_frame [104])), Some (Ok (close_frame (close_code_from 1000) [])), None] s"
proof -
  let ?run = "browser_run memory_browser list_channel list_channel ''ws://a/''"
  let ?m = "MessageEvent (JsString [104])" and ?c = "CloseEvent True 1000 []"
  let ?f = "Ok (text_frame [104])" and ?g = "Ok (close_frame (close_code_from 1000) [])"
  let ?s = "\<lambda>q r. \<lparr>wasm_stream = [], wasm_receiver = (q, True),
    wasm_handlers = [Onopen, Onerror, Onmessage, Onclose], wasm_outcome = r, wasm_console = []\<rparr>"
  have "?run Connecting [] [] (?s [] ([], True))"
    by (rule browser_run.opened) (simp add: memory_run_simps)
  from browser_run.event [OF this, of OpenEvent]
  have "?run Connecting [OpenEvent] [] (?s [] ([Ok ()], True))" by (simp add: memory_run_simps)
  from browser_run.event [OF this, of ?m]
  have "?run Connecting [OpenEvent, ?m] [] (?s [?f] ([Ok ()], True))" by (simp add: memory_run_simps)
  then have "?run Connected [OpenEvent, ?m] [] (?s [?f] ([], False))"
    by (rule browser_run.connected) (simp add: memory_run_simps)
  from browser_run.event [OF this, of ?c]
  have "?run Connected [OpenEvent, ?m, ?c] [] (?s [?f, ?g, Err ConnectionClosed] ([], False))"
    by (simp add: memory_run_simps)
  then have "?run Connected [OpenEvent, ?m, ?c] ([] @ [Some ?f]) (?s [?g, Err ConnectionClosed] ([], False))"
    by (rule browser_run.returned) (simp add: memory_run_simps)
  then have "?run Connected [OpenEvent, ?m, ?c] (([] @ [Some ?f]) @ [Some ?g]) (?s [Err ConnectionClosed] ([], False))"
    by (rule browser_run.returned) (simp add: memory_run_simps)
  then have "?run Connected [OpenEvent, ?m, ?c] ((([] @ [Some ?f]) @ [Some ?g]) @ [None]) (?s [] ([], False))"
    by (rule browser_run.returned) (simp add: memory_run_simps)
  then show ?thesis by auto
qed

theorem browser_frames_in_order_witness:
  "\<exists>s. browser_run memory_browser list_channel list_channel ''ws://a/'' Connected
      [OpenEvent, MessageEvent (JsString [104]), CloseEvent True 1000 []]
      [Some (Ok (text_frame [104])), Some (Ok (close_frame (close_code_from 1000) [])), None] s \<and>
    fst (wasm_poll_next list_channel s) = Pending \<and> fst (wasm_next_frame list_channel s) = Pending"
proof -
  obtain s where run: "browser_run memory_browser list_channel list_channel ''ws://a/'' Connected
      [OpenEvent, MessageEvent (JsString [104]), CloseEvent True 1000 []]
      [Some (Ok (text_frame [104])), Some (Ok (close_frame (close_code_from 1000) [])), None] s"
    using memory_run by blast
  show ?thesis
    using browser_frames_in_order
        [OF memory_channel.mpsc_channel_axioms memory_channel.mpsc_channel_axioms run] run
    by (auto simp: delivered_def)
qed

end
